(* ===== verification/Latch_Prelude.thy ===== *)
theory Latch_Prelude
imports
  Main
  "HOL-Library.Word"
  "HOL-Library.AList"
  "HOL-Library.Multiset"
  "HOL-Library.Sublist"
  "HOL-Library.Char_ord"
  "HOL-Library.List_Lexorder"
begin

text \<open>
  What every theory of the development shares: the types that stand for Go's own
  (strings, byte slices, 64-bit integers, maps), the arbitrary order in which Go
  walks a map, and the lemmas about association lists, multisets and words that
  the component proofs use. Nothing here is specific to one component.
\<close>

section \<open>Types\<close>

text \<open>
  A Go string is an immutable sequence of bytes, and a \<open>char\<close> of Isabelle is
  one byte, so a Go string is a \<^typ>\<open>string\<close>. A \<open>[]byte\<close> is a list of 8-bit words.
  The integers of the code are kept at their width: \<open>int64\<close>, and Go's \<open>int\<close> and
  \<open>time.Duration\<close> on the 64-bit targets the Makefile builds, are 64-bit words
  read as two's complement by \<^const>\<open>sint\<close>; \<open>uint16\<close> and \<open>uint32\<close> are 16- and
  32-bit words. An instant (\<open>time.Time\<close>) is a number of nanoseconds.
\<close>

type_synonym byte = "8 word"
type_synonym bytes = "byte list"
type_synonym int64 = "64 word"
type_synonym uint16 = "16 word"
type_synonym uint32 = "32 word"
type_synonym instant = int
type_synonym labels = "string \<rightharpoonup> string"

definition bytes_of :: "string \<Rightarrow> bytes" where
  "bytes_of s = map (\<lambda>c. word_of_nat (of_char c)) s"

definition string_of :: "bytes \<Rightarrow> string" where
  "string_of bs = map (\<lambda>b. char_of (unat b)) bs"

definition second :: int64 where
  "second = 1000000000"

section \<open>Collections of facts\<close>

named_theorems range_simps \<open>facts about the order in which a map is walked\<close>
named_theorems alist_simps \<open>association lists as finite maps\<close>
named_theorems invar_intros \<open>preservation of the components' invariants\<close>

section \<open>Walking a map\<close>

text \<open>
  \<open>for k, v := range m\<close> visits the entries of \<open>m\<close> in an order the language does
  not fix. A map is an association list with distinct keys, and an order is an
  oracle \<open>ord\<close> that may depend on the contents: the walk follows \<open>ord m\<close> when that
  is a rearrangement of \<open>m\<close>, and the list as it stands otherwise. So every
  oracle gives a legal walk, every legal walk is given by some oracle, and a
  theorem that holds for all oracles holds for every choice of the run time.
\<close>

type_synonym 'a order = "'a list \<Rightarrow> 'a list"

definition go_range :: "'a order \<Rightarrow> 'a list \<Rightarrow> 'a list" where
  "go_range ord m = (if mset (ord m) = mset m then ord m else m)"

lemma mset_go_range [simp, range_simps]: "mset (go_range ord m) = mset m"
  by (simp add: go_range_def)

lemma set_go_range [simp, range_simps]: "set (go_range ord m) = set m"
  by (rule mset_eq_setD) simp

lemma length_go_range [simp, range_simps]: "length (go_range ord m) = length m"
  by (rule mset_eq_length) simp

lemma go_range_Nil [simp, range_simps]: "go_range ord [] = []"
  using length_go_range [of ord "[]"] by (simp del: length_go_range)

lemma go_range_eq_Nil_iff [simp]: "go_range ord m = [] \<longleftrightarrow> m = []"
  using length_go_range [of ord m] by (cases m) (auto simp del: length_go_range)

lemma distinct_map_go_range [simp, range_simps]:
  "distinct (map f (go_range ord m)) \<longleftrightarrow> distinct (map f m)"
  by (rule mset_eq_imp_distinct_iff) simp

lemma go_range_exact: "mset (ord m) = mset m \<Longrightarrow> go_range ord m = ord m"
  by (simp add: go_range_def)

lemma go_range_id [simp]: "go_range (\<lambda>m. m) m = m"
  by (simp add: go_range_def)

lemma map_of_go_range:
  assumes "distinct (map fst m)"
  shows "map_of (go_range ord m) = map_of m"
proof
  fix k
  from assms have d: "distinct (map fst (go_range ord m))"
    by simp
  show "map_of (go_range ord m) k = map_of m k"
  proof (cases "map_of m k")
    case None
    then show ?thesis by (metis map_of_eq_None_iff set_go_range image_set)
  next
    case (Some v)
    then have "(k, v) \<in> set (go_range ord m)"
      using map_of_SomeD by fastforce
    with d Some show ?thesis by simp
  qed
qed

section \<open>Association lists as finite maps\<close>

abbreviation keys :: "('k \<times> 'v) list \<Rightarrow> 'k list" where
  "keys m \<equiv> map fst m"

lemma map_of_update [alist_simps]: "map_of (AList.update k v m) = (map_of m)(k \<mapsto> v)"
  by (simp add: update_conv')

lemma map_of_delete [alist_simps]: "map_of (AList.delete k m) = (map_of m)(k := None)"
  by (simp add: delete_conv')

lemma distinct_keys_update [simp, alist_simps]:
  "distinct (keys m) \<Longrightarrow> distinct (keys (AList.update k v m))"
  by (rule distinct_update)

lemma distinct_keys_delete [simp, alist_simps]:
  "distinct (keys m) \<Longrightarrow> distinct (keys (AList.delete k m))"
  by (rule distinct_delete)

lemma delete_absent: "k \<notin> set (keys m) \<Longrightarrow> AList.delete k m = m"
  by (induction m) auto

lemma update_absent: "k \<notin> set (keys m) \<Longrightarrow> AList.update k v m = m @ [(k, v)]"
  by (induction m) auto

lemma delete_split:
  assumes "distinct (keys m)" and "map_of m k = Some v"
  shows "mset m = add_mset (k, v) (mset (AList.delete k m))"
  using assms
proof (induction m)
  case Nil
  then show ?case by simp
next
  case (Cons p m)
  show ?case
  proof (cases "fst p = k")
    case True
    with Cons.prems have "k \<notin> set (keys m)" and "p = (k, v)"
      by (auto simp: prod_eq_iff)
    then show ?thesis by (simp add: delete_absent)
  next
    case False
    with Cons show ?thesis by (cases p) auto
  qed
qed

lemma length_delete_present:
  "distinct (keys m) \<Longrightarrow> map_of m k = Some v \<Longrightarrow> length m = Suc (length (AList.delete k m))"
  using delete_split [of m k v] by (metis size_add_mset size_mset)

lemma length_delete_less: "k \<in> set (keys m) \<Longrightarrow> length (AList.delete k m) < length m"
  by (auto simp: AList.delete_eq intro!: length_filter_less)

lemma sum_list_delete:
  fixes f :: "'k \<times> 'v \<Rightarrow> 'a::comm_monoid_add"
  assumes "distinct (keys m)" and "map_of m k = Some v"
  shows "sum_list (map f m) = f (k, v) + sum_list (map f (AList.delete k m))"
proof -
  have "sum_mset (image_mset f (mset m)) =
      sum_mset (image_mset f (add_mset (k, v) (mset (AList.delete k m))))"
    using delete_split [OF assms] by simp
  then show ?thesis
    by (simp add: sum_mset_sum_list flip: mset_map)
qed

lemma sum_list_update_absent:
  fixes f :: "'k \<times> 'v \<Rightarrow> 'a::comm_monoid_add"
  assumes "k \<notin> set (keys m)"
  shows "sum_list (map f (AList.update k v m)) = sum_list (map f m) + f (k, v)"
  using assms by (simp add: update_absent)

lemma mset_eq_sum_list:
  fixes f :: "'a \<Rightarrow> 'b::comm_monoid_add"
  assumes "mset xs = mset ys"
  shows "sum_list (map f xs) = sum_list (map f ys)"
proof -
  have "sum_mset (image_mset f (mset xs)) = sum_mset (image_mset f (mset ys))"
    using assms by simp
  then show ?thesis
    by (simp add: sum_mset_sum_list flip: mset_map)
qed

section \<open>Inclusion of maps\<close>

lemma map_le_upd_mono: "m \<subseteq>\<^sub>m n \<Longrightarrow> m(k \<mapsto> v) \<subseteq>\<^sub>m n(k \<mapsto> v)"
  by (simp add: map_le_def)

lemma map_le_drop_mono: "m \<subseteq>\<^sub>m n \<Longrightarrow> m(k := None) \<subseteq>\<^sub>m n(k := None)"
  by (simp add: map_le_def)

lemma map_le_drop: "m(k := None) \<subseteq>\<^sub>m m"
  by (simp add: map_le_def)

lemma map_le_SomeD: "m \<subseteq>\<^sub>m n \<Longrightarrow> m k = Some v \<Longrightarrow> n k = Some v"
  by (metis domI map_le_def)

section \<open>Words read as signed integers\<close>

lemma sint64_ge: "- (2 ^ 63) \<le> sint (w :: int64)"
  using sint_ge [of w] by simp

lemma sint64_less: "sint (w :: int64) < 2 ^ 63"
  using sint_lt [of w] by simp

lemma sint_word_of_int64:
  "- (2 ^ 63) \<le> i \<Longrightarrow> i < 2 ^ 63 \<Longrightarrow> sint (word_of_int i :: int64) = i"
  by (simp add: signed_of_int signed_take_bit_int_eq_self)

lemma sint_word_of_nat64:
  "int n < 2 ^ 63 \<Longrightarrow> sint (word_of_nat n :: int64) = int n"
  using sint_word_of_int64 [of "int n"] by simp

lemma word_of_int_sint64 [simp]: "word_of_int (sint (w :: int64)) = w"
  by simp

section \<open>Sorting strings\<close>

text \<open>
  \<open>sort.Strings\<close> orders by bytes, which is the lexicographic order that the
  library gives lists of characters. Sorting determines a list from its multiset.
\<close>

lemma sort_mset_cong: "mset xs = mset ys \<Longrightarrow> sort xs = sort (ys :: 'a::linorder list)"
  by (rule properties_for_sort) simp_all

lemma sort_eq_iff_mset: "sort xs = sort ys \<longleftrightarrow> mset xs = mset (ys :: 'a::linorder list)"
  by (metis mset_sort sort_mset_cong)

end
