(* ===== verification/Go_Text.thy ===== *)
theory Go_Text
imports Latch_Prelude
begin

text \<open>
  The functions of Go's standard library on text that the program calls:
  \<open>strings.Split\<close>, \<open>Cut\<close>, \<open>TrimSpace\<close>, \<open>Trim\<close>, \<open>ToLower\<close>, \<open>EqualFold\<close>, \<open>HasPrefix\<close>,
  \<open>strconv.Atoi\<close> and \<open>Itoa\<close>, the \<open>%x\<close> verb of \<open>fmt\<close>, \<open>net.SplitHostPort\<close> and
  \<open>JoinHostPort\<close>, and \<open>http.CanonicalHeaderKey\<close>. They follow the library's
  documented behaviour. \<open>TrimSpace\<close> knows every white-space code point in its UTF-8
  encoding; \<open>ToLower\<close> and \<open>EqualFold\<close> fold the letters of ASCII and the code points
  that fold to one of them, so that comparing a result with an ASCII word, which is
  all the program does with it, is exact.
\<close>

section \<open>Splitting, trimming and folding\<close>

fun go_split :: "char \<Rightarrow> string \<Rightarrow> string list" where
  "go_split c [] = [[]]"
| "go_split c (x # xs) =
     (if x = c then [] # go_split c xs
      else (case go_split c xs of [] \<Rightarrow> [[x]] | y # ys \<Rightarrow> (x # y) # ys))"

definition go_cut :: "char \<Rightarrow> string \<Rightarrow> string \<times> string" where
  "go_cut c s = (takeWhile (\<lambda>x. x \<noteq> c) s, drop 1 (dropWhile (\<lambda>x. x \<noteq> c) s))"

text \<open>
  \<open>unicode.IsSpace\<close>: tab, line feed, vertical tab, form feed, carriage return,
  space, U+0085, U+00A0, U+1680, U+2000 to U+200A, U+2028, U+2029, U+202F,
  U+205F and U+3000, each as its UTF-8 bytes.
\<close>

definition space_runes :: "string list" where
  "space_runes =
     map (\<lambda>n. [char_of n]) [9::nat, 10, 11, 12, 13, 32]
     @ map (map char_of) [[0xC2::nat, 0x85], [0xC2, 0xA0], [0xE1, 0x9A, 0x80]]
     @ map (\<lambda>n. map char_of [0xE2::nat, 0x80, n])
         ([0x80, 0x81, 0x82, 0x83, 0x84, 0x85, 0x86, 0x87, 0x88, 0x89, 0x8A]
          @ [0xA8, 0xA9, 0xAF])
     @ map (map char_of) [[0xE2::nat, 0x81, 0x9F], [0xE3, 0x80, 0x80]]"

function strip_prefixes :: "string list \<Rightarrow> string \<Rightarrow> string" where
  "strip_prefixes es s =
     (case find (\<lambda>e. e \<noteq> [] \<and> prefix e s) es of
        None \<Rightarrow> s
      | Some e \<Rightarrow> strip_prefixes es (drop (length e) s))"
  by pat_completeness auto
termination
proof (relation "measure (\<lambda>(es, s). length s)", simp)
  fix es :: "string list" and s e :: string
  assume "find (\<lambda>e. e \<noteq> [] \<and> prefix e s) es = Some e"
  then have "e \<noteq> [] \<and> prefix e s"
    by (auto simp: find_Some_iff)
  then show "((es, drop (length e) s), es, s) \<in> measure (\<lambda>(es, s). length s)"
    by (auto simp: prefix_def)
qed

declare strip_prefixes.simps [simp del]

definition trim_space :: "string \<Rightarrow> string" where
  "trim_space s =
     rev (strip_prefixes (map rev space_runes) (rev (strip_prefixes space_runes s)))"

definition go_trim :: "char \<Rightarrow> string \<Rightarrow> string" where
  "go_trim c s = rev (dropWhile (\<lambda>x. x = c) (rev (dropWhile (\<lambda>x. x = c) s)))"

definition lower_char :: "char \<Rightarrow> char" where
  "lower_char c =
     (let n = of_char c :: nat in if 65 \<le> n \<and> n \<le> 90 then char_of (n + 32) else c)"

definition upper_char :: "char \<Rightarrow> char" where
  "upper_char c =
     (let n = of_char c :: nat in if 97 \<le> n \<and> n \<le> 122 then char_of (n - 32) else c)"

fun go_replace :: "string \<Rightarrow> string \<Rightarrow> string \<Rightarrow> string" where
  "go_replace old new [] = []"
| "go_replace old new (c # cs) =
     (if old \<noteq> [] \<and> prefix old (c # cs) then new @ go_replace old new (drop (length old - 1) cs)
      else c # go_replace old new cs)"

text \<open>
  Outside ASCII, U+0130 and U+212A have the lower case \<open>i\<close> and \<open>k\<close>; U+017F and U+212A
  fold to \<open>s\<close> and \<open>k\<close>.
\<close>

definition dotted_I :: string where
  "dotted_I = map char_of [0xC4 :: nat, 0xB0]"

definition kelvin_sign :: string where
  "kelvin_sign = map char_of [0xE2 :: nat, 0x84, 0xAA]"

definition long_s :: string where
  "long_s = map char_of [0xC5 :: nat, 0xBF]"

definition to_lower :: "string \<Rightarrow> string" where
  "to_lower s = map lower_char (go_replace dotted_I ''i'' (go_replace kelvin_sign ''k'' s))"

definition fold_case :: "string \<Rightarrow> string" where
  "fold_case s = map lower_char (go_replace long_s ''s'' (go_replace kelvin_sign ''k'' s))"

definition equal_fold :: "string \<Rightarrow> string \<Rightarrow> bool" where
  "equal_fold s t \<longleftrightarrow> fold_case s = fold_case t"

section \<open>Numbers\<close>

definition digit_char :: "char \<Rightarrow> bool" where
  "digit_char c \<longleftrightarrow> (let n = of_char c :: nat in 48 \<le> n \<and> n \<le> 57)"

definition digit_value :: "char \<Rightarrow> int" where
  "digit_value c = of_char c - 48"

definition decimal_value :: "string \<Rightarrow> int" where
  "decimal_value ds = foldl (\<lambda>n c. 10 * n + digit_value c) 0 ds"

definition split_sign :: "string \<Rightarrow> bool \<times> string" where
  "split_sign s =
     (case s of
        [] \<Rightarrow> (False, [])
      | c # r \<Rightarrow> if c = CHR ''-'' then (True, r) else if c = CHR ''+'' then (False, r) else (False, s))"

text \<open>\<open>strconv.Atoi\<close>: a sign is optional, digits are not; \<open>None\<close> for a syntax or a range error.\<close>

definition atoi :: "string \<Rightarrow> int64 option" where
  "atoi s =
     (let (neg, ds) = split_sign s; v = (if neg then - decimal_value ds else decimal_value ds)
      in if ds = [] \<or> \<not> list_all digit_char ds then None
         else if v < - (2 ^ 63) \<or> 2 ^ 63 \<le> v then None
         else Some (word_of_int v))"

fun itoa :: "nat \<Rightarrow> string" where
  "itoa n = (if n < 10 then [char_of (48 + n)] else itoa (n div 10) @ [char_of (48 + n mod 10)])"

declare itoa.simps [simp del]

definition hex_digit :: "nat \<Rightarrow> char" where
  "hex_digit n = (if n < 10 then char_of (48 + n) else char_of (87 + n))"

definition hex :: "bytes \<Rightarrow> string" where
  "hex bs = concat (map (\<lambda>b. [hex_digit (unat b div 16), hex_digit (unat b mod 16)]) bs)"

section \<open>Addresses\<close>

definition index_of :: "char \<Rightarrow> string \<Rightarrow> nat option" where
  "index_of c s = (let i = length (takeWhile (\<lambda>x. x \<noteq> c) s) in if i < length s then Some i else None)"

definition last_index_of :: "char \<Rightarrow> string \<Rightarrow> nat option" where
  "last_index_of c s = map_option (\<lambda>i. length s - 1 - i) (index_of c (rev s))"

text \<open>
  \<open>net.SplitHostPort\<close>: the host and the port, or \<open>None\<close> for any of its errors.
  A host in brackets must end right before the last colon; a host without
  brackets holds no colon; no other bracket may occur.
\<close>

definition split_host_port :: "string \<Rightarrow> (string \<times> string) option" where
  "split_host_port hp =
     (case last_index_of (CHR '':'') hp of
        None \<Rightarrow> None
      | Some i \<Rightarrow>
          if hp \<noteq> [] \<and> hd hp = CHR ''['' then
            (case index_of (CHR '']'') hp of
               None \<Rightarrow> None
             | Some e \<Rightarrow>
                 if e + 1 = length hp \<or> e + 1 \<noteq> i then None
                 else if CHR ''['' \<in> set (drop 1 hp) then None
                 else if CHR '']'' \<in> set (drop (e + 1) hp) then None
                 else Some (take (e - 1) (drop 1 hp), drop (i + 1) hp))
          else if CHR '':'' \<in> set (take i hp) then None
          else if CHR ''['' \<in> set hp then None
          else if CHR '']'' \<in> set hp then None
          else Some (take i hp, drop (i + 1) hp))"

definition join_host_port :: "string \<Rightarrow> string \<Rightarrow> string" where
  "join_host_port host port =
     (if CHR '':'' \<in> set host then ''['' @ host @ '']:'' @ port else host @ '':'' @ port)"

section \<open>Header names\<close>

text \<open>
  \<open>http.CanonicalHeaderKey\<close>: the first letter and every letter after a hyphen in
  upper case, the other letters in lower case; a name with a byte that is not a
  token character is returned as it is. The token characters are the letters, the
  digits and the punctuation \<open>! # $ % & ' * + - . ^ _ ` | ~\<close>.
\<close>

definition token_char :: "char \<Rightarrow> bool" where
  "token_char c \<longleftrightarrow>
     (let n = of_char c :: nat
      in (97 \<le> n \<and> n \<le> 122) \<or> (65 \<le> n \<and> n \<le> 90) \<or> (48 \<le> n \<and> n \<le> 57)
         \<or> n \<in> {33, 35, 36, 37, 38, 39, 42, 43, 45, 46, 94, 95, 96, 124, 126})"

fun canon_from :: "bool \<Rightarrow> string \<Rightarrow> string" where
  "canon_from up [] = []"
| "canon_from up (c # cs) =
     (if up then upper_char c else lower_char c) # canon_from (c = CHR ''-'') cs"

definition canonical_header_key :: "string \<Rightarrow> string" where
  "canonical_header_key s = (if list_all token_char s then canon_from True s else s)"

section \<open>Facts about the text functions\<close>

subsection \<open>Characters\<close>

lemma of_char_less_256 [simp]: "(of_char c :: nat) < 256"
  using nat_of_char_less_256 by simp

lemma char_eq_iff_nat: "c = d \<longleftrightarrow> (of_char c :: nat) = of_char d"
  by simp

lemma char_le_iff_nat: "c \<le> d \<longleftrightarrow> (of_char c :: nat) \<le> of_char d"
  by (simp add: less_eq_char_def)

lemmas char_code_simps = char_eq_iff_nat char_le_iff_nat

lemma of_char_upper: "(of_char (upper_char c) :: nat) =
    (if 97 \<le> (of_char c :: nat) \<and> (of_char c :: nat) \<le> 122 then of_char c - 32 else of_char c)"
  using of_char_less_256 [of c] by (simp add: upper_char_def Let_def of_char_of less_imp_diff_less)

lemma of_char_lower: "(of_char (lower_char c) :: nat) =
    (if 65 \<le> (of_char c :: nat) \<and> (of_char c :: nat) \<le> 90 then of_char c + 32 else of_char c)"
  using of_char_less_256 [of c] by (simp add: lower_char_def Let_def of_char_of)

lemma upper_upper [simp]: "upper_char (upper_char c) = upper_char c"
  and lower_lower [simp]: "lower_char (lower_char c) = lower_char c"
  by (auto simp: char_eq_iff_nat of_char_upper of_char_lower simp del: of_char_eq_iff)

lemma upper_hyphen_iff [simp]: "upper_char c = CHR ''-'' \<longleftrightarrow> c = CHR ''-''"
  and lower_hyphen_iff [simp]: "lower_char c = CHR ''-'' \<longleftrightarrow> c = CHR ''-''"
  by (auto simp: char_eq_iff_nat of_char_upper of_char_lower simp del: of_char_eq_iff)

text \<open>An ASCII string is lowered letter by letter.\<close>

definition ascii :: "string \<Rightarrow> bool" where
  "ascii s \<longleftrightarrow> (\<forall>c \<in> set s. (of_char c :: nat) < 128)"

lemma go_replace_absent: "hd old \<notin> set s \<Longrightarrow> go_replace old new s = s"
proof (induction old new s rule: go_replace.induct)
  case (2 old new c cs)
  then have "\<not> (old \<noteq> [] \<and> prefix old (c # cs))"
    by (cases old) auto
  with 2 show ?case by auto
qed simp

lemma high_not_ascii: "ascii s \<Longrightarrow> 128 \<le> n \<Longrightarrow> n < 256 \<Longrightarrow> char_of (n :: nat) \<notin> set s"
  by (force simp: ascii_def of_char_of)

lemma to_lower_ascii: "ascii s \<Longrightarrow> to_lower s = map lower_char s"
  by (simp add: to_lower_def go_replace_absent high_not_ascii dotted_I_def kelvin_sign_def)

lemma equal_fold_refl [simp]: "equal_fold s s"
  by (simp add: equal_fold_def)

subsection \<open>Splitting\<close>

lemma go_split_not_Nil [simp]: "go_split c s \<noteq> []"
  by (induction s) (auto split: list.splits)

lemma go_split_free: "p \<in> set (go_split c s) \<Longrightarrow> c \<notin> set p"
  by (induction s arbitrary: p) (auto split: list.splits if_splits)

lemma go_split_absent: "c \<notin> set s \<Longrightarrow> go_split c s = [s]"
  by (induction s) (auto split: list.splits)

lemma go_split_append: "c \<notin> set s \<Longrightarrow> go_split c (s @ c # t) = s # go_split c t"
  by (induction s) auto

subsection \<open>Addresses\<close>

lemma go_cut_absent: "c \<notin> set s \<Longrightarrow> go_cut c s = (s, [])"
proof -
  assume "c \<notin> set s"
  then have "takeWhile (\<lambda>x. x \<noteq> c) s = s" "dropWhile (\<lambda>x. x \<noteq> c) s = []"
    by (auto simp: takeWhile_eq_all_conv dropWhile_eq_Nil_conv)
  then show ?thesis unfolding go_cut_def by (metis drop_Nil)
qed

lemma go_cut_first: "c \<notin> set s \<Longrightarrow> go_cut c (s @ c # t) = (s, t)"
  by (auto simp: go_cut_def takeWhile_append dropWhile_append)

lemma dropWhile_absent: "c \<notin> set s \<Longrightarrow> dropWhile (\<lambda>x. x = c) s = s"
  by (cases s) auto

lemma go_trim_absent: "c \<notin> set s \<Longrightarrow> go_trim c s = s"
  by (simp add: go_trim_def dropWhile_absent)

text \<open>
  White space: blanks around a string without white space disappear. A string of
  printable ASCII characters other than the blank holds no white space.
\<close>

definition visible :: "string \<Rightarrow> bool" where
  "visible s \<longleftrightarrow> (\<forall>c \<in> set s. 32 < (of_char c :: nat) \<and> (of_char c :: nat) < 127)"

lemma space_runes_invisible:
  "e \<in> set space_runes \<union> set (map rev space_runes) \<Longrightarrow>
     e \<noteq> [] \<and> \<not> (32 < (of_char (hd e) :: nat) \<and> (of_char (hd e) :: nat) < 127)"
proof -
  have "list_all (\<lambda>e. e \<noteq> [] \<and> \<not> (32 < (of_char (hd e) :: nat) \<and> (of_char (hd e) :: nat) < 127))
      (space_runes @ map rev space_runes)"
    by code_simp
  then show "e \<in> set space_runes \<union> set (map rev space_runes) \<Longrightarrow> ?thesis"
    by (auto simp: list_all_iff)
qed

lemma strip_prefixes_visible:
  assumes "visible s" and "set es \<subseteq> set space_runes \<union> set (map rev space_runes)"
  shows "strip_prefixes es s = s"
proof -
  have "\<not> (e \<noteq> [] \<and> prefix e s)" if "e \<in> set es" for e
  proof
    assume e: "e \<noteq> [] \<and> prefix e s"
    then have "hd e \<in> set s"
      by (metis hd_in_set set_mono_prefix subsetD)
    with assms(1) space_runes_invisible [of e] that assms(2) show False
      by (auto simp: visible_def)
  qed
  then have "find (\<lambda>e. e \<noteq> [] \<and> prefix e s) es = None"
    by (simp add: find_None_iff)
  then show ?thesis by (subst strip_prefixes.simps) simp
qed

lemma trim_space_visible: "visible s \<Longrightarrow> trim_space s = s"
  by (simp add: trim_space_def strip_prefixes_visible visible_def)

text \<open>Blanks and tabs, the white space between the parts of a header.\<close>

definition blanks :: "string \<Rightarrow> bool" where
  "blanks s \<longleftrightarrow> set s \<subseteq> {CHR '' '', CHR 0x09}"

definition space_char :: "char \<Rightarrow> string list \<Rightarrow> bool" where
  "space_char c es \<longleftrightarrow> list_all (\<lambda>e. hd e = c \<longrightarrow> e = [c]) es \<and> list_ex (\<lambda>e. e = [c]) es"

lemma strip_blank:
  assumes "c \<in> {CHR '' '', CHR 0x09}" and "es = space_runes \<or> es = map rev space_runes"
  shows "strip_prefixes es (c # s) = strip_prefixes es s"
proof -
  let ?P = "\<lambda>e. e \<noteq> [] \<and> prefix e (c # s)"
  have runes: "space_char (CHR '' '') space_runes" "space_char (CHR 0x09) space_runes"
    "space_char (CHR '' '') (map rev space_runes)" "space_char (CHR 0x09) (map rev space_runes)"
    by (simp_all add: space_char_def space_runes_def char_of_def bit_simps)
  have "space_char c es"
    using assms(2) assms(1) by (elim disjE insertE emptyE) (simp_all only: runes)
  then have rune: "\<forall>e \<in> set es. hd e = c \<longrightarrow> e = [c]" "[c] \<in> set es"
    unfolding space_char_def list_all_iff list_ex_iff by blast+
  have "find ?P es \<noteq> None"
    using rune(2) by (auto simp: find_None_iff)
  then obtain e where e: "find ?P es = Some e"
    by blast
  then have "e \<in> set es \<and> ?P e"
    by (auto simp: find_Some_iff)
  then have "e \<in> set es" "hd e = c"
    by (cases e; simp)+
  with rune(1) have "e = [c]"
    by blast
  with e show ?thesis by (subst strip_prefixes.simps) simp
qed

lemma strip_blanks:
  "blanks b \<Longrightarrow> es = space_runes \<or> es = map rev space_runes \<Longrightarrow> strip_prefixes es (b @ s) = strip_prefixes es s"
  by (induction b) (auto simp: blanks_def strip_blank)

lemma trim_space_blank: "trim_space (CHR '' '' # s) = trim_space s"
  by (simp add: trim_space_def strip_blank)

text \<open>What is left of a string in blanks that begins and ends with a visible character.\<close>

definition trimmed :: "string \<Rightarrow> bool" where
  "trimmed s \<longleftrightarrow> s = [] \<or> visible [hd s, last s]"

lemma strip_prefixes_stop:
  assumes "s \<noteq> [] \<Longrightarrow> visible [hd s]" and "es = space_runes \<or> es = map rev space_runes"
  shows "strip_prefixes es s = s"
proof -
  have "\<not> (e \<noteq> [] \<and> prefix e s)" if "e \<in> set es" for e
  proof
    assume e: "e \<noteq> [] \<and> prefix e s"
    then have "s \<noteq> []" "hd e = hd s"
      by (auto simp: prefix_def)
    with assms space_runes_invisible [of e] that show False
      by (auto simp: visible_def)
  qed
  then have "find (\<lambda>e. e \<noteq> [] \<and> prefix e s) es = None"
    by (simp add: find_None_iff)
  then show ?thesis by (subst strip_prefixes.simps) simp
qed

lemma trim_space_around:
  assumes "blanks a" and "blanks b" and "trimmed s"
  shows "trim_space (a @ s @ b) = s"
proof (cases "s = []")
  case True
  have "strip_prefixes space_runes (a @ b) = []"
    using strip_blanks [of "a @ b" space_runes "[]"] assms(1,2) strip_prefixes_stop [of "[]" space_runes]
    by (simp add: blanks_def)
  then show ?thesis
    using True strip_prefixes_stop [of "[]" "map rev space_runes"] by (simp add: trim_space_def)
next
  case False
  then have v: "visible [hd s]" "visible [hd (rev s)]"
    using assms(3) by (simp_all add: trimmed_def visible_def hd_rev)
  have "strip_prefixes space_runes (a @ s @ b) = s @ b"
    using strip_blanks [OF assms(1), of space_runes "s @ b"] v(1) False strip_prefixes_stop [of "s @ b" space_runes] by simp
  moreover have "blanks (rev b)"
    using assms(2) by (simp add: blanks_def)
  then have "strip_prefixes (map rev space_runes) (rev b @ rev s) = rev s"
    using strip_blanks [of "rev b" "map rev space_runes" "rev s"] v(2) False strip_prefixes_stop [of "rev s" "map rev space_runes"] by simp
  ultimately show ?thesis by (simp add: trim_space_def)
qed

lemma go_trim_quoted: "c \<notin> set s \<Longrightarrow> go_trim c (c # s @ [c]) = s"
proof -
  assume c: "c \<notin> set s"
  then have "dropWhile (\<lambda>x. x = c) (s @ [c]) = s @ (if s = [] then [] else [c])"
    by (cases s) auto
  moreover have "dropWhile (\<lambda>x. x = c) (rev s) = rev s"
    using c by (simp add: dropWhile_absent)
  ultimately show ?thesis
    by (cases "s = []") (simp_all add: go_trim_def)
qed

lemma index_of_absent: "c \<notin> set s \<Longrightarrow> index_of c s = None"
proof -
  assume "c \<notin> set s"
  then have "takeWhile (\<lambda>x. x \<noteq> c) s = s"
    by (auto simp: takeWhile_eq_all_conv)
  then have "length (takeWhile (\<lambda>x. x \<noteq> c) s) = length s"
    by (rule arg_cong)
  then show ?thesis unfolding index_of_def Let_def by simp
qed

lemma index_of_first: "c \<notin> set a \<Longrightarrow> index_of c (a @ c # b) = Some (length a)"
  by (auto simp: index_of_def Let_def takeWhile_append)

lemma last_index_of_last: "c \<notin> set b \<Longrightarrow> last_index_of c (a @ c # b) = Some (length a)"
  using index_of_first [of c "rev b" "rev a"] by (simp add: last_index_of_def)

lemma split_host_port_no_colon: "CHR '':'' \<notin> set s \<Longrightarrow> split_host_port s = None"
  using index_of_absent [of "CHR '':''" "rev s"] by (simp add: split_host_port_def last_index_of_def)

text \<open>A host name or an IPv4 address joined with a port splits into the two again.\<close>

lemma split_join_host_port:
  assumes "set host \<inter> {CHR '':'', CHR ''['', CHR '']''} = {}" and "set port \<inter> {CHR '':'', CHR ''['', CHR '']''} = {}"
  shows "split_host_port (join_host_port host port) = Some (host, port)"
proof -
  have "last_index_of (CHR '':'') (host @ '':'' @ port) = Some (length host)"
    using assms(2) last_index_of_last [of "CHR '':''" port host] by simp
  moreover have "hd (host @ '':'' @ port) \<noteq> CHR ''[''"
    using assms(1) by (cases host) auto
  ultimately show ?thesis
    using assms by (auto simp: split_host_port_def join_host_port_def)
qed

subsection \<open>Canonical header names\<close>

lemma token_char_letter:
  "97 \<le> (of_char c :: nat) \<and> (of_char c :: nat) \<le> 122 \<or> 65 \<le> (of_char c :: nat) \<and> (of_char c :: nat) \<le> 90
   \<Longrightarrow> token_char c"
  unfolding token_char_def Let_def by blast

lemma token_upper [simp]: "token_char c \<Longrightarrow> token_char (upper_char c)"
proof (cases "97 \<le> (of_char c :: nat) \<and> (of_char c :: nat) \<le> 122")
  case True
  then have "65 \<le> (of_char (upper_char c) :: nat) \<and> (of_char (upper_char c) :: nat) \<le> 90"
    by (auto simp: of_char_upper)
  then show ?thesis by (simp add: token_char_letter)
qed (auto simp: upper_char_def Let_def)

lemma token_lower [simp]: "token_char c \<Longrightarrow> token_char (lower_char c)"
proof (cases "65 \<le> (of_char c :: nat) \<and> (of_char c :: nat) \<le> 90")
  case True
  then have "97 \<le> (of_char (lower_char c) :: nat) \<and> (of_char (lower_char c) :: nat) \<le> 122"
    by (auto simp: of_char_lower)
  then show ?thesis by (simp add: token_char_letter)
qed (auto simp: lower_char_def Let_def)

lemma canon_from_token: "list_all token_char s \<Longrightarrow> list_all token_char (canon_from up s)"
  by (induction up s rule: canon_from.induct) auto

lemma canon_from_idem: "canon_from up (canon_from up s) = canon_from up s"
  by (induction up s rule: canon_from.induct) auto

lemma canonical_idem [simp]:
  "canonical_header_key (canonical_header_key s) = canonical_header_key s"
  by (simp add: canonical_header_key_def canon_from_token canon_from_idem)

lemma length_canon_from [simp]: "length (canon_from up s) = length s"
  by (induction up s rule: canon_from.induct) auto

lemma canonical_Nil_iff [simp]: "canonical_header_key s = [] \<longleftrightarrow> s = []"
  by (metis canonical_header_key_def length_0_conv length_canon_from)

subsection \<open>Decimal numbers\<close>

lemma digit_char_of: "n < 10 \<Longrightarrow> digit_char (char_of (48 + n :: nat))"
  by (simp add: digit_char_def of_char_of)

lemma digit_value_of: "n < 10 \<Longrightarrow> digit_value (char_of (48 + n :: nat)) = int n"
proof -
  assume "n < 10"
  then have "(of_char (char_of (48 + n)) :: nat) = 48 + n"
    by (simp add: of_char_of)
  then have "int (of_char (char_of (48 + n)) :: nat) = 48 + int n"
    by (simp only: of_nat_add of_nat_numeral)
  then show ?thesis
    by (simp add: digit_value_def of_nat_of_char del: of_char_of)
qed

lemma itoa_digits: "list_all digit_char (itoa n)"
  by (induction n rule: itoa.induct) (subst itoa.simps, simp add: digit_char_of)

lemma itoa_not_Nil [simp]: "itoa n \<noteq> []"
  by (subst itoa.simps) simp

lemma decimal_itoa [simp]: "decimal_value (itoa n) = int n"
proof (induction n rule: itoa.induct)
  case (1 n)
  show ?case
  proof (cases "n < 10")
    case True
    then show ?thesis
      by (subst itoa.simps) (simp add: decimal_value_def digit_value_of)
  next
    case False
    with 1 have "decimal_value (itoa (n div 10)) = int (n div 10)"
      by simp
    then have "decimal_value (itoa n) = 10 * int (n div 10) + int (n mod 10)"
      using False
      by (subst itoa.simps) (simp add: decimal_value_def digit_value_of)
    then show ?thesis
      by (metis mult_div_mod_eq of_nat_add of_nat_mult of_nat_numeral)
  qed
qed

lemma itoa_inject [simp]: "itoa m = itoa n \<longleftrightarrow> m = n"
  by (metis decimal_itoa of_nat_eq_iff)

lemma digit_not_newline: "digit_char c \<Longrightarrow> c \<noteq> CHR 0x0A"
  by (auto simp: digit_char_def)

lemma newline_notin_itoa [simp]: "CHR 0x0A \<notin> set (itoa n)"
  using itoa_digits [of n] digit_not_newline by (auto simp: list_all_iff)

lemma split_sign_digits: "list_all digit_char ds \<Longrightarrow> split_sign ds = (False, ds)"
  by (cases ds) (auto simp: split_sign_def digit_char_def)

text \<open>Printing a number and reading it back, up to the range of an \<open>int\<close>.\<close>

lemma atoi_itoa: "n < 2 ^ 63 \<Longrightarrow> atoi (itoa n) = Some (word_of_nat n)"
  by (simp add: atoi_def split_sign_digits itoa_digits)

lemma atoi_itoa_range: "2 ^ 63 \<le> n \<Longrightarrow> atoi (itoa n) = None"
  by (simp add: atoi_def split_sign_digits itoa_digits Let_def)

subsection \<open>Hexadecimal\<close>

lemma length_hex [simp]: "length (hex bs) = 2 * length bs"
  by (induction bs) (simp_all add: hex_def)

lemma nibble_bounds: "unat (x :: byte) div 16 < 16" "unat (x :: byte) mod 16 < 16"
  using unsigned_less [of x, where 'a = nat] by simp_all

lemma hex_digit_inject: "m < 16 \<Longrightarrow> n < 16 \<Longrightarrow> hex_digit m = hex_digit n \<Longrightarrow> m = n"
  by (auto simp: hex_digit_def char_eq_iff_nat of_char_of simp del: of_char_eq_iff split: if_splits)

lemma hex_digit_byte:
  "hex_digit (unat a div 16) = hex_digit (unat b div 16) \<Longrightarrow>
   hex_digit (unat a mod 16) = hex_digit (unat b mod 16) \<Longrightarrow> a = (b :: byte)"
  by (metis div_mult_mod_eq hex_digit_inject nibble_bounds word_unat_eq_iff)

lemma hex_inject: "hex as = hex bs \<Longrightarrow> as = bs"
proof (induction as arbitrary: bs)
  case Nil
  then show ?case by (cases bs) (simp_all add: hex_def)
next
  case (Cons a as)
  then obtain b bs' where bs: "bs = b # bs'"
    by (cases bs) (simp_all add: hex_def)
  with Cons.prems have "hex as = hex bs'" and "a = b"
    by (simp_all add: hex_def hex_digit_byte)
  with Cons.IH bs show ?case by simp
qed

lemma hex_digit_range: "n < 16 \<Longrightarrow> digit_char (hex_digit n) \<or> CHR ''a'' \<le> hex_digit n \<and> hex_digit n \<le> CHR ''f''"
  by (auto simp: hex_digit_def digit_char_of char_le_iff_nat of_char_of)

lemma hex_digits:
  assumes "c \<in> set (hex bs)"
  shows "digit_char c \<or> CHR ''a'' \<le> c \<and> c \<le> CHR ''f''"
proof -
  from assms obtain b :: byte where "c = hex_digit (unat b div 16) \<or> c = hex_digit (unat b mod 16)"
    by (auto simp: hex_def)
  then show ?thesis
    using hex_digit_range [OF nibble_bounds(1) [of b]] hex_digit_range [OF nibble_bounds(2) [of b]]
    by metis
qed

end
