(* ===== verification/Sha256_Conformance.thy ===== *)
theory Sha256_Conformance
imports Sha256
begin

text \<open>
  A published test vector for the hash of theory \<open>Sha256\<close>, evaluated inside the
  kernel by the simplifier: the one-block message \<open>abc\<close> of FIPS 180-4.
\<close>

lemma sha256_abc:
  "hex (sha256 (bytes_of ''abc'')) = ''ba7816bf8f01cfea414140de5dae2223b00361a396177a9cb410ff61f20015ad''"
  by code_simp

end
