(* ===== verification/Go_Http.thy ===== *)
theory Go_Http
imports Go_Text
begin

text \<open>
  The values of \<open>net/http\<close>, \<open>net/url\<close>, \<open>io\<close> and \<open>time\<close> that the program handles:
  header maps with \<open>Get\<close> and \<open>Set\<close>, the URL of a request with \<open>RequestURI\<close>, requests
  and responses, body streams with \<open>io.ReadAll\<close> over an \<open>io.LimitedReader\<close>, and the
  difference of two instants. Parsing and printing HTTP on a connection is the
  library's: a request is the value \<open>http.ReadRequest\<close> returns, a response the value
  handed to \<open>Response.Write\<close>.
\<close>

section \<open>Headers\<close>

text \<open>
  An \<open>http.Header\<close> is a map from names to lists of values. \<open>Get\<close> looks the canonical
  name up and returns the first value, the empty string when there is none; \<open>Set\<close>
  replaces the values of the canonical name by one.
\<close>

type_synonym header = "(string \<times> string list) list"

definition header_get :: "header \<Rightarrow> string \<Rightarrow> string" where
  "header_get h name =
     (case map_of h (canonical_header_key name) of
        None \<Rightarrow> []
      | Some vs \<Rightarrow> (case vs of [] \<Rightarrow> [] | v # _ \<Rightarrow> v))"

definition header_set :: "header \<Rightarrow> string \<Rightarrow> string \<Rightarrow> header" where
  "header_set h name v = AList.update (canonical_header_key name) [v] h"

section \<open>Bodies\<close>

text \<open>
  A body is a stream: the bytes it will deliver, then either the end of file or a
  read error.
\<close>

record stream =
  s_data :: bytes
  s_fails :: bool

definition bytes_reader :: "bytes \<Rightarrow> stream" where
  "bytes_reader bs = \<lparr>s_data = bs, s_fails = False\<rparr>"

definition multi_reader :: "bytes \<Rightarrow> stream \<Rightarrow> stream" where
  "multi_reader bs s = \<lparr>s_data = bs @ s_data s, s_fails = s_fails s\<rparr>"

text \<open>
  \<open>io.ReadAll\<close> on an \<open>io.LimitedReader\<close> with \<open>N\<close> bytes left to read: what was read,
  the \<open>N\<close> that remains, whether an error came back, and what is left of the stream.
  With \<open>N\<close> zero or negative nothing is read and \<open>N\<close> stays as it was. When the limit is
  reached the reader reports the end of file without asking the stream again.
\<close>

record limited_read =
  lr_data :: bytes
  lr_N :: int64
  lr_err :: bool
  lr_rest :: stream

definition read_all_limited :: "int64 \<Rightarrow> stream \<Rightarrow> limited_read" where
  "read_all_limited n s =
     (if sint n \<le> 0 then \<lparr>lr_data = [], lr_N = n, lr_err = False, lr_rest = s\<rparr>
      else if sint n \<le> int (length (s_data s)) then
        \<lparr>lr_data = take (nat (sint n)) (s_data s), lr_N = 0, lr_err = False,
         lr_rest = s\<lparr>s_data := drop (nat (sint n)) (s_data s)\<rparr>\<rparr>
      else
        \<lparr>lr_data = s_data s, lr_N = n - word_of_nat (length (s_data s)), lr_err = s_fails s,
         lr_rest = s\<lparr>s_data := []\<rparr>\<rparr>)"

section \<open>Requests and responses\<close>

text \<open>
  \<open>u_EscapedPath\<close> is the value of the URL's \<open>EscapedPath\<close>, which the library computes
  from the path as it was received.
\<close>

record url =
  u_Scheme :: string
  u_Opaque :: string
  u_Host :: string
  u_Path :: string
  u_EscapedPath :: string
  u_ForceQuery :: bool
  u_RawQuery :: string

definition request_uri :: "url \<Rightarrow> string" where
  "request_uri u =
     (let r = (if u_Opaque u = [] then (if u_EscapedPath u = [] then ''/'' else u_EscapedPath u)
               else if prefix ''//'' (u_Opaque u) then u_Scheme u @ '':'' @ u_Opaque u
               else u_Opaque u)
      in if u_ForceQuery u \<or> u_RawQuery u \<noteq> [] then r @ ''?'' @ u_RawQuery u else r)"

record request =
  r_Method :: string
  r_Host :: string
  r_URL :: url
  r_Header :: header
  r_ProtoMajor :: int
  r_ProtoMinor :: int
  r_Body :: "stream option"

definition proto_at_least :: "request \<Rightarrow> int \<Rightarrow> int \<Rightarrow> bool" where
  "proto_at_least r major minor \<longleftrightarrow>
     major < r_ProtoMajor r \<or> (r_ProtoMajor r = major \<and> minor \<le> r_ProtoMinor r)"

record response =
  p_StatusCode :: int
  p_Proto :: string
  p_ProtoMajor :: int
  p_ProtoMinor :: int
  p_Header :: header
  p_Body :: stream

section \<open>Time\<close>

text \<open>\<open>t.Sub(u)\<close> saturates at the ends of the range of a \<open>Duration\<close>.\<close>

definition time_sub :: "instant \<Rightarrow> instant \<Rightarrow> int64" where
  "time_sub t u = word_of_int (max (- (2 ^ 63)) (min (2 ^ 63 - 1) (t - u)))"

section \<open>Facts\<close>

lemma header_get_set [simp]:
  "header_get (header_set h n v) m =
     (if canonical_header_key m = canonical_header_key n then v else header_get h m)"
  by (simp add: header_get_def header_set_def map_of_update)

lemma header_get_canonical [simp]: "header_get h (canonical_header_key n) = header_get h n"
  by (simp add: header_get_def)

lemma distinct_header_set [simp]: "distinct (keys h) \<Longrightarrow> distinct (keys (header_set h n v))"
  by (simp add: header_set_def)

lemma sint_time_sub: "sint (time_sub t u) = max (- (2 ^ 63)) (min (2 ^ 63 - 1) (t - u))"
  unfolding time_sub_def by (rule sint_word_of_int64) auto

lemma read_all_within:
  assumes "int (length (s_data s)) < sint n"
  shows "read_all_limited n s =
    \<lparr>lr_data = s_data s, lr_N = n - word_of_nat (length (s_data s)), lr_err = s_fails s,
     lr_rest = s\<lparr>s_data := []\<rparr>\<rparr>"
  using assms by (simp add: read_all_limited_def)

lemma read_all_beyond:
  assumes "0 < sint n" and "sint n \<le> int (length (s_data s))"
  shows "read_all_limited n s =
    \<lparr>lr_data = take (nat (sint n)) (s_data s), lr_N = 0, lr_err = False,
     lr_rest = s\<lparr>s_data := drop (nat (sint n)) (s_data s)\<rparr>\<rparr>"
  using assms by (simp add: read_all_limited_def)

lemma read_all_none:
  assumes "sint n \<le> 0"
  shows "read_all_limited n s = \<lparr>lr_data = [], lr_N = n, lr_err = False, lr_rest = s\<rparr>"
  using assms by (simp add: read_all_limited_def)

text \<open>Nothing is lost: what was read followed by what is left is the stream.\<close>

lemma read_all_conserves:
  "lr_data (read_all_limited n s) @ s_data (lr_rest (read_all_limited n s)) = s_data s"
  by (simp add: read_all_limited_def)

text \<open>\<open>N\<close> comes back zero exactly when the stream holds at least \<open>N\<close> bytes.\<close>

lemma read_all_N_zero:
  assumes "0 < sint n"
  shows "lr_N (read_all_limited n s) = 0 \<longleftrightarrow> sint n \<le> int (length (s_data s))"
proof (cases "sint n \<le> int (length (s_data s))")
  case True
  with assms show ?thesis by (simp add: read_all_beyond)
next
  case False
  have "n - word_of_nat (length (s_data s)) \<noteq> 0"
  proof
    assume "n - word_of_nat (length (s_data s)) = 0"
    then have "n = word_of_nat (length (s_data s))"
      by simp
    moreover have "int (length (s_data s)) < 2 ^ 63"
      using False sint64_less [of n] by linarith
    ultimately have "sint n = int (length (s_data s))"
      using sint_word_of_nat64 by blast
    with False show False by simp
  qed
  with False show ?thesis by (simp add: read_all_within)
qed

end
