(* ===== verification/Cache_Key.thy ===== *)
theory Cache_Key
imports Go_Http Sha256
begin

text \<open>
  \<open>internal/cachekey\<close>: the key under which a response is cached (\<open>key.go\<close>). \<open>generate\<close>
  is the hexadecimal SHA-256 digest of \<open>key_preimage\<close>, the bytes that \<open>Generate\<close>
  writes to the hash. The lemmas say what the key depends on and what it tells
  apart.
\<close>

section \<open>The definitions\<close>

record key_config =
  IncludeBody :: bool
  VaryHeaders :: "string list"
  Port :: uint16

definition key_host :: "request \<Rightarrow> string" where
  "key_host req = (if r_Host req = [] then u_Host (r_URL req) else r_Host req)"

definition key_head :: "request \<Rightarrow> key_config \<Rightarrow> string" where
  "key_head req cfg =
     ''host='' @ key_host req @ [CHR 0x0A] @ ''method='' @ r_Method req @ [CHR 0x0A]
     @ ''path='' @ request_uri (r_URL req) @ [CHR 0x0A] @ ''port='' @ itoa (unat (Port cfg)) @ [CHR 0x0A]"

definition vary_pairs :: "request \<Rightarrow> string list \<Rightarrow> string list" where
  "vary_pairs req names = map (\<lambda>name. name @ ''='' @ header_get (r_Header req) name) names"

definition key_preimage :: "request \<Rightarrow> bytes option \<Rightarrow> key_config \<Rightarrow> bytes" where
  "key_preimage req body cfg =
     bytes_of (key_head req cfg)
     @ (case body of
          Some b \<Rightarrow> if IncludeBody cfg \<and> 0 < length b then b @ [0x0A] else []
        | None \<Rightarrow> [])
     @ (if 0 < length (VaryHeaders cfg) then
          bytes_of (concat (map (\<lambda>p. p @ [CHR 0x0A]) (sort (vary_pairs req (VaryHeaders cfg)))))
        else [])"

definition generate :: "request \<Rightarrow> bytes option \<Rightarrow> key_config \<Rightarrow> string" where
  "generate req body cfg = hex (sha256 (key_preimage req body cfg))"

section \<open>Lines\<close>

definition unlines :: "string list \<Rightarrow> string" where
  "unlines ls = concat (map (\<lambda>l. l @ [CHR 0x0A]) ls)"

definition one_line :: "string \<Rightarrow> bool" where
  "one_line s \<longleftrightarrow> CHR 0x0A \<notin> set s"

lemma unlines_simps [simp]:
  "unlines [] = []" "unlines (l # ls) = l @ CHR 0x0A # unlines ls"
  by (simp_all add: unlines_def)

lemma unlines_append [simp]: "unlines (as @ bs) = unlines as @ unlines bs"
  by (simp add: unlines_def)

lemma line_split:
  assumes "one_line a" and "one_line b" and "a @ CHR 0x0A # r = b @ CHR 0x0A # t"
  shows "a = b \<and> r = t"
proof -
  have "takeWhile (\<lambda>c. c \<noteq> CHR 0x0A) (a @ CHR 0x0A # r) = a"
    "takeWhile (\<lambda>c. c \<noteq> CHR 0x0A) (b @ CHR 0x0A # t) = b"
    using assms(1,2) by (auto simp: one_line_def takeWhile_append)
  with assms(3) show ?thesis by simp
qed

lemma unlines_inject:
  "list_all one_line as \<Longrightarrow> list_all one_line bs \<Longrightarrow> unlines as = unlines bs \<Longrightarrow> as = bs"
proof (induction as arbitrary: bs)
  case Nil
  then show ?case by (cases bs) auto
next
  case (Cons a as)
  then obtain b bs' where bs: "bs = b # bs'"
    by (cases bs) auto
  have "a = b \<and> unlines as = unlines bs'"
    by (rule line_split) (use Cons.prems bs in simp_all)
  with Cons bs show ?case by simp
qed

text \<open>The last lines of a text, read from the end, when their number is known.\<close>

lemma count_newlines: "list_all one_line ls \<Longrightarrow> count_list (unlines ls) (CHR 0x0A) = length ls"
  by (induction ls) (simp_all add: one_line_def)

lemma split_at_last:
  assumes "x @ c # u = y @ c # v" and "count_list u c = count_list v c"
  shows "x = y \<and> u = v"
proof -
  from assms(1) obtain us where "x = y @ us \<and> us @ c # u = c # v \<or> x @ us = y \<and> c # u = us @ c # v"
    by (auto simp: append_eq_append_conv2)
  with assms(2) show ?thesis
    by (cases us) auto
qed

lemma unlines_suffix_inject:
  assumes "list_all one_line as" and "list_all one_line bs" and "length as = length bs"
    and "x @ CHR 0x0A # unlines as = y @ CHR 0x0A # unlines bs"
  shows "x = y \<and> as = bs"
  using split_at_last [OF assms(4)] unlines_inject [OF assms(1,2)] assms(1-3)
  by (simp add: count_newlines)

lemma unlines_end: "ls \<noteq> [] \<Longrightarrow> \<exists>t. unlines ls = t @ [CHR 0x0A]"
  by (cases ls rule: rev_cases) simp_all

section \<open>Bytes and strings\<close>

lemma bytes_of_append [simp]: "bytes_of (s @ t) = bytes_of s @ bytes_of t"
  by (simp add: bytes_of_def)

lemma string_of_append [simp]: "string_of (s @ t) = string_of s @ string_of t"
  by (simp add: string_of_def)

lemma string_of_bytes_of [simp]: "string_of (bytes_of s) = s"
proof -
  have "unat (word_of_nat (of_char c) :: byte) = of_char c" for c
    using of_char_less_256 [of c] by (simp add: unat_of_nat)
  then show ?thesis
    by (simp add: string_of_def bytes_of_def comp_def)
qed

lemma bytes_of_inject [simp]: "bytes_of s = bytes_of t \<longleftrightarrow> s = t"
  by (metis string_of_bytes_of)

lemma bytes_of_string_of [simp]: "bytes_of (string_of bs) = bs"
proof -
  have "word_of_nat (of_char (char_of (unat b) :: char)) = b" for b :: byte
    using unsigned_less [of b, where 'a = nat] by (simp add: of_char_of)
  then show ?thesis
    by (simp add: string_of_def bytes_of_def comp_def)
qed

section \<open>What the key depends on\<close>

text \<open>
  The key is determined by the host, the method, the request URI, the port, the body
  when it counts, and the multiset of \<open>name=value\<close> pairs.
\<close>

lemma key_preimage_cong:
  assumes "key_host r = key_host r'" and "r_Method r = r_Method r'"
    and "request_uri (r_URL r) = request_uri (r_URL r')"
    and "IncludeBody cfg \<Longrightarrow> body = body'"
    and "IncludeBody cfg = IncludeBody cfg'" and "Port cfg = Port cfg'"
    and "mset (vary_pairs r (VaryHeaders cfg)) = mset (vary_pairs r' (VaryHeaders cfg'))"
  shows "key_preimage r body cfg = key_preimage r' body' cfg'"
proof -
  have len: "length (VaryHeaders cfg) = length (VaryHeaders cfg')"
    using mset_eq_length [OF assms(7)] by (simp add: vary_pairs_def)
  have "sort (vary_pairs r (VaryHeaders cfg)) = sort (vary_pairs r' (VaryHeaders cfg'))"
    using assms(7) by (rule sort_mset_cong)
  with len assms(1-6) show ?thesis
    by (cases "IncludeBody cfg") (auto simp: key_preimage_def key_head_def split: option.splits)
qed

lemma generate_cong:
  "key_preimage r body cfg = key_preimage r' body' cfg' \<Longrightarrow> generate r body cfg = generate r' body' cfg'"
  by (simp add: generate_def)

lemma mset_vary_pairs: "mset ns = mset ns' \<Longrightarrow> mset (vary_pairs r ns) = mset (vary_pairs r ns')"
  by (simp add: vary_pairs_def)

section \<open>What the key tells apart\<close>

text \<open>
  A request as \<open>http.ReadRequest\<close> delivers it has no line break in its host, its
  method, its URI and its header values.
\<close>

definition request_lines :: "request \<Rightarrow> bool" where
  "request_lines r \<longleftrightarrow> one_line (key_host r) \<and> one_line (r_Method r) \<and> one_line (request_uri (r_URL r))
     \<and> (\<forall>name. one_line (header_get (r_Header r) name))"

definition same_target :: "request \<Rightarrow> uint16 \<Rightarrow> request \<Rightarrow> uint16 \<Rightarrow> bool" where
  "same_target r p r' p' \<longleftrightarrow> key_host r = key_host r' \<and> r_Method r = r_Method r'
     \<and> request_uri (r_URL r) = request_uri (r_URL r') \<and> p = p'"

lemma one_line_append [simp]: "one_line (a @ b) \<longleftrightarrow> one_line a \<and> one_line b"
  by (auto simp: one_line_def)

lemma one_line_Cons [simp]: "one_line (c # b) \<longleftrightarrow> c \<noteq> CHR 0x0A \<and> one_line b"
  by (auto simp: one_line_def)

lemma one_line_Nil [simp]: "one_line []"
  by (simp add: one_line_def)

lemma one_line_itoa [simp]: "one_line (itoa n)"
  by (simp add: one_line_def)

definition head_lines :: "request \<Rightarrow> uint16 \<Rightarrow> string list" where
  "head_lines r p =
     [''host='' @ key_host r, ''method='' @ r_Method r, ''path='' @ request_uri (r_URL r), ''port='' @ itoa (unat p)]"

lemma key_head_lines: "key_head r cfg = unlines (head_lines r (Port cfg))"
  by (simp add: key_head_def head_lines_def)

lemma head_lines_one_line: "request_lines r \<Longrightarrow> list_all one_line (head_lines r p)"
  by (simp add: request_lines_def head_lines_def)

lemma length_head_lines [simp]: "length (head_lines r p) = 4"
  by (simp add: head_lines_def)

lemma head_lines_inject: "head_lines r p = head_lines r' p' \<longleftrightarrow> same_target r p r' p'"
  by (auto simp: head_lines_def same_target_def word_unat_eq_iff)

lemma unlines_prefix_inject:
  "list_all one_line as \<Longrightarrow> list_all one_line bs \<Longrightarrow> length as = length bs \<Longrightarrow>
   unlines as @ x = unlines bs @ y \<Longrightarrow> as = bs \<and> x = y"
proof (induction as arbitrary: bs)
  case Nil
  then show ?case by simp
next
  case (Cons a as)
  then obtain b bs' where bs: "bs = b # bs'"
    by (cases bs) auto
  have "a = b \<and> unlines as @ x = unlines bs' @ y"
    by (rule line_split) (use Cons.prems bs in simp_all)
  with Cons bs show ?case by simp
qed

definition names_ok :: "string list \<Rightarrow> bool" where
  "names_ok ns \<longleftrightarrow> (\<forall>n \<in> set ns. CHR ''='' \<notin> set n \<and> one_line n)"

text \<open>The body as far as the key knows it: no body and an empty body are the same.\<close>

definition body_text :: "bytes option \<Rightarrow> string" where
  "body_text b = (case b of None \<Rightarrow> [] | Some bs \<Rightarrow> string_of bs)"

definition body_part :: "bytes option \<Rightarrow> key_config \<Rightarrow> string" where
  "body_part b cfg = (if IncludeBody cfg \<and> body_text b \<noteq> [] then body_text b @ [CHR 0x0A] else [])"

definition pair_lines :: "request \<Rightarrow> key_config \<Rightarrow> string list" where
  "pair_lines r cfg = sort (vary_pairs r (VaryHeaders cfg))"

lemma newline_char [simp]: "char_of (10 :: nat) = CHR 0x0A"
  by code_simp

lemma key_preimage_text:
  "string_of (key_preimage r b cfg) =
     unlines (head_lines r (Port cfg)) @ body_part b cfg @ unlines (pair_lines r cfg)"
  by (auto simp: key_preimage_def key_head_lines body_part_def body_text_def pair_lines_def vary_pairs_def
      unlines_def [of "sort _"] string_of_def [of "[10]"] split: option.splits)
    (simp_all add: string_of_def)

lemma pair_lines_one_line:
  "request_lines r \<Longrightarrow> names_ok (VaryHeaders cfg) \<Longrightarrow> list_all one_line (pair_lines r cfg)"
  by (auto simp: pair_lines_def vary_pairs_def list_all_iff request_lines_def names_ok_def)

lemma length_pair_lines [simp]: "length (pair_lines r cfg) = length (VaryHeaders cfg)"
  by (simp add: pair_lines_def vary_pairs_def)

text \<open>Equal preimages, whatever the configurations: the same target.\<close>

lemma preimage_target:
  assumes "request_lines r" and "request_lines r'" and "key_preimage r b cfg = key_preimage r' b' cfg'"
  shows "same_target r (Port cfg) r' (Port cfg')"
    and "body_part b cfg @ unlines (pair_lines r cfg) = body_part b' cfg' @ unlines (pair_lines r' cfg')"
proof -
  have "unlines (head_lines r (Port cfg)) @ body_part b cfg @ unlines (pair_lines r cfg)
      = unlines (head_lines r' (Port cfg')) @ body_part b' cfg' @ unlines (pair_lines r' cfg')"
    using assms(3) key_preimage_text by metis
  from unlines_prefix_inject [OF head_lines_one_line [OF assms(1)] head_lines_one_line [OF assms(2)] _ this]
  show "same_target r (Port cfg) r' (Port cfg')"
    and "body_part b cfg @ unlines (pair_lines r cfg) = body_part b' cfg' @ unlines (pair_lines r' cfg')"
    by (simp_all add: head_lines_inject)
qed

lemma tail_inject:
  assumes "list_all one_line as" and "list_all one_line bs" and "length as = length bs"
    and "(if s = [] then [] else s @ [CHR 0x0A]) @ unlines as = (if t = [] then [] else t @ [CHR 0x0A]) @ unlines bs"
  shows "s = t \<and> as = bs"
proof -
  have counts: "count_list (unlines as) (CHR 0x0A) = count_list (unlines bs) (CHR 0x0A)"
    using assms(1-3) by (simp add: count_newlines)
  have both: "count_list ((if s = [] then [] else s @ [CHR 0x0A]) @ unlines as) (CHR 0x0A) =
      count_list ((if t = [] then [] else t @ [CHR 0x0A]) @ unlines bs) (CHR 0x0A)"
    using assms(4) by simp
  show ?thesis
  proof (cases "s = []"; cases "t = []")
    assume "s \<noteq> []" and "t \<noteq> []"
    then show ?thesis using unlines_suffix_inject [OF assms(1-3), of s t] assms(4) by simp
  qed (use both counts assms unlines_inject [OF assms(1,2)] in simp_all)
qed

lemma vary_pairs_values:
  assumes "names_ok ns" and "mset (vary_pairs r ns) = mset (vary_pairs r' ns)" and "n \<in> set ns"
  shows "header_get (r_Header r) n = header_get (r_Header r') n"
proof -
  have "n @ ''='' @ header_get (r_Header r) n \<in> set (vary_pairs r' ns)"
    using assms(2,3) mset_eq_setD [OF assms(2)] by (auto simp: vary_pairs_def)
  then obtain m where m: "m \<in> set ns" "n @ ''='' @ header_get (r_Header r) n = m @ ''='' @ header_get (r_Header r') m"
    by (auto simp: vary_pairs_def)
  have tw: "takeWhile (\<lambda>c. c \<noteq> CHR ''='') (k @ ''='' @ v) = k" if "k \<in> set ns" for k v
    using assms(1) that by (auto simp: names_ok_def takeWhile_append)
  from tw [OF assms(3)] tw [OF m(1)] m(2) have "n = m" by metis
  with m(2) show ?thesis by simp
qed

lemma preimage_inject:
  assumes "request_lines r" and "request_lines r'" and "names_ok (VaryHeaders cfg)"
    and "key_preimage r b cfg = key_preimage r' b' cfg"
  shows "same_target r (Port cfg) r' (Port cfg) \<and> (IncludeBody cfg \<longrightarrow> body_text b = body_text b')
    \<and> (\<forall>n \<in> set (VaryHeaders cfg). header_get (r_Header r) n = header_get (r_Header r') n)"
proof -
  let ?f = "\<lambda>b. if IncludeBody cfg then body_text b else []"
  have part: "body_part b cfg = (if ?f b = [] then [] else ?f b @ [CHR 0x0A])" for b
    by (simp add: body_part_def)
  have "?f b = ?f b' \<and> pair_lines r cfg = pair_lines r' cfg"
    using preimage_target(2) [OF assms(1,2,4)] assms(1-3)
    by (intro tail_inject pair_lines_one_line) (simp_all add: part)
  then have "IncludeBody cfg \<longrightarrow> body_text b = body_text b'"
    and "mset (vary_pairs r (VaryHeaders cfg)) = mset (vary_pairs r' (VaryHeaders cfg))"
    by (auto simp: pair_lines_def sort_eq_iff_mset)
  with preimage_target(1) [OF assms(1,2,4)] vary_pairs_values [OF assms(3)] show ?thesis
    by blast
qed

section \<open>Properties\<close>

text \<open>No SHA-256 collision between these two messages.\<close>

definition no_collision :: "bytes \<Rightarrow> bytes \<Rightarrow> bool" where
  "no_collision m m' \<longleftrightarrow> (sha256 m = sha256 m' \<longrightarrow> m = m')"

lemma generate_inject:
  "generate r b cfg = generate r' b' cfg' \<Longrightarrow> no_collision (key_preimage r b cfg) (key_preimage r' b' cfg') \<Longrightarrow>
   key_preimage r b cfg = key_preimage r' b' cfg'"
  by (auto simp: generate_def no_collision_def dest: hex_inject)

definition sample_url :: "string \<Rightarrow> url" where
  "sample_url path =
     \<lparr>u_Scheme = [], u_Opaque = [], u_Host = [], u_Path = path, u_EscapedPath = path, u_ForceQuery = False,
      u_RawQuery = []\<rparr>"

definition sample_request :: "string \<Rightarrow> header \<Rightarrow> request" where
  "sample_request path h =
     \<lparr>r_Method = ''GET'', r_Host = ''svc'', r_URL = sample_url path, r_Header = h, r_ProtoMajor = 1,
      r_ProtoMinor = 1, r_Body = None\<rparr>"

lemma request_lines_sample: "one_line path \<Longrightarrow> request_lines (sample_request path [])"
  by (simp add: request_lines_def sample_request_def sample_url_def key_host_def request_uri_def header_get_def one_line_def)

text \<open>A cache key is 64 lower-case hexadecimal digits.\<close>

theorem generate_hex64:
  "length (generate r b cfg) = 64
    \<and> list_all (\<lambda>c. digit_char c \<or> CHR ''a'' \<le> c \<and> c \<le> CHR ''f'') (generate r b cfg)"
  by (auto simp: generate_def list_all_iff dest: hex_digits)

text \<open>The key does not depend on the order of the vary headers, on headers that are not among them,
  on a body that the configuration leaves out, or on the difference between no body
  and an empty one.\<close>

theorem generate_invariance:
  assumes "mset (VaryHeaders cfg) = mset ns"
    and "\<forall>n \<in> set ns. header_get (r_Header r) n = header_get h n"
    and "IncludeBody cfg \<longrightarrow> body_text b = body_text b'"
  shows "generate r b cfg = generate (r\<lparr>r_Header := h\<rparr>) b' (cfg\<lparr>VaryHeaders := ns\<rparr>)"
proof (rule generate_cong)
  have "vary_pairs (r\<lparr>r_Header := h\<rparr>) ns = vary_pairs r ns"
    using assms(2) by (simp add: vary_pairs_def)
  then have "pair_lines r cfg = pair_lines (r\<lparr>r_Header := h\<rparr>) (cfg\<lparr>VaryHeaders := ns\<rparr>)"
    using mset_vary_pairs [OF assms(1), of r] by (simp add: pair_lines_def sort_eq_iff_mset)
  moreover have "body_part b cfg = body_part b' (cfg\<lparr>VaryHeaders := ns\<rparr>)"
    using assms(3) by (auto simp: body_part_def)
  moreover have "head_lines (r\<lparr>r_Header := h\<rparr>) p = head_lines r p" for p
    by (simp add: head_lines_def key_host_def)
  ultimately have "string_of (key_preimage r b cfg) =
      string_of (key_preimage (r\<lparr>r_Header := h\<rparr>) b' (cfg\<lparr>VaryHeaders := ns\<rparr>))"
    by (simp add: key_preimage_text)
  then show "key_preimage r b cfg = key_preimage (r\<lparr>r_Header := h\<rparr>) b' (cfg\<lparr>VaryHeaders := ns\<rparr>)"
    by (metis bytes_of_string_of)
qed

theorem generate_invariance_witness:
  "generate (sample_request ''/'' []) None \<lparr>IncludeBody = True, VaryHeaders = [''A'', ''B''], Port = 80\<rparr>
   = generate (sample_request ''/'' [(''C'', [''x''])]) (Some []) \<lparr>IncludeBody = True, VaryHeaders = [''B'', ''A''], Port = 80\<rparr>"
proof -
  let ?cfg = "\<lparr>IncludeBody = True, VaryHeaders = [''A'', ''B''], Port = 80\<rparr>"
  have canon: "canonical_header_key ''A'' = ''A''" "canonical_header_key ''B'' = ''B''"
    by code_simp+
  have "generate (sample_request ''/'' []) None ?cfg
      = generate (sample_request ''/'' []\<lparr>r_Header := [(''C'', [''x''])]\<rparr>) (Some []) (?cfg\<lparr>VaryHeaders := [''B'', ''A'']\<rparr>)"
    by (rule generate_invariance)
      (simp_all add: sample_request_def header_get_def canon body_text_def string_of_def)
  then show ?thesis by (simp add: sample_request_def)
qed

text \<open>Two requests that get the same key under one configuration agree on host, method, URI and port,
  on the body when it counts, and on the value of every vary header, unless SHA-256
  collides on them.\<close>

theorem generate_separates:
  assumes "generate r b cfg = generate r' b' cfg"
    and "no_collision (key_preimage r b cfg) (key_preimage r' b' cfg)"
    and "request_lines r" and "request_lines r'" and "names_ok (VaryHeaders cfg)"
  shows "same_target r (Port cfg) r' (Port cfg) \<and> (IncludeBody cfg \<longrightarrow> body_text b = body_text b')
    \<and> (\<forall>n \<in> set (VaryHeaders cfg). header_get (r_Header r) n = header_get (r_Header r') n)"
  using preimage_inject [OF assms(3-5)] generate_inject [OF assms(1,2)] by blast

theorem generate_separates_witness:
  "same_target (sample_request ''/a'' []) 80 (sample_request ''/a'' []) 80"
  using generate_separates [of "sample_request ''/a'' []" None "\<lparr>IncludeBody = False, VaryHeaders = [''A''], Port = 80\<rparr>"
      "sample_request ''/a'' []" "Some [1]"]
  by (simp add: request_lines_sample names_ok_def no_collision_def generate_def key_preimage_def key_head_def one_line_def)

text \<open>Whatever the two configurations are, equal keys mean the same host, method, URI and port, unless
  SHA-256 collides: an answer never crosses from one resource to another.\<close>

theorem generate_separates_targets:
  assumes "generate r b cfg = generate r' b' cfg'"
    and "no_collision (key_preimage r b cfg) (key_preimage r' b' cfg')"
    and "request_lines r" and "request_lines r'"
  shows "same_target r (Port cfg) r' (Port cfg')"
  using preimage_target(1) [OF assms(3,4)] generate_inject [OF assms(1,2)] by blast

theorem generate_separates_targets_witness:
  "same_target (sample_request ''/a'' []) 80 (sample_request ''/a'' []) 80"
  using generate_separates_targets [of "sample_request ''/a'' []" None "\<lparr>IncludeBody = False, VaryHeaders = [], Port = 80\<rparr>"
      "sample_request ''/a'' []" "Some []" "\<lparr>IncludeBody = True, VaryHeaders = [], Port = 80\<rparr>"]
  by (simp add: request_lines_sample no_collision_def generate_def key_preimage_def key_head_def one_line_def)

text \<open>Between two configurations the body and the vary headers are not told apart: under a rule that
  hashes the body, a request whose body spells the \<open>name=value\<close> pair of a header gets the
  key that a request without a body, but with that header, gets under a rule that
  varies on the header.\<close>

theorem generate_body_header_clash:
  assumes "r_Host r = r_Host r'" and "r_Method r = r_Method r'" and "r_URL r = r_URL r'"
  shows "generate r (Some (bytes_of (n @ ''='' @ header_get (r_Header r') n)))
      \<lparr>IncludeBody = True, VaryHeaders = [], Port = p\<rparr>
    = generate r' None \<lparr>IncludeBody = False, VaryHeaders = [n], Port = p\<rparr>"
proof (rule generate_cong)
  have "string_of (key_preimage r (Some (bytes_of (n @ ''='' @ header_get (r_Header r') n)))
      \<lparr>IncludeBody = True, VaryHeaders = [], Port = p\<rparr>)
    = string_of (key_preimage r' None \<lparr>IncludeBody = False, VaryHeaders = [n], Port = p\<rparr>)"
    unfolding key_preimage_text
    using assms by (simp add: head_lines_def key_host_def body_part_def body_text_def pair_lines_def vary_pairs_def
        del: bytes_of_append)
  then show "key_preimage r (Some (bytes_of (n @ ''='' @ header_get (r_Header r') n)))
      \<lparr>IncludeBody = True, VaryHeaders = [], Port = p\<rparr>
    = key_preimage r' None \<lparr>IncludeBody = False, VaryHeaders = [n], Port = p\<rparr>"
    by (metis bytes_of_string_of)
qed

theorem generate_body_header_clash_witness:
  "generate (sample_request ''/'' []) (Some (bytes_of ''A=''))
      \<lparr>IncludeBody = True, VaryHeaders = [], Port = 80\<rparr>
    = generate (sample_request ''/'' []) None \<lparr>IncludeBody = False, VaryHeaders = [''A''], Port = 80\<rparr>"
  using generate_body_header_clash [of "sample_request ''/'' []" "sample_request ''/'' []" "''A''" 80]
  by (simp add: sample_request_def header_get_def)

end
