(* ===== verification/Cache_Contract.thy ===== *)
theory Cache_Contract
imports Latch_Prelude
begin

text \<open>
  The contract of the interface \<open>Cache\<close> of \<open>internal/cache/cache.go\<close>: what a client
  may rely on, whatever is behind the interface. A cache may forget, it never makes
  an answer up: it is a map that loses entries. The locale \<open>lossy_map\<close> states the
  laws of one operation each and derives what they give for whole histories;
  \<open>budget_map\<close> adds that a value which fits the budget is there right after \<open>Set\<close>.
\<close>

section \<open>Histories\<close>

text \<open>
  The operations that change a cache: \<open>Put\<close> for \<open>Set\<close>, \<open>Del\<close> for \<open>Delete\<close>, \<open>Tick\<close> for
  the sweep. The environment of an operation (its clock and its walk order) is a
  parameter.
\<close>

datatype ('x, 'k, 'v) map_op = Put 'x 'k 'v | Del 'k | Tick 'x

fun run_op ::
  "('x \<Rightarrow> 'k \<Rightarrow> 'v \<Rightarrow> 's \<Rightarrow> 's) \<Rightarrow> ('k \<Rightarrow> 's \<Rightarrow> 's) \<Rightarrow> ('x \<Rightarrow> 's \<Rightarrow> 's) \<Rightarrow> 's \<Rightarrow> ('x, 'k, 'v) map_op \<Rightarrow> 's" where
  "run_op put del tick s (Put x k v) = put x k v s"
| "run_op put del tick s (Del k) = del k s"
| "run_op put del tick s (Tick x) = tick x s"

text \<open>The ideal map, which forgets nothing it is not told to forget.\<close>

fun ideal_op :: "('k \<rightharpoonup> 'v) \<Rightarrow> ('x, 'k, 'v) map_op \<Rightarrow> ('k \<rightharpoonup> 'v)" where
  "ideal_op m (Put x k v) = m(k \<mapsto> v)"
| "ideal_op m (Del k) = m(k := None)"
| "ideal_op m (Tick x) = m"

section \<open>The laws\<close>

locale lossy_map =
  fixes view :: "'s \<Rightarrow> 'k \<rightharpoonup> 'v"
    and ok :: "'s \<Rightarrow> bool"
    and put :: "'x \<Rightarrow> 'k \<Rightarrow> 'v \<Rightarrow> 's \<Rightarrow> 's"
    and del :: "'k \<Rightarrow> 's \<Rightarrow> 's"
    and tick :: "'x \<Rightarrow> 's \<Rightarrow> 's"
  assumes put_le: "ok s \<Longrightarrow> view (put x k v s) \<subseteq>\<^sub>m (view s)(k \<mapsto> v)"
    and del_eq: "ok s \<Longrightarrow> view (del k s) = (view s)(k := None)"
    and tick_le: "ok s \<Longrightarrow> view (tick x s) \<subseteq>\<^sub>m view s"
    and ok_put: "ok s \<Longrightarrow> ok (put x k v s)"
    and ok_del: "ok s \<Longrightarrow> ok (del k s)"
    and ok_tick: "ok s \<Longrightarrow> ok (tick x s)"
begin

abbreviation exec :: "'s \<Rightarrow> ('x, 'k, 'v) map_op list \<Rightarrow> 's" where
  "exec \<equiv> foldl (run_op put del tick)"

lemma put_other: "ok s \<Longrightarrow> k' \<noteq> k \<Longrightarrow> view (put x k v s) k' = Some w \<Longrightarrow> view s k' = Some w"
  using map_le_SomeD [OF put_le] by fastforce

lemma put_same: "ok s \<Longrightarrow> view (put x k v s) k = Some w \<Longrightarrow> w = v"
  using map_le_SomeD [OF put_le] by fastforce

lemma del_same: "ok s \<Longrightarrow> view (del k s) k = None"
  by (simp add: del_eq)

lemma step_ok: "ok s \<Longrightarrow> ok (run_op put del tick s a)"
  by (cases a) (simp_all add: ok_put ok_del ok_tick)

lemma step_le:
  assumes "ok s" and "view s \<subseteq>\<^sub>m m"
  shows "view (run_op put del tick s a) \<subseteq>\<^sub>m ideal_op m a"
proof (cases a)
  case (Put x k v)
  with assms show ?thesis
    using map_le_trans [OF put_le map_le_upd_mono] by fastforce
next
  case (Del k)
  with assms show ?thesis by (simp add: del_eq map_le_drop_mono)
next
  case (Tick x)
  with assms show ?thesis using map_le_trans [OF tick_le] by fastforce
qed

lemma exec_ok: "ok s \<Longrightarrow> ok (exec s as)"
  by (induction as arbitrary: s) (simp_all add: step_ok)

text \<open>A simulation: the cache stays below the ideal map along every history.\<close>

lemma exec_le: "ok s \<Longrightarrow> view s \<subseteq>\<^sub>m m \<Longrightarrow> view (exec s as) \<subseteq>\<^sub>m foldl ideal_op m as"
  by (induction as arbitrary: s m) (simp_all add: step_ok step_le)

lemma exec_answer:
  "ok s \<Longrightarrow> view s \<subseteq>\<^sub>m m \<Longrightarrow> view (exec s as) k = Some v \<Longrightarrow> foldl ideal_op m as k = Some v"
  using exec_le map_le_SomeD by metis

end

locale budget_map = lossy_map view ok put del tick
  for view :: "'s \<Rightarrow> 'k \<rightharpoonup> 'v"
    and ok :: "'s \<Rightarrow> bool"
    and put :: "'x \<Rightarrow> 'k \<Rightarrow> 'v \<Rightarrow> 's \<Rightarrow> 's"
    and del :: "'k \<Rightarrow> 's \<Rightarrow> 's"
    and tick :: "'x \<Rightarrow> 's \<Rightarrow> 's" +
  fixes fits :: "'v \<Rightarrow> 's \<Rightarrow> bool"
  assumes put_fits: "ok s \<Longrightarrow> fits v s \<Longrightarrow> view (put x k v s) k = Some v"
    and fits_del: "fits v (del k s) = fits v s"
begin

lemma del_put_fits: "ok s \<Longrightarrow> fits v s \<Longrightarrow> view (put x k v (del k' s)) k = Some v"
  by (simp add: put_fits ok_del fits_del)

end

text \<open>A map that forgets nothing: the laws of a lossy map as equations.\<close>

locale exact_map = lossy_map view ok put del tick
  for view :: "'s \<Rightarrow> 'k \<rightharpoonup> 'v"
    and ok :: "'s \<Rightarrow> bool"
    and put :: "'x \<Rightarrow> 'k \<Rightarrow> 'v \<Rightarrow> 's \<Rightarrow> 's"
    and del :: "'k \<Rightarrow> 's \<Rightarrow> 's"
    and tick :: "'x \<Rightarrow> 's \<Rightarrow> 's" +
  assumes put_eq: "ok s \<Longrightarrow> view (put x k v s) = (view s)(k \<mapsto> v)"
    and tick_eq: "ok s \<Longrightarrow> view (tick x s) = view s"
begin

lemma step_eq: "ok s \<Longrightarrow> view (run_op put del tick s a) = ideal_op (view s) a"
  by (cases a) (simp_all add: put_eq del_eq tick_eq)

lemma exec_eq: "ok s \<Longrightarrow> view (exec s as) = foldl ideal_op (view s) as"
  by (induction as arbitrary: s) (simp_all add: step_ok step_eq)

end

section \<open>What a history says about an answer\<close>

text \<open>
  The ideal map answers \<open>v\<close> for \<open>k\<close> only if \<open>v\<close> was there at the start or the history
  puts \<open>v\<close> under \<open>k\<close>.
\<close>

lemma ideal_origin:
  "foldl ideal_op m as k = Some v \<Longrightarrow> m k = Some v \<or> (\<exists>x. Put x k v \<in> set as)"
proof (induction as arbitrary: m)
  case Nil
  then show ?case by simp
next
  case (Cons a as)
  then have "ideal_op m a k = Some v \<or> (\<exists>x. Put x k v \<in> set as)"
    by simp
  then show ?case by (cases a) (auto split: if_splits)
qed

end
