(* ===== verification/Cache_Store.thy ===== *)
theory Cache_Store
imports Go_Http Cache_Contract
begin

text \<open>
  \<open>internal/cache\<close>: the in-memory store of responses (\<open>cache.go\<close>, \<open>memory.go\<close>).
  The state is the record \<open>store\<close>; every exported method is one operation, and the
  helpers that run under the mutex are separate definitions, as in the code. The
  loops that range over the map take an order (see \<open>go_range\<close>). Each operation
  reads the clock at one instant, its \<open>now\<close>: the code asks \<open>time.Now()\<close> again for every
  entry that \<open>Expired\<close> looks at, so that an entry whose lifetime ends while \<open>Set\<close> or a sweep
  holds the lock may be seen live first and expired later in the same operation. The model takes
  all these readings to be equal.
\<close>

section \<open>Entries\<close>

record entry =
  e_StatusCode :: int
  e_Header :: header
  e_Proto :: string
  e_ProtoMajor :: int
  e_ProtoMinor :: int
  e_Body :: bytes
  e_CachedAt :: instant
  e_TTL :: int64

definition expired :: "instant \<Rightarrow> entry \<Rightarrow> bool" where
  "expired now e \<longleftrightarrow> sint (e_TTL e) < sint (time_sub now (e_CachedAt e))"

definition entry_size :: "entry \<Rightarrow> int64" where
  "entry_size e =
     foldl (\<lambda>n (k, vs). foldl (\<lambda>n v. n + word_of_nat (length v)) (n + word_of_nat (length k)) vs)
       (word_of_nat (length (e_Body e))) (e_Header e)"

section \<open>The store\<close>

text \<open>
  \<open>has_onEvicted\<close> says whether a callback was given; \<open>evictions\<close> lists the arguments it
  was called with, oldest first.
\<close>

record store =
  entries :: "(string \<times> entry) list"
  maxBytes :: int64
  count :: int64
  totalBytes :: int64
  has_onEvicted :: bool
  evictions :: "nat list"

definition new_store :: "int64 \<Rightarrow> bool \<Rightarrow> store" where
  "new_store maxb cb =
     \<lparr>entries = [], maxBytes = maxb, count = 0, totalBytes = 0, has_onEvicted = cb, evictions = []\<rparr>"

definition on_evicted :: "nat \<Rightarrow> store \<Rightarrow> store" where
  "on_evicted n s = (if has_onEvicted s then s\<lparr>evictions := evictions s @ [n]\<rparr> else s)"

definition removeLocked :: "string \<Rightarrow> store \<Rightarrow> store \<times> int64" where
  "removeLocked key s =
     (case map_of (entries s) key of
        Some e \<Rightarrow>
          (s\<lparr>totalBytes := totalBytes s - entry_size e, count := count s - 1,
             entries := AList.delete key (entries s)\<rparr>, entry_size e)
      | None \<Rightarrow> (s, 0))"

definition addLocked :: "string \<Rightarrow> entry \<Rightarrow> store \<Rightarrow> store" where
  "addLocked key e s =
     s\<lparr>entries := AList.update key e (entries s), totalBytes := totalBytes s + entry_size e,
       count := count s + 1\<rparr>"

text \<open>The first entry of the walk that may be evicted.\<close>

fun evict_candidate :: "bool \<Rightarrow> instant \<Rightarrow> (string \<times> entry) list \<Rightarrow> string option" where
  "evict_candidate expiredOnly now [] = None"
| "evict_candidate expiredOnly now ((k, v) # r) =
     (if expiredOnly \<and> \<not> expired now v then evict_candidate expiredOnly now r else Some k)"

definition evictOneLocked :: "(string \<times> entry) order \<Rightarrow> instant \<Rightarrow> bool \<Rightarrow> store \<Rightarrow> bool \<times> store" where
  "evictOneLocked ord now expiredOnly s =
     (case evict_candidate expiredOnly now (go_range ord (entries s)) of
        None \<Rightarrow> (False, s)
      | Some k \<Rightarrow> (True, on_evicted 1 (fst (removeLocked k s))))"

section \<open>The exported operations\<close>

definition cache_delete :: "string \<Rightarrow> store \<Rightarrow> store" where
  "cache_delete key s = fst (removeLocked key s)"

definition cache_get :: "instant \<Rightarrow> string \<Rightarrow> store \<Rightarrow> entry option \<times> store" where
  "cache_get now key s =
     (case map_of (entries s) key of
        None \<Rightarrow> (None, s)
      | Some e \<Rightarrow> if expired now e then (None, cache_delete key s) else (Some e, s))"

lemma evict_candidate_mem: "evict_candidate x now m = Some k \<Longrightarrow> k \<in> set (keys m)"
  by (induction x now m rule: evict_candidate.induct) (auto split: if_splits)

lemma removeLocked_shrinks:
  "k \<in> set (keys (entries s)) \<Longrightarrow> length (entries (fst (removeLocked k s))) < length (entries s)"
proof -
  assume k: "k \<in> set (keys (entries s))"
  then obtain e where "map_of (entries s) k = Some e"
    by (metis map_of_eq_None_iff image_set not_None_eq)
  with length_delete_less [OF k] show ?thesis
    by (simp add: removeLocked_def)
qed

lemma entries_on_evicted [simp]: "entries (on_evicted n s) = entries s"
  by (simp add: on_evicted_def)

lemma evictOneLocked_shrinks:
  assumes "evictOneLocked ord now x s = (True, s')"
  shows "length (entries s') < length (entries s)"
proof -
  from assms obtain k where k: "evict_candidate x now (go_range ord (entries s)) = Some k"
    and s': "s' = on_evicted 1 (fst (removeLocked k s))"
    by (auto simp: evictOneLocked_def split: option.splits)
  from evict_candidate_mem [OF k] have "k \<in> set (keys (entries s))"
    by simp
  with s' show ?thesis by (simp add: removeLocked_shrinks)
qed

text \<open>
  The loop of \<open>Set\<close>: evict until the new entry fits, an expired entry if there is
  one, any entry otherwise; give up when nothing is left to evict. The flag says
  whether the loop ended with room for the entry.
\<close>

function make_room :: "(string \<times> entry) order \<Rightarrow> instant \<Rightarrow> int64 \<Rightarrow> store \<Rightarrow> bool \<times> store" where
  "make_room ord now newSize s =
     (if sint (maxBytes s) < sint (totalBytes s + newSize) then
        (case evictOneLocked ord now True s of
           (True, s1) \<Rightarrow> make_room ord now newSize s1
         | (False, s1) \<Rightarrow>
             (case evictOneLocked ord now False s1 of
                (True, s2) \<Rightarrow> make_room ord now newSize s2
              | (False, s2) \<Rightarrow> (False, s2)))
      else (True, s))"
  by pat_completeness auto
termination
proof (relation "measure (\<lambda>(ord, now, n, s). length (entries s))", goal_cases)
  case 1
  show ?case by simp
next
  case (2 ord now n s x s1)
  then show ?case using evictOneLocked_shrinks [of ord now True s s1] by simp
next
  case (3 ord now n s x s1 y s2)
  then have "s1 = s"
    by (auto simp: evictOneLocked_def split: option.splits)
  with 3 show ?case using evictOneLocked_shrinks [of ord now False s s2] by simp
qed

declare make_room.simps [simp del]

definition cache_set :: "(string \<times> entry) order \<Rightarrow> instant \<Rightarrow> string \<Rightarrow> entry \<Rightarrow> store \<Rightarrow> store" where
  "cache_set ord now key e s =
     (let newSize = entry_size e; s1 = fst (removeLocked key s)
      in case make_room ord now newSize s1 of
           (True, s2) \<Rightarrow> addLocked key e s2
         | (False, s2) \<Rightarrow> s2)"

definition cache_len :: "store \<Rightarrow> int64" where
  "cache_len s = count s"

definition cache_size_bytes :: "store \<Rightarrow> int64" where
  "cache_size_bytes s = totalBytes s"

text \<open>One tick of \<open>sweepLoop\<close>: drop every expired entry, then report how many.\<close>

fun sweep_entries :: "instant \<Rightarrow> (string \<times> entry) list \<Rightarrow> store \<Rightarrow> nat \<Rightarrow> store \<times> nat" where
  "sweep_entries now [] s n = (s, n)"
| "sweep_entries now ((k, v) # r) s n =
     (if expired now v then sweep_entries now r (fst (removeLocked k s)) (n + 1)
      else sweep_entries now r s n)"

definition sweep_tick :: "(string \<times> entry) order \<Rightarrow> instant \<Rightarrow> store \<Rightarrow> store" where
  "sweep_tick ord now s =
     (case sweep_entries now (go_range ord (entries s)) s 0 of
        (s', n) \<Rightarrow> if 0 < n then on_evicted n s' else s')"

section \<open>Sizes without the machine's arithmetic\<close>

definition header_bytes :: "header \<Rightarrow> nat" where
  "header_bytes h = sum_list (map (\<lambda>(k, vs). length k + sum_list (map length vs)) h)"

definition entry_bytes :: "entry \<Rightarrow> nat" where
  "entry_bytes e = length (e_Body e) + header_bytes (e_Header e)"

definition bytes_in :: "(string \<times> entry) list \<Rightarrow> nat" where
  "bytes_in m = sum_list (map (entry_bytes \<circ> snd) m)"

abbreviation stored_bytes :: "store \<Rightarrow> nat" where
  "stored_bytes s \<equiv> bytes_in (entries s)"

lemma foldl_value_sizes:
  "foldl (\<lambda>n v. n + word_of_nat (length v)) (word_of_nat a) vs
     = (word_of_nat (a + sum_list (map length vs)) :: int64)"
  by (induction vs arbitrary: a) (simp_all add: add.assoc flip: of_nat_add)

lemma foldl_header_sizes:
  "foldl (\<lambda>n (k, vs). foldl (\<lambda>n v. n + word_of_nat (length v)) (n + word_of_nat (length k)) vs)
     (word_of_nat a) h = (word_of_nat (a + header_bytes h) :: int64)"
proof (induction h arbitrary: a)
  case Nil
  then show ?case by (simp add: header_bytes_def)
next
  case (Cons p h)
  obtain k vs where p: "p = (k, vs)" by (cases p)
  have "foldl (\<lambda>n v. n + word_of_nat (length v)) (word_of_nat a + word_of_nat (length k)) vs
      = (word_of_nat (a + length k + sum_list (map length vs)) :: int64)"
    using foldl_value_sizes [of "a + length k" vs] by simp
  with p Cons.IH [of "a + length k + sum_list (map length vs)"] show ?case
    by (simp add: header_bytes_def add.assoc)
qed

lemma entry_size_eq: "entry_size e = word_of_nat (entry_bytes e)"
  by (simp add: entry_size_def foldl_header_sizes entry_bytes_def)

section \<open>The store's invariant\<close>

text \<open>
  The keys are distinct, and the two atomic counters agree, modulo \<open>2 ^ 64\<close>, with the
  number of entries and with the bytes they hold.
\<close>

definition store_ok :: "store \<Rightarrow> bool" where
  "store_ok s \<longleftrightarrow> distinct (keys (entries s)) \<and> count s = word_of_nat (length (entries s))
     \<and> totalBytes s = word_of_nat (stored_bytes s)"

definition cache_view :: "store \<Rightarrow> string \<rightharpoonup> entry" where
  "cache_view s = map_of (entries s)"

lemma store_okI:
  "distinct (keys (entries s)) \<Longrightarrow> count s = word_of_nat (length (entries s)) \<Longrightarrow>
   totalBytes s = word_of_nat (stored_bytes s) \<Longrightarrow> store_ok s"
  by (simp add: store_ok_def)

lemma store_ok_distinct [simp]: "store_ok s \<Longrightarrow> distinct (keys (entries s))"
  by (simp add: store_ok_def)

lemma in_entries_iff: "store_ok s \<Longrightarrow> (k, v) \<in> set (entries s) \<longleftrightarrow> cache_view s k = Some v"
  by (simp add: cache_view_def)

lemma new_store_ok [invar_intros]: "store_ok (new_store maxb cb)"
  by (simp add: store_ok_def new_store_def bytes_in_def)

lemma new_store_simps [simp]:
  "maxBytes (new_store maxb cb) = maxb" "entries (new_store maxb cb) = []"
  "cache_view (new_store maxb cb) = Map.empty"
  by (simp_all add: new_store_def cache_view_def)

lemma on_evicted_simps [simp]:
  "count (on_evicted n s) = count s" "totalBytes (on_evicted n s) = totalBytes s"
  "maxBytes (on_evicted n s) = maxBytes s"
  "cache_view (on_evicted n s) = cache_view s" "store_ok (on_evicted n s) = store_ok s"
  "has_onEvicted (on_evicted n s) = has_onEvicted s"
  by (simp_all add: on_evicted_def cache_view_def store_ok_def)

subsection \<open>Removing and adding one entry\<close>

lemma removeLocked_simps [simp]:
  "maxBytes (fst (removeLocked k s)) = maxBytes s"
  "has_onEvicted (fst (removeLocked k s)) = has_onEvicted s"
  "evictions (fst (removeLocked k s)) = evictions s"
  by (simp_all add: removeLocked_def split: option.splits)

lemma entries_removeLocked: "entries (fst (removeLocked k s)) = AList.delete k (entries s)"
  by (simp add: removeLocked_def map_of_eq_None_iff delete_absent split: option.splits)

lemma cache_view_removeLocked [simp]: "cache_view (fst (removeLocked k s)) = (cache_view s)(k := None)"
  by (simp add: cache_view_def entries_removeLocked map_of_delete)

lemma stored_bytes_remove:
  assumes "distinct (keys (entries s))" and "cache_view s k = Some e"
  shows "stored_bytes s = entry_bytes e + stored_bytes (fst (removeLocked k s))"
  using sum_list_delete [OF assms(1), of k e "entry_bytes \<circ> snd"] assms(2)
  by (simp add: bytes_in_def cache_view_def entries_removeLocked)

lemma removeLocked_ok [invar_intros]:
  assumes "store_ok s"
  shows "store_ok (fst (removeLocked k s))"
proof (cases "cache_view s k")
  case None
  with assms show ?thesis by (simp add: removeLocked_def cache_view_def)
next
  case (Some e)
  have d: "distinct (keys (entries s))" using assms by simp
  from Some have e: "map_of (entries s) k = Some e" by (simp add: cache_view_def)
  show ?thesis
  proof (rule store_okI)
    show "distinct (keys (entries (fst (removeLocked k s))))"
      using d by (simp add: entries_removeLocked)
    show "count (fst (removeLocked k s)) = word_of_nat (length (entries (fst (removeLocked k s))))"
      using assms length_delete_present [OF d e] e by (simp add: removeLocked_def store_ok_def)
    have "totalBytes s = word_of_nat (entry_bytes e) + word_of_nat (stored_bytes (fst (removeLocked k s)))"
      using assms stored_bytes_remove [OF d Some] by (simp add: store_ok_def)
    then show "totalBytes (fst (removeLocked k s)) = word_of_nat (stored_bytes (fst (removeLocked k s)))"
      using e by (simp add: removeLocked_def entry_size_eq)
  qed
qed

lemma stored_bytes_remove_le:
  assumes "store_ok s"
  shows "stored_bytes (fst (removeLocked k s)) \<le> stored_bytes s"
proof (cases "cache_view s k")
  case None
  then show ?thesis by (simp add: removeLocked_def cache_view_def)
next
  case (Some e)
  with assms show ?thesis using stored_bytes_remove [of s k e] by simp
qed

lemma addLocked_simps [simp]:
  "maxBytes (addLocked k e s) = maxBytes s" "has_onEvicted (addLocked k e s) = has_onEvicted s"
  "evictions (addLocked k e s) = evictions s"
  "cache_view (addLocked k e s) = (cache_view s)(k \<mapsto> e)"
  by (simp_all add: addLocked_def cache_view_def map_of_update)

lemma stored_bytes_add:
  "cache_view s k = None \<Longrightarrow> stored_bytes (addLocked k e s) = stored_bytes s + entry_bytes e"
  using sum_list_update_absent [of k "entries s" "entry_bytes \<circ> snd" e]
  by (simp add: bytes_in_def cache_view_def addLocked_def map_of_eq_None_iff)

lemma addLocked_ok [invar_intros]:
  assumes "store_ok s" and "cache_view s k = None"
  shows "store_ok (addLocked k e s)"
proof -
  have k: "k \<notin> set (keys (entries s))"
    using assms(2) by (simp add: cache_view_def map_of_eq_None_iff)
  show ?thesis
    using assms k stored_bytes_add [OF assms(2), of e]
    by (intro store_okI) (simp_all add: addLocked_def store_ok_def entry_size_eq update_absent [OF k])
qed

subsection \<open>Evicting one entry\<close>

lemma evict_candidate_None:
  "evict_candidate x now m = None \<longleftrightarrow> (\<forall>(k, v) \<in> set m. x \<and> \<not> expired now v)"
  by (induction x now m rule: evict_candidate.induct) auto

lemma evict_candidate_Some:
  "evict_candidate x now m = Some k \<Longrightarrow> \<exists>v. (k, v) \<in> set m \<and> (x \<longrightarrow> expired now v)"
  by (induction x now m rule: evict_candidate.induct) (auto split: if_splits)

lemma evictOneLocked_False:
  "evictOneLocked ord now x s = (False, s') \<Longrightarrow>
     s' = s \<and> (\<forall>(k, v) \<in> set (entries s). x \<and> \<not> expired now v)"
  by (auto simp: evictOneLocked_def evict_candidate_None split: option.splits)

lemma evictOneLocked_True:
  assumes "evictOneLocked ord now x s = (True, s')"
  obtains k v where "(k, v) \<in> set (entries s)" and "x \<longrightarrow> expired now v"
    and "s' = on_evicted 1 (fst (removeLocked k s))"
  using assms evict_candidate_Some [of x now "go_range ord (entries s)"]
  by (fastforce simp: evictOneLocked_def split: option.splits)

lemma evictOneLocked_ok [invar_intros]: "store_ok s \<Longrightarrow> store_ok (snd (evictOneLocked ord now x s))"
  by (auto simp: evictOneLocked_def removeLocked_ok split: option.splits)

subsection \<open>Making room\<close>

text \<open>
  One turn of the loop, as an option: the store after an eviction, \<open>None\<close> when nothing
  could be evicted. The entry that goes had expired, unless no entry had.
\<close>

definition evict_turn :: "(string \<times> entry) order \<Rightarrow> instant \<Rightarrow> store \<Rightarrow> store option" where
  "evict_turn ord now s =
     (case evictOneLocked ord now True s of
        (True, s1) \<Rightarrow> Some s1
      | (False, s1) \<Rightarrow>
          (case evictOneLocked ord now False s1 of (True, s2) \<Rightarrow> Some s2 | (False, s2) \<Rightarrow> None))"

lemma evict_turn_None: "evict_turn ord now s = None \<Longrightarrow> entries s = []"
  using evictOneLocked_False [of ord now True s] evictOneLocked_False [of ord now False s]
  by (cases "entries s") (auto simp: evict_turn_def split: prod.splits bool.splits)

lemma evict_turn_Some:
  assumes "evict_turn ord now s = Some s'"
  obtains k v where "(k, v) \<in> set (entries s)" and "s' = on_evicted 1 (fst (removeLocked k s))"
    and "expired now v \<or> (\<forall>(k, v) \<in> set (entries s). \<not> expired now v)"
proof (cases "evictOneLocked ord now True s")
  case (Pair b1 s1)
  show thesis
  proof (cases b1)
    case True
    with assms Pair have "evictOneLocked ord now True s = (True, s')"
      by (simp add: evict_turn_def)
    then show thesis by (rule evictOneLocked_True) (use that in blast)
  next
    case False
    with Pair evictOneLocked_False [of ord now True s s1]
    have s1: "s1 = s" and live: "\<forall>(k, v) \<in> set (entries s). \<not> expired now v"
      by auto
    with assms Pair False have "evictOneLocked ord now False s = (True, s')"
      by (auto simp: evict_turn_def split: prod.splits bool.splits)
    then show thesis by (rule evictOneLocked_True) (use that live in blast)
  qed
qed

lemma evict_turn_shrinks: "evict_turn ord now s = Some s' \<Longrightarrow> length (entries s') < length (entries s)"
  by (erule evict_turn_Some) (force intro: removeLocked_shrinks)

lemma make_room_unfold:
  "make_room ord now n s =
     (if sint (maxBytes s) < sint (totalBytes s + n) then
        (case evict_turn ord now s of None \<Rightarrow> (False, s) | Some s' \<Rightarrow> make_room ord now n s')
      else (True, s))"
proof -
  obtain b1 s1 b2 s2 where e1: "evictOneLocked ord now True s = (b1, s1)"
    and e2: "evictOneLocked ord now False s1 = (b2, s2)"
    by fastforce
  have "\<not> b1 \<Longrightarrow> s1 = s" and "\<not> b2 \<Longrightarrow> s2 = s1"
    using e1 e2 evictOneLocked_False [of ord now True s s1] evictOneLocked_False [of ord now False s1 s2]
    by (cases b1; simp)+
  with e1 e2 show ?thesis
    by (cases b1; cases b2) (simp_all add: make_room.simps [of ord now n s] evict_turn_def)
qed

text \<open>What one turn keeps, the whole loop keeps.\<close>

lemma make_room_induct [consumes 1, case_names turn]:
  assumes "P s" and "\<And>s s'. P s \<Longrightarrow> evict_turn ord now s = Some s' \<Longrightarrow> P s'"
  shows "P (snd (make_room ord now n s))"
  using assms(1)
proof (induction "length (entries s)" arbitrary: s rule: less_induct)
  case less
  then show ?case
    using assms(2) evict_turn_shrinks
    by (subst make_room_unfold) (auto split: option.splits)
qed

text \<open>How the loop ends: with room, or with an empty store.\<close>

lemma make_room_result:
  "(case make_room ord now n s of
      (True, s') \<Rightarrow> sint (totalBytes s' + n) \<le> sint (maxBytes s')
    | (False, s') \<Rightarrow> entries s' = [] \<and> sint (maxBytes s') < sint (totalBytes s' + n))"
proof (induction "length (entries s)" arbitrary: s rule: less_induct)
  case less
  show ?case
  proof (cases "evict_turn ord now s")
    case None
    then show ?thesis
      by (subst make_room_unfold) (simp add: evict_turn_None)
  next
    case (Some s')
    with less [OF evict_turn_shrinks] show ?thesis
      by (subst make_room_unfold) simp
  qed
qed

lemma make_room_True:
  "make_room ord now n s = (True, s') \<Longrightarrow> sint (totalBytes s' + n) \<le> sint (maxBytes s')"
  using make_room_result [where ord = ord and now = now and n = n and s = s] by simp

lemma make_room_False:
  assumes "make_room ord now n s = (False, s')"
  shows "entries s' = []" and "sint (maxBytes s') < sint (totalBytes s' + n)"
  using assms make_room_result [where ord = ord and now = now and n = n and s = s] by simp_all

lemma make_room_enough:
  "sint (totalBytes s + n) \<le> sint (maxBytes s) \<Longrightarrow> make_room ord now n s = (True, s)"
  by (simp add: make_room_unfold)

lemma make_room_ok [invar_intros]: "store_ok s \<Longrightarrow> store_ok (snd (make_room ord now n s))"
  by (induction rule: make_room_induct) (auto elim!: evict_turn_Some simp: removeLocked_ok)

lemma make_room_view_le: "cache_view (snd (make_room ord now n s)) \<subseteq>\<^sub>m cache_view s"
  by (rule make_room_induct [where P = "\<lambda>t. cache_view t \<subseteq>\<^sub>m cache_view s"])
    (auto elim!: evict_turn_Some intro: map_le_trans [OF map_le_drop])

lemma make_room_maxBytes [simp]: "maxBytes (snd (make_room ord now n s)) = maxBytes s"
  by (rule make_room_induct [where P = "\<lambda>t. maxBytes t = maxBytes s"]) (auto elim!: evict_turn_Some)

lemma make_room_bytes:
  assumes "store_ok s"
  shows "stored_bytes (snd (make_room ord now n s)) \<le> stored_bytes s"
proof -
  have "store_ok (snd (make_room ord now n s)) \<and> stored_bytes (snd (make_room ord now n s)) \<le> stored_bytes s"
  proof (rule make_room_induct [where P = "\<lambda>t. store_ok t \<and> stored_bytes t \<le> stored_bytes s"])
    fix u u'
    assume u: "store_ok u \<and> stored_bytes u \<le> stored_bytes s" and e: "evict_turn ord now u = Some u'"
    from e obtain k where "u' = on_evicted 1 (fst (removeLocked k u))"
      by (elim evict_turn_Some)
    then show "store_ok u' \<and> stored_bytes u' \<le> stored_bytes s"
      using u stored_bytes_remove_le [of u k] by (simp add: removeLocked_ok)
  qed (use assms in simp)
  then show ?thesis by blast
qed

text \<open>
  A live entry goes only after every expired one: if some entry that had not expired
  is gone, nothing expired is left.
\<close>

definition spares_live :: "instant \<Rightarrow> store \<Rightarrow> store \<Rightarrow> bool" where
  "spares_live now s s' \<longleftrightarrow>
     (\<forall>k v. cache_view s k = Some v \<and> \<not> expired now v \<longrightarrow> cache_view s' k = Some v)
     \<or> (\<forall>k v. cache_view s' k = Some v \<longrightarrow> \<not> expired now v)"

lemma make_room_spares_live:
  assumes "store_ok s"
  shows "spares_live now s (snd (make_room ord now n s))"
proof -
  let ?P = "\<lambda>t. store_ok t \<and> cache_view t \<subseteq>\<^sub>m cache_view s \<and> spares_live now s t"
  have "?P (snd (make_room ord now n s))"
  proof (rule make_room_induct [where P = ?P])
    show "?P s" using assms by (simp add: spares_live_def)
  next
    fix u u'
    assume u: "?P u" and e: "evict_turn ord now u = Some u'"
    from e show "?P u'"
    proof (rule evict_turn_Some)
      fix k v
      assume k: "(k, v) \<in> set (entries u)" and u': "u' = on_evicted 1 (fst (removeLocked k u))"
        and x: "expired now v \<or> (\<forall>(k, v) \<in> set (entries u). \<not> expired now v)"
      from u k have "cache_view u k = Some v"
        by (simp add: cache_view_def)
      with u have sk: "cache_view s k = Some v"
        using map_le_SomeD by metis
      from x have "spares_live now s u'"
      proof
        assume "expired now v"
        with u sk u' show ?thesis unfolding spares_live_def by (auto simp: fun_upd_def)
      next
        assume "\<forall>(k, v) \<in> set (entries u). \<not> expired now v"
        then have "\<forall>k v. cache_view u k = Some v \<longrightarrow> \<not> expired now v"
          by (auto simp: cache_view_def dest: map_of_SomeD)
        with u' show ?thesis unfolding spares_live_def by (auto simp: fun_upd_def)
      qed
      with u u' show ?thesis
        by (auto simp: removeLocked_ok intro: map_le_trans [OF map_le_drop])
    qed
  qed
  then show ?thesis by blast
qed

section \<open>The operations keep the invariant\<close>

lemma cache_delete_ok [invar_intros]: "store_ok s \<Longrightarrow> store_ok (cache_delete k s)"
  by (simp add: cache_delete_def removeLocked_ok)

lemma cache_view_delete [simp]: "cache_view (cache_delete k s) = (cache_view s)(k := None)"
  by (simp add: cache_delete_def)

lemma cache_get_ok [invar_intros]: "store_ok s \<Longrightarrow> store_ok (snd (cache_get now k s))"
  by (simp add: cache_get_def cache_delete_ok split: option.splits)

lemma cache_set_cases:
  obtains (stored) s2 where "make_room ord now (entry_size e) (fst (removeLocked k s)) = (True, s2)"
      and "cache_set ord now k e s = addLocked k e s2"
  | (dropped) s2 where "make_room ord now (entry_size e) (fst (removeLocked k s)) = (False, s2)"
      and "cache_set ord now k e s = s2"
  by (cases "make_room ord now (entry_size e) (fst (removeLocked k s))")
    (auto simp: cache_set_def split: bool.splits)

lemma make_room_absent:
  assumes "make_room ord now n (fst (removeLocked k s)) = (b, s2)"
  shows "cache_view s2 k = None"
proof -
  have "cache_view s2 \<subseteq>\<^sub>m (cache_view s)(k := None)"
    using make_room_view_le [of ord now n "fst (removeLocked k s)"] assms by simp
  then have "dom (cache_view s2) \<subseteq> dom ((cache_view s)(k := None))"
    by (rule map_le_implies_dom_le)
  then show ?thesis by auto
qed

lemma cache_set_ok [invar_intros]:
  assumes "store_ok s"
  shows "store_ok (cache_set ord now k e s)"
proof -
  have ok: "store_ok (snd (make_room ord now (entry_size e) (fst (removeLocked k s))))"
    using assms by (intro make_room_ok removeLocked_ok)
  show ?thesis
    by (rule cache_set_cases [of ord now e k s])
      (use ok make_room_absent in \<open>force intro: addLocked_ok\<close>)+
qed

lemma cache_set_view_le: "cache_view (cache_set ord now k e s) \<subseteq>\<^sub>m (cache_view s)(k \<mapsto> e)"
proof -
  let ?r = "make_room ord now (entry_size e) (fst (removeLocked k s))"
  have le: "cache_view (snd ?r) \<subseteq>\<^sub>m (cache_view s)(k := None)"
    using make_room_view_le [of ord now "entry_size e" "fst (removeLocked k s)"] by simp
  show ?thesis
  proof (rule cache_set_cases [of ord now e k s])
    fix s2
    assume "?r = (True, s2)" and "cache_set ord now k e s = addLocked k e s2"
    with le show ?thesis using map_le_upd_mono [of "cache_view s2" "(cache_view s)(k := None)" k e] by simp
  next
    fix s2
    assume "?r = (False, s2)" and "cache_set ord now k e s = s2"
    moreover have "(cache_view s)(k := None) \<subseteq>\<^sub>m (cache_view s)(k \<mapsto> e)"
      by (simp add: map_le_def)
    ultimately show ?thesis using map_le_trans [OF le] by simp
  qed
qed

lemma sweep_entries_ok:
  "store_ok s \<Longrightarrow> store_ok (fst (sweep_entries now m s n))"
  by (induction now m s n rule: sweep_entries.induct) (simp_all add: removeLocked_ok)

lemma sweep_tick_eq:
  "sweep_tick ord now s =
    (let r = sweep_entries now (go_range ord (entries s)) s 0
     in if 0 < snd r then on_evicted (snd r) (fst r) else fst r)"
  by (simp add: sweep_tick_def Let_def split: prod.splits)

lemma sweep_tick_ok [invar_intros]: "store_ok s \<Longrightarrow> store_ok (sweep_tick ord now s)"
  by (simp add: sweep_tick_eq Let_def sweep_entries_ok)

text \<open>The sweep leaves the entries that have not expired, and counts the others.\<close>

lemma sweep_entries_view:
  assumes "distinct (keys m)"
  shows "cache_view (fst (sweep_entries now m s n)) =
    (\<lambda>k. if \<exists>v. (k, v) \<in> set m \<and> expired now v then None else cache_view s k)"
  using assms
proof (induction now m s n rule: sweep_entries.induct)
  case (2 now k v r s n)
  then show ?case by (auto simp: fun_eq_iff image_iff)
qed simp

lemma sweep_entries_count: "snd (sweep_entries now m s n) = n + length (filter (\<lambda>(k, v). expired now v) m)"
  by (induction now m s n rule: sweep_entries.induct) simp_all

lemma sweep_tick_view:
  assumes "store_ok s"
  shows "cache_view (sweep_tick ord now s) =
    (\<lambda>k. case cache_view s k of None \<Rightarrow> None | Some v \<Rightarrow> if expired now v then None else Some v)"
proof -
  have "distinct (keys (go_range ord (entries s)))"
    using assms by simp
  from sweep_entries_view [OF this, of now s 0]
  have "cache_view (sweep_tick ord now s) =
      (\<lambda>k. if \<exists>v. cache_view s k = Some v \<and> expired now v then None else cache_view s k)"
    by (simp add: sweep_tick_eq Let_def in_entries_iff [OF assms])
  then show ?thesis
    by (auto simp: fun_eq_iff split: option.splits)
qed

section \<open>The byte budget\<close>

text \<open>
  \<open>no_overflow maxb e\<close>: the budget and the size of the entry add up without leaving
  \<open>int64\<close>. With the default budget of 256 MiB this holds for every entry below
  \<open>2 ^ 62\<close> bytes.
\<close>

definition no_overflow :: "int64 \<Rightarrow> entry \<Rightarrow> bool" where
  "no_overflow maxb e \<longleftrightarrow> max 0 (sint maxb) + int (entry_bytes e) < 2 ^ 63"

definition within_budget :: "store \<Rightarrow> bool" where
  "within_budget s \<longleftrightarrow> int (stored_bytes s) \<le> max 0 (sint (maxBytes s))"

lemma new_store_budget [invar_intros]: "within_budget (new_store maxb cb)"
  by (simp add: within_budget_def new_store_def bytes_in_def)

lemma sint_total:
  assumes "store_ok s" and "within_budget s" and "no_overflow (maxBytes s) e"
  shows "sint (totalBytes s + entry_size e) = int (stored_bytes s) + int (entry_bytes e)"
proof -
  have "int (stored_bytes s + entry_bytes e) < 2 ^ 63"
    using assms(2,3) by (simp add: within_budget_def no_overflow_def)
  from sint_word_of_nat64 [OF this] show ?thesis
    using assms(1) by (simp add: store_ok_def entry_size_eq)
qed

lemma removeLocked_budget [invar_intros]:
  "store_ok s \<Longrightarrow> within_budget s \<Longrightarrow> within_budget (fst (removeLocked k s))"
  using stored_bytes_remove_le [of s k] by (simp add: within_budget_def)

lemma make_room_budget:
  assumes "store_ok s" and "within_budget s"
  shows "within_budget (snd (make_room ord now n s))"
  using make_room_bytes [OF assms(1), of ord now n] assms(2) by (simp add: within_budget_def)

text \<open>The store after the loop of \<open>Set\<close>, with what is known of it.\<close>

lemma set_room:
  assumes "store_ok s" and "within_budget s" and "make_room ord now n (fst (removeLocked k s)) = (b, s2)"
  shows "store_ok s2" and "within_budget s2" and "maxBytes s2 = maxBytes s" and "cache_view s2 k = None"
proof -
  have ok: "store_ok (fst (removeLocked k s))" and wb: "within_budget (fst (removeLocked k s))"
    using assms(1,2) by (simp_all add: removeLocked_ok removeLocked_budget)
  show "store_ok s2" using make_room_ok [OF ok, of ord now n] assms(3) by simp
  show "within_budget s2" using make_room_budget [OF ok wb, of ord now n] assms(3) by simp
  show "maxBytes s2 = maxBytes s"
    using make_room_maxBytes [of ord now n "fst (removeLocked k s)"] assms(3) by simp
  show "cache_view s2 k = None" using assms(3) by (rule make_room_absent)
qed

lemma cache_set_within_budget [invar_intros]:
  assumes "store_ok s" and "within_budget s" and "no_overflow (maxBytes s) e"
  shows "within_budget (cache_set ord now k e s)"
proof (rule cache_set_cases [of ord now e k s])
  fix s2
  assume r: "make_room ord now (entry_size e) (fst (removeLocked k s)) = (True, s2)"
    and set: "cache_set ord now k e s = addLocked k e s2"
  note s2 = set_room [OF assms(1,2) r]
  have "sint (totalBytes s2 + entry_size e) \<le> sint (maxBytes s2)"
    using r by (rule make_room_True)
  then have "int (stored_bytes s2) + int (entry_bytes e) \<le> sint (maxBytes s2)"
    using sint_total [OF s2(1,2)] assms(3) s2(3) by simp
  then show ?thesis
    using set stored_bytes_add [OF s2(4), of e] by (simp add: within_budget_def)
next
  fix s2
  assume r: "make_room ord now (entry_size e) (fst (removeLocked k s)) = (False, s2)"
    and set: "cache_set ord now k e s = s2"
  with set_room(2) [OF assms(1,2) r] show ?thesis by simp
qed

text \<open>An entry that fits the budget on its own is stored.\<close>

lemma cache_set_stores:
  assumes "store_ok s" and "0 \<le> sint (maxBytes s)" and "int (entry_bytes e) \<le> sint (maxBytes s)"
  shows "cache_view (cache_set ord now k e s) k = Some e"
proof (rule cache_set_cases [of ord now e k s])
  fix s2
  assume r: "make_room ord now (entry_size e) (fst (removeLocked k s)) = (False, s2)"
  have max: "maxBytes s2 = maxBytes s"
    using make_room_maxBytes [of ord now "entry_size e" "fst (removeLocked k s)"] r by simp
  have ok: "store_ok s2"
    using make_room_ok [OF removeLocked_ok [OF assms(1)], of ord now "entry_size e" k] r by simp
  have "entries s2 = []" and "sint (maxBytes s2) < sint (totalBytes s2 + entry_size e)"
    using make_room_False [OF r] by simp_all
  with ok have "sint (maxBytes s) < sint (word_of_nat (entry_bytes e) :: int64)"
    by (simp add: store_ok_def bytes_in_def entry_size_eq max)
  then have False
    using assms(3) sint64_less [of "maxBytes s"] by (simp add: sint_word_of_nat64)
  then show ?thesis ..
qed simp

section \<open>The store keeps the contract of the interface\<close>

type_synonym cache_env = "(string \<times> entry) order \<times> instant"
type_synonym cache_op = "(cache_env, string, entry) map_op"

definition put_entry :: "cache_env \<Rightarrow> string \<Rightarrow> entry \<Rightarrow> store \<Rightarrow> store" where
  "put_entry x k e s = cache_set (fst x) (snd x) k e s"

definition sweep_with :: "cache_env \<Rightarrow> store \<Rightarrow> store" where
  "sweep_with x s = sweep_tick (fst x) (snd x) s"

definition entry_fits :: "entry \<Rightarrow> store \<Rightarrow> bool" where
  "entry_fits e s \<longleftrightarrow> 0 \<le> sint (maxBytes s) \<and> int (entry_bytes e) \<le> sint (maxBytes s)"

definition cache_run :: "store \<Rightarrow> cache_op list \<Rightarrow> store" where
  "cache_run = foldl (run_op put_entry cache_delete sweep_with)"

interpretation cs: budget_map cache_view store_ok put_entry cache_delete sweep_with entry_fits
proof unfold_locales
  fix s x k v
  show "cache_view (put_entry x k v s) \<subseteq>\<^sub>m (cache_view s)(k \<mapsto> v)"
    by (simp add: put_entry_def cache_set_view_le)
  show "store_ok s \<Longrightarrow> cache_view (sweep_with x s) \<subseteq>\<^sub>m cache_view s"
    by (auto simp: sweep_with_def sweep_tick_view map_le_def split: option.splits if_splits)
  show "store_ok s \<Longrightarrow> entry_fits v s \<Longrightarrow> cache_view (put_entry x k v s) k = Some v"
    by (simp add: put_entry_def entry_fits_def cache_set_stores)
  show "entry_fits v (cache_delete k s) = entry_fits v s"
    by (simp add: entry_fits_def cache_delete_def)
qed (simp_all add: put_entry_def sweep_with_def cache_set_ok cache_delete_ok sweep_tick_ok)

section \<open>Concurrent use\<close>

text \<open>
  Every method takes the mutex once, except \<open>Get\<close>: it reads the entry under the read
  lock, tests the clock outside, and calls \<open>Delete\<close> for an expired entry. So a step
  of the system is one critical section, and \<open>pending\<close> holds the keys for which a
  \<open>Get\<close> has seen an expired entry and has not deleted it yet. \<open>P\<close> restricts the
  entries that clients store.
\<close>

record cache_sys =
  cstore :: store
  pending :: "string list"

inductive cache_step :: "(entry \<Rightarrow> bool) \<Rightarrow> cache_sys \<Rightarrow> cache_sys \<Rightarrow> bool" for P where
  get_expired: "cache_view (cstore c) k = Some e \<Longrightarrow> expired now e \<Longrightarrow>
     cache_step P c (c\<lparr>pending := k # pending c\<rparr>)"
| get_delete: "k \<in> set (pending c) \<Longrightarrow>
     cache_step P c (c\<lparr>cstore := cache_delete k (cstore c), pending := remove1 k (pending c)\<rparr>)"
| set_entry: "P e \<Longrightarrow> cache_step P c (c\<lparr>cstore := cache_set ord now k e (cstore c)\<rparr>)"
| delete_key: "cache_step P c (c\<lparr>cstore := cache_delete k (cstore c)\<rparr>)"
| sweep: "cache_step P c (c\<lparr>cstore := sweep_tick ord now (cstore c)\<rparr>)"

inductive cache_reach :: "(entry \<Rightarrow> bool) \<Rightarrow> int64 \<Rightarrow> bool \<Rightarrow> cache_sys \<Rightarrow> bool" for P maxb cb where
  start: "cache_reach P maxb cb \<lparr>cstore = new_store maxb cb, pending = []\<rparr>"
| step: "cache_reach P maxb cb c \<Longrightarrow> cache_step P c c' \<Longrightarrow> cache_reach P maxb cb c'"

inductive_cases cache_stepE: "cache_step P c c'"

lemma cache_set_maxBytes [simp]: "maxBytes (cache_set ord now k e s) = maxBytes s"
proof (cases "make_room ord now (entry_size e) (fst (removeLocked k s))")
  case (Pair b s2)
  then have "maxBytes s2 = maxBytes s"
    using make_room_maxBytes [of ord now "entry_size e" "fst (removeLocked k s)"] by simp
  with Pair show ?thesis by (simp add: cache_set_def split: bool.splits)
qed

lemma cache_delete_maxBytes [simp]: "maxBytes (cache_delete k s) = maxBytes s"
  by (simp add: cache_delete_def)

lemma sweep_entries_maxBytes [simp]: "maxBytes (fst (sweep_entries now m s n)) = maxBytes s"
  by (induction now m s n rule: sweep_entries.induct) simp_all

lemma sweep_tick_maxBytes [simp]: "maxBytes (sweep_tick ord now s) = maxBytes s"
  by (simp add: sweep_tick_eq Let_def)

lemma sweep_entries_budget:
  "store_ok s \<Longrightarrow> within_budget s \<Longrightarrow> within_budget (fst (sweep_entries now m s n))"
  by (induction now m s n rule: sweep_entries.induct) (simp_all add: removeLocked_ok removeLocked_budget)

lemma sweep_tick_budget [invar_intros]:
  "store_ok s \<Longrightarrow> within_budget s \<Longrightarrow> within_budget (sweep_tick ord now s)"
  using sweep_entries_budget [of s now "go_range ord (entries s)" 0]
  by (simp add: sweep_tick_eq Let_def within_budget_def)

lemma cache_delete_budget [invar_intros]:
  "store_ok s \<Longrightarrow> within_budget s \<Longrightarrow> within_budget (cache_delete k s)"
  by (simp add: cache_delete_def removeLocked_budget)

lemma cache_step_ok: "cache_step P c c' \<Longrightarrow> store_ok (cstore c) \<Longrightarrow> store_ok (cstore c')"
  by (induction rule: cache_step.induct) (simp_all add: invar_intros)

lemma cache_reach_ok: "cache_reach P maxb cb c \<Longrightarrow> store_ok (cstore c) \<and> maxBytes (cstore c) = maxb"
proof (induction rule: cache_reach.induct)
  case start
  then show ?case by (simp add: new_store_ok)
next
  case (step c c')
  then show ?case by (auto elim!: cache_stepE simp: invar_intros)
qed

lemma cache_reach_budget:
  assumes "cache_reach P maxb cb c" and "\<And>e. P e \<Longrightarrow> no_overflow maxb e"
  shows "within_budget (cstore c)"
  using assms(1)
proof (induction rule: cache_reach.induct)
  case start
  then show ?case by (simp add: new_store_budget)
next
  case (step c c')
  then show ?case
    using cache_reach_ok [OF step.hyps(1)] assms(2)
    by (auto elim!: cache_stepE simp: invar_intros)
qed

section \<open>Properties\<close>

definition sample_entry :: "bytes \<Rightarrow> instant \<Rightarrow> int64 \<Rightarrow> entry" where
  "sample_entry body t ttl =
     \<lparr>e_StatusCode = 200, e_Header = [], e_Proto = ''HTTP/1.1'', e_ProtoMajor = 1, e_ProtoMinor = 1,
      e_Body = body, e_CachedAt = t, e_TTL = ttl\<rparr>"

lemma entry_bytes_sample [simp]: "entry_bytes (sample_entry body t ttl) = length body"
  by (simp add: entry_bytes_def sample_entry_def header_bytes_def)

lemma expired_sample:
  "- (2 ^ 63) \<le> now - t \<Longrightarrow> now - t < 2 ^ 63 \<Longrightarrow> expired now (sample_entry body t ttl) \<longleftrightarrow> sint ttl < now - t"
  by (simp add: expired_def sample_entry_def sint_time_sub)

text \<open>Whatever way the calls of concurrent goroutines interleave (a \<open>Get\<close> of an expired entry
  counting as two critical sections), the keys stay distinct and the atomic counters
  behind \<open>Len\<close> and \<open>SizeBytes\<close> are exact: the number of entries held, and the sum of
  their body and header bytes, modulo the width of an \<open>int64\<close>.\<close>

theorem cache_counters_exact:
  assumes "cache_reach P maxb cb c"
  shows "distinct (keys (entries (cstore c)))
    \<and> cache_len (cstore c) = word_of_nat (length (entries (cstore c)))
    \<and> cache_size_bytes (cstore c) = word_of_nat (stored_bytes (cstore c))"
  using cache_reach_ok [OF assms] by (simp add: store_ok_def cache_len_def cache_size_bytes_def)

lemma cache_reach_example:
  "cache_reach P 100 True
     \<lparr>cstore = cache_set id 0 ''k'' (sample_entry [1, 2] 0 5) (new_store 100 True), pending = []\<rparr>"
  if "P (sample_entry [1, 2] 0 5)"
  using cache_reach.step [OF cache_reach.start cache_step.set_entry, of P "sample_entry [1, 2] 0 5" 100 True id 0 "''k''"] that
  by simp

theorem cache_counters_exact_witness:
  "cache_len (cache_set id 0 ''k'' (sample_entry [1, 2] 0 5) (new_store 100 True))
    = word_of_nat (length (entries (cache_set id 0 ''k'' (sample_entry [1, 2] 0 5) (new_store 100 True))))"
  using cache_counters_exact [OF cache_reach_example [of "\<lambda>_. True"]] by simp

text \<open>C12. The byte budget is never exceeded, under any interleaving: the bytes held are at most
  \<open>maxBytes\<close> (zero for a negative budget), as long as every stored entry's size added
  to the budget stays inside \<open>int64\<close>.\<close>

theorem cache_budget_respected:
  assumes "cache_reach (no_overflow maxb) maxb cb c"
  shows "int (stored_bytes (cstore c)) \<le> max 0 (sint maxb)"
  using cache_reach_budget [OF assms] cache_reach_ok [OF assms] by (simp add: within_budget_def)

theorem cache_budget_respected_witness:
  "int (stored_bytes (cache_set id 0 ''k'' (sample_entry [1, 2] 0 5) (new_store 100 True))) \<le> 100"
  using cache_budget_respected [OF cache_reach_example] by (simp add: no_overflow_def)

text \<open>C11. The cache refines an ideal map that never forgets: after any sequence of \<open>Set\<close>, \<open>Delete\<close> and
  sweeps, each with its own clock and walk order, what is held for a key is what the
  ideal map holds, so it is the last value stored under that very key and not deleted
  since.\<close>

theorem cache_refines_map:
  assumes "cache_view (cache_run (new_store maxb cb) ops) k = Some e"
  shows "foldl ideal_op Map.empty ops k = Some e \<and> (\<exists>x. Put x k e \<in> set ops)"
proof -
  have "cache_view (new_store maxb cb) \<subseteq>\<^sub>m Map.empty"
    by (simp add: cache_view_def new_store_def)
  then have "foldl ideal_op Map.empty ops k = Some e"
    using cs.exec_answer [OF new_store_ok] assms unfolding cache_run_def by blast
  with ideal_origin [of Map.empty ops k e] show ?thesis by simp
qed

theorem cache_refines_map_witness:
  "foldl ideal_op Map.empty [Put (id, 0) ''k'' (sample_entry [1] 0 5) :: cache_op] ''k'' = Some (sample_entry [1] 0 5)"
proof -
  have "cache_view (cache_run (new_store 100 True) [Put (id, 0) ''k'' (sample_entry [1] 0 5)]) ''k''
      = Some (sample_entry [1] 0 5)"
    using cs.put_fits [OF new_store_ok [of 100 True], of "sample_entry [1] 0 5" "(id, 0)" "''k''"]
    by (simp add: cache_run_def entry_fits_def)
  from cache_refines_map [OF this] show ?thesis by blast
qed

text \<open>\<open>Get\<close> returns an entry exactly when one is held under the key and its age does not exceed
  its TTL; then the store is unchanged. An expired entry is a miss and is removed.\<close>

theorem cache_get_exact:
  "cache_get now k s =
     (case cache_view s k of
        None \<Rightarrow> (None, s)
      | Some e \<Rightarrow> if sint (time_sub now (e_CachedAt e)) \<le> sint (e_TTL e) then (Some e, s) else (None, cache_delete k s))
   \<and> cache_view (cache_delete k s) = (cache_view s)(k := None)"
  by (auto simp: cache_get_def cache_view_def [symmetric] expired_def split: option.splits)

text \<open>When the new entry fits beside what is held, \<open>Set\<close> replaces the entry of its key, touches no
  other and calls no callback.\<close>

theorem cache_set_no_eviction:
  assumes "store_ok s" and "within_budget s" and "no_overflow (maxBytes s) e"
    and "int (bytes_in (AList.delete k (entries s))) + int (entry_bytes e) \<le> sint (maxBytes s)"
  shows "cache_view (cache_set ord now k e s) = (cache_view s)(k \<mapsto> e)
    \<and> evictions (cache_set ord now k e s) = evictions s"
proof -
  let ?s1 = "fst (removeLocked k s)"
  have "sint (totalBytes ?s1 + entry_size e) = int (stored_bytes ?s1) + int (entry_bytes e)"
    using assms by (intro sint_total) (simp_all add: removeLocked_ok removeLocked_budget)
  with assms(4) have "make_room ord now (entry_size e) ?s1 = (True, ?s1)"
    by (intro make_room_enough) (simp add: entries_removeLocked)
  then show ?thesis by (simp add: cache_set_def)
qed

theorem cache_set_no_eviction_witness:
  "cache_view (cache_set id 0 ''k'' (sample_entry [1] 0 5) (new_store 100 True)) ''k'' = Some (sample_entry [1] 0 5)"
  using cache_set_no_eviction [OF new_store_ok new_store_budget, of 100 True "sample_entry [1] 0 5" "''k''" id 0]
  by (simp add: no_overflow_def bytes_in_def)

text \<open>An entry that fits the budget on its own is always stored, whatever has to be evicted for it,
  and an entry that was live before is evicted only when no expired entry is left.\<close>

theorem cache_set_prefers_expired:
  assumes "store_ok s" and "entry_fits e s"
  shows "cache_view (cache_set ord now k e s) k = Some e
    \<and> spares_live now (cache_delete k s) (cache_delete k (cache_set ord now k e s))"
proof
  show stored: "cache_view (cache_set ord now k e s) k = Some e"
    using assms by (simp add: entry_fits_def cache_set_stores)
  show "spares_live now (cache_delete k s) (cache_delete k (cache_set ord now k e s))"
  proof (rule cache_set_cases [of ord now e k s])
    fix s2
    assume r: "make_room ord now (entry_size e) (fst (removeLocked k s)) = (True, s2)"
      and set: "cache_set ord now k e s = addLocked k e s2"
    from make_room_absent [OF r] have "cache_view (cache_delete k (cache_set ord now k e s)) = cache_view s2"
      using set by (auto simp: fun_eq_iff)
    moreover have "spares_live now (fst (removeLocked k s)) s2"
      using make_room_spares_live [OF removeLocked_ok [OF assms(1)], of now k ord "entry_size e"] r by simp
    ultimately show ?thesis by (simp add: spares_live_def cache_delete_def)
  next
    fix s2
    assume "make_room ord now (entry_size e) (fst (removeLocked k s)) = (False, s2)"
      and "cache_set ord now k e s = s2"
    with make_room_absent stored show ?thesis by fastforce
  qed
qed

theorem cache_set_prefers_expired_witness:
  "cache_view (cache_set id 9 ''new'' (sample_entry [1] 9 5) (new_store 1 True)) ''new'' = Some (sample_entry [1] 9 5)"
  using cache_set_prefers_expired [OF new_store_ok [of 1 True], of "sample_entry [1] 9 5" id 9 "''new''"]
  by (simp add: entry_fits_def)

text \<open>An entry larger than the whole budget is not stored, and the attempt to make room for it
  evicts every entry the cache holds.\<close>

theorem cache_set_oversized_flushes:
  assumes "store_ok s" and "within_budget s" and "no_overflow (maxBytes s) e"
    and "max 0 (sint (maxBytes s)) < int (entry_bytes e)"
  shows "entries (cache_set ord now k e s) = []"
proof (rule cache_set_cases [of ord now e k s])
  fix s2
  assume r: "make_room ord now (entry_size e) (fst (removeLocked k s)) = (True, s2)"
  note s2 = set_room [OF assms(1,2) r]
  have "sint (totalBytes s2 + entry_size e) \<le> sint (maxBytes s2)"
    using r by (rule make_room_True)
  with sint_total [OF s2(1,2)] assms(3,4) s2(3) have False by simp
  then show ?thesis ..
next
  fix s2
  assume "make_room ord now (entry_size e) (fst (removeLocked k s)) = (False, s2)"
    and "cache_set ord now k e s = s2"
  then show ?thesis using make_room_False(1) by blast
qed

theorem cache_set_oversized_flushes_witness:
  "entries (cache_set id 0 ''big'' (sample_entry [1, 2, 3] 0 5)
     (cache_set id 0 ''a'' (sample_entry [1] 0 5) (new_store 2 True))) = []"
proof (rule cache_set_oversized_flushes)
  show "store_ok (cache_set id 0 ''a'' (sample_entry [1] 0 5) (new_store 2 True))"
    by (simp add: invar_intros)
  show "within_budget (cache_set id 0 ''a'' (sample_entry [1] 0 5) (new_store 2 True))"
    by (rule cache_set_within_budget) (simp_all add: invar_intros no_overflow_def)
qed (simp_all add: no_overflow_def)

text \<open>One tick of the sweep removes exactly the expired entries, and reports their number to the
  callback in one call, if there is a callback and the number is not zero.\<close>

theorem sweep_tick_exact:
  assumes "store_ok s"
  shows "cache_view (sweep_tick ord now s) =
      (\<lambda>k. case cache_view s k of None \<Rightarrow> None | Some v \<Rightarrow> if expired now v then None else Some v)
    \<and> evictions (sweep_tick ord now s) = evictions s @
        (if has_onEvicted s \<and> (\<exists>(k, v) \<in> set (entries s). expired now v)
         then [length (filter (\<lambda>(k, v). expired now v) (entries s))] else [])"
proof
  let ?m = "go_range ord (entries s)"
  have "length (filter (\<lambda>(k, v). expired now v) ?m) = length (filter (\<lambda>(k, v). expired now v) (entries s))"
    by (metis (no_types, lifting) mset_filter mset_go_range size_mset)
  moreover have "evictions (fst (sweep_entries now m s n)) = evictions s
      \<and> has_onEvicted (fst (sweep_entries now m s n)) = has_onEvicted s" for m n
    by (induction now m s n rule: sweep_entries.induct) simp_all
  ultimately show "evictions (sweep_tick ord now s) = evictions s @
        (if has_onEvicted s \<and> (\<exists>(k, v) \<in> set (entries s). expired now v)
         then [length (filter (\<lambda>(k, v). expired now v) (entries s))] else [])"
    by (auto simp: sweep_tick_eq Let_def on_evicted_def sweep_entries_count filter_empty_conv)
qed (rule sweep_tick_view [OF assms])

theorem sweep_tick_exact_witness:
  "cache_view (sweep_tick id 9 (cache_set id 0 ''a'' (sample_entry [1] 0 5) (new_store 2 True))) ''a'' = None"
proof -
  have ok: "store_ok (cache_set id 0 ''a'' (sample_entry [1] 0 5) (new_store 2 True))"
    by (simp add: invar_intros)
  have "cache_view (cache_set id 0 ''a'' (sample_entry [1] 0 5) (new_store 2 True)) ''a'' = Some (sample_entry [1] 0 5)"
    by (rule cache_set_stores) (simp_all add: invar_intros)
  with sweep_tick_exact [OF ok, of id 9] show ?thesis
    by (simp add: expired_sample)
qed

text \<open>A \<open>Get\<close> that finds an expired entry deletes by key after it has released the lock, so it can
  delete an entry that another goroutine stored in between: there is a reachable
  state of the running system in which a live entry has just been stored, and one
  pending \<open>Get\<close> step away from it the entry is gone.\<close>

theorem get_may_drop_fresh_entry:
  "\<exists>c c'. cache_reach (\<lambda>_. True) 100 cb c \<and> cache_view (cstore c) ''k'' = Some (sample_entry [2] 9 5)
     \<and> \<not> expired 9 (sample_entry [2] 9 5)
     \<and> cache_step (\<lambda>_. True) c c' \<and> cache_view (cstore c') ''k'' = None"
proof -
  let ?old = "sample_entry [1] 0 5" and ?new = "sample_entry [2] 9 5"
  let ?s0 = "new_store 100 cb"
  let ?s1 = "cache_set id 0 ''k'' ?old ?s0"
  let ?s2 = "cache_set id 9 ''k'' ?new ?s1"
  let ?c1 = "\<lparr>cstore = ?s1, pending = []\<rparr>"
  let ?c2 = "\<lparr>cstore = ?s1, pending = [''k'']\<rparr>"
  let ?c3 = "\<lparr>cstore = ?s2, pending = [''k'']\<rparr>"
  have v1: "cache_view ?s1 ''k'' = Some ?old"
    by (rule cache_set_stores) (simp_all add: invar_intros)
  have v2: "cache_view ?s2 ''k'' = Some ?new"
    by (rule cache_set_stores) (simp_all add: invar_intros)
  have "cache_step (\<lambda>_. True) \<lparr>cstore = ?s0, pending = []\<rparr> ?c1"
    using cache_step.set_entry [of "\<lambda>_. True" ?old "\<lparr>cstore = ?s0, pending = []\<rparr>" id 0 "''k''"] by simp
  moreover have "cache_step (\<lambda>_. True) ?c1 ?c2"
    using cache_step.get_expired [of ?c1 "''k''" ?old 9 "\<lambda>_. True"] v1 by (simp add: expired_sample)
  moreover have "cache_step (\<lambda>_. True) ?c2 ?c3"
    using cache_step.set_entry [of "\<lambda>_. True" ?new ?c2 id 9 "''k''"] by simp
  ultimately have "cache_reach (\<lambda>_. True) 100 cb ?c3"
    by (meson cache_reach.intros)
  moreover have "cache_step (\<lambda>_. True) ?c3 \<lparr>cstore = cache_delete ''k'' ?s2, pending = []\<rparr>"
    using cache_step.get_delete [of "''k''" ?c3 "\<lambda>_. True"] by simp
  moreover have "\<not> expired 9 ?new" by (simp add: expired_sample)
  ultimately show ?thesis
    using v2 by (intro exI conjI) (assumption | simp)+
qed

end
