(* ===== verification/Http_Caching.thy ===== *)
theory Http_Caching
imports Cache_Key Cache_Store
begin

text \<open>
  The functions of \<open>internal/proxy/proxy.go\<close> that interpret the caching headers:
  \<open>Vary\<close> lists and their union, \<open>Cache-Control\<close> directives, whether a response may be
  stored and for how long. \<open>nil\<close> and the empty slice are both the empty list, \<open>nil\<close>
  and the empty map both the empty map: the code only takes lengths and looks up.
\<close>

section \<open>Vary\<close>

fun vary_names :: "string list \<Rightarrow> string list" where
  "vary_names [] = []"
| "vary_names (p # ps) =
     (let h = trim_space p
      in if h \<noteq> [] then canonical_header_key h # vary_names ps else vary_names ps)"

definition parseVaryHeader :: "string \<Rightarrow> string list" where
  "parseVaryHeader vary =
     (if vary = [] \<or> vary = ''*'' then [] else vary_names (go_split (CHR '','') vary))"

text \<open>\<open>seen\<close> is a set built in two loops; the walk over it is in some order, then sorted.\<close>

definition see :: "string list \<Rightarrow> string \<Rightarrow> string list" where
  "see seen h = (let c = canonical_header_key h in if c \<in> set seen then seen else seen @ [c])"

definition mergeVaryHeaders :: "string order \<Rightarrow> string list \<Rightarrow> string list \<Rightarrow> string list" where
  "mergeVaryHeaders ord a b =
     (if length b = 0 then a
      else sort (go_range ord (foldl see (foldl see [] a) b)))"

section \<open>Cache-Control\<close>

definition directive :: "string \<Rightarrow> string \<times> string" where
  "directive part =
     (case go_cut (CHR ''='') (trim_space part) of
        (name, value) \<Rightarrow>
          (to_lower (trim_space name), go_trim (CHR 0x22) (trim_space value)))"

fun add_directives :: "string list \<Rightarrow> (string \<rightharpoonup> string) \<Rightarrow> string \<rightharpoonup> string" where
  "add_directives [] m = m"
| "add_directives (part # parts) m =
     (case directive part of
        (name, value) \<Rightarrow> if name = [] then add_directives parts m else add_directives parts (m(name \<mapsto> value)))"

definition parseCacheControl :: "string \<Rightarrow> string \<rightharpoonup> string" where
  "parseCacheControl h =
     (if h = [] then Map.empty else add_directives (go_split (CHR '','') h) Map.empty)"

definition ccNoStore :: string where "ccNoStore = ''no-store''"
definition ccNoCache :: string where "ccNoCache = ''no-cache''"
definition ccPrivate :: string where "ccPrivate = ''private''"
definition ccMaxAge :: string where "ccMaxAge = ''max-age''"
definition ccSMaxAge :: string where "ccSMaxAge = ''s-maxage''"

definition responseCacheable :: "(string \<rightharpoonup> string) \<Rightarrow> bool" where
  "responseCacheable cc =
     (if cc ccNoStore \<noteq> None then False else if cc ccPrivate \<noteq> None then False else True)"

text \<open>\<open>time.Duration(secs) * time.Second\<close> wraps in 64 bits.\<close>

fun ttl_loop :: "string list \<Rightarrow> (string \<rightharpoonup> string) \<Rightarrow> int64 \<Rightarrow> int64" where
  "ttl_loop [] cc fallback = fallback"
| "ttl_loop (key # ks) cc fallback =
     (case cc key of
        None \<Rightarrow> ttl_loop ks cc fallback
      | Some v \<Rightarrow>
          (case atoi v of
             None \<Rightarrow> ttl_loop ks cc fallback
           | Some secs \<Rightarrow> if 0 \<le> sint secs then secs * second else ttl_loop ks cc fallback))"

definition cacheControlTTL :: "(string \<rightharpoonup> string) \<Rightarrow> int64 \<Rightarrow> int64" where
  "cacheControlTTL cc fallback = ttl_loop [ccSMaxAge, ccMaxAge] cc fallback"

definition reasonNotCached :: "int \<Rightarrow> int64 \<Rightarrow> string" where
  "reasonNotCached status maxBodyBytes =
     (if maxBodyBytes = 0 then ''body caching disabled''
      else if status < 200 \<or> 300 \<le> status then ''non-2xx status''
      else ''body too large'')"

section \<open>Merging vary lists\<close>

definition canonical_names :: "string list \<Rightarrow> string set" where
  "canonical_names ns = canonical_header_key ` set ns"

lemma set_see [simp]: "set (see seen h) = insert (canonical_header_key h) (set seen)"
  by (auto simp: see_def Let_def)

lemma distinct_see [simp]: "distinct seen \<Longrightarrow> distinct (see seen h)"
  by (simp add: see_def Let_def)

lemma set_foldl_see: "set (foldl see seen ns) = set seen \<union> canonical_names ns"
  by (induction ns arbitrary: seen) (auto simp: canonical_names_def)

lemma distinct_foldl_see: "distinct seen \<Longrightarrow> distinct (foldl see seen ns)"
  by (induction ns arbitrary: seen) simp_all

lemma mergeVaryHeaders_Nil [simp]: "mergeVaryHeaders ord a [] = a"
  by (simp add: mergeVaryHeaders_def)

lemma mergeVaryHeaders_eq:
  "b \<noteq> [] \<Longrightarrow> mergeVaryHeaders ord a b = sorted_list_of_set (canonical_names a \<union> canonical_names b)"
proof -
  assume b: "b \<noteq> []"
  let ?seen = "foldl see (foldl see [] a) b"
  have "distinct (go_range ord ?seen)"
    by (metis distinct_foldl_see distinct.simps(1) distinct_map_go_range list.map_id)
  moreover have "set (go_range ord ?seen) = canonical_names a \<union> canonical_names b"
    by (simp add: set_foldl_see)
  ultimately show ?thesis
    using b by (metis mergeVaryHeaders_def length_0_conv sorted_list_of_set_sort_remdups distinct_remdups_id)
qed

lemma finite_canonical_names [simp]: "finite (canonical_names ns)"
  by (simp add: canonical_names_def)

lemma canonical_names_merged: "canonical_names (sorted_list_of_set (canonical_names a)) = canonical_names a"
  by (simp add: canonical_names_def image_image)

lemma canonical_names_Un: "canonical_names (a @ b) = canonical_names a \<union> canonical_names b"
  by (auto simp: canonical_names_def)

lemma mergeVaryHeaders_order: "mergeVaryHeaders ord a b = mergeVaryHeaders ord' a b"
  by (cases "b = []") (simp_all add: mergeVaryHeaders_eq)

section \<open>Directives\<close>

lemma add_directives_eq:
  "add_directives ps m =
     m ++ map_of (rev (filter (\<lambda>d. fst d \<noteq> []) (map directive ps)))"
proof (induction ps m rule: add_directives.induct)
  case (2 part parts m)
  obtain n v where d: "directive part = (n, v)"
    by (cases "directive part")
  with 2 show ?case
    by (cases "n = []") (simp_all del: fun_upd_apply)
qed simp

lemma directive_Nil: "directive [] = ([], [])"
  by (simp add: directive_def trim_space_visible visible_def go_cut_def go_trim_def to_lower_def)

lemma parseCacheControl_eq:
  "parseCacheControl h = map_of (rev (filter (\<lambda>d. fst d \<noteq> []) (map directive (go_split (CHR '','') h))))"
proof (cases "h = []")
  case True
  then show ?thesis by (simp add: parseCacheControl_def directive_Nil)
qed (simp add: parseCacheControl_def add_directives_eq)

lemma parseCacheControl_dom:
  "k \<noteq> [] \<Longrightarrow> parseCacheControl h k \<noteq> None \<longleftrightarrow> (\<exists>p \<in> set (go_split (CHR '','') h). fst (directive p) = k)"
  by (force simp: parseCacheControl_eq map_of_eq_None_iff)

section \<open>Printed lists\<close>

text \<open>Lists as a server prints them: the elements separated by a comma and a blank.\<close>

fun comma_list :: "string list \<Rightarrow> string" where
  "comma_list [] = []"
| "comma_list [x] = x"
| "comma_list (x # xs) = x @ '', '' @ comma_list xs"

definition plain :: "string \<Rightarrow> bool" where
  "plain s \<longleftrightarrow> visible s \<and> CHR '','' \<notin> set s"

lemma go_split_comma_list:
  "list_all plain (x # xs) \<Longrightarrow> go_split (CHR '','') (comma_list (x # xs)) = x # map (\<lambda>s. CHR '' '' # s) xs"
proof (induction xs arbitrary: x)
  case Nil
  then show ?case by (simp add: go_split_absent plain_def)
next
  case (Cons y ys)
  then show ?case by (simp add: go_split_append plain_def)
qed

lemma trim_split_comma_list:
  assumes "list_all plain xs" and "xs \<noteq> []"
  shows "map trim_space (go_split (CHR '','') (comma_list xs)) = xs"
proof -
  obtain y ys where xs: "xs = y # ys"
    using assms(2) by (cases xs) auto
  have "map trim_space (map (\<lambda>s. CHR '' '' # s) ys) = map (\<lambda>s. s) ys"
    unfolding map_map using assms(1) xs
    by (intro map_cong) (auto simp: trim_space_blank trim_space_visible plain_def list_all_iff)
  then show ?thesis
    using assms(1) xs by (simp add: go_split_comma_list trim_space_visible plain_def del: comma_list.simps)
qed

lemma vary_names_trim:
  "vary_names ps = map canonical_header_key (filter (\<lambda>h. h \<noteq> []) (map trim_space ps))"
  by (induction ps rule: vary_names.induct) (simp_all add: Let_def)

lemma comma_list_eq_short:
  "list_all plain xs \<Longrightarrow> list_all (\<lambda>s. s \<noteq> []) xs \<Longrightarrow> CHR '','' \<notin> set (comma_list xs) \<Longrightarrow>
     xs = [] \<or> xs = [comma_list xs]"
  by (induction xs rule: comma_list.induct) auto

definition plain_directive :: "string \<times> string \<Rightarrow> bool" where
  "plain_directive d \<longleftrightarrow>
     plain (fst d) \<and> fst d \<noteq> [] \<and> CHR ''='' \<notin> set (fst d) \<and> map lower_char (fst d) = fst d
     \<and> plain (snd d) \<and> CHR 0x22 \<notin> set (snd d)"

definition print_directive :: "string \<times> string \<Rightarrow> string" where
  "print_directive d = (if snd d = [] then fst d else fst d @ ''='' @ snd d)"

definition print_directives :: "(string \<times> string) list \<Rightarrow> string" where
  "print_directives ds = comma_list (map print_directive ds)"

lemma visible_append [simp]: "visible (a @ b) \<longleftrightarrow> visible a \<and> visible b"
  by (auto simp: visible_def)

lemma visible_ascii: "visible s \<Longrightarrow> ascii s"
  by (force simp: visible_def ascii_def)

lemma plain_print_directive: "plain_directive d \<Longrightarrow> plain (print_directive d)"
  by (auto simp: plain_directive_def print_directive_def plain_def visible_def of_char_of)

lemma directive_of_trimmed:
  assumes "plain_directive d" and "trim_space p = print_directive d"
  shows "directive p = d"
proof -
  have cut: "go_cut (CHR ''='') (trim_space p) = d"
    using assms by (auto simp: print_directive_def plain_directive_def go_cut_absent go_cut_first prod_eq_iff)
  show ?thesis
    using assms(1) unfolding directive_def cut
    by (auto simp: plain_directive_def plain_def trim_space_visible to_lower_ascii visible_ascii go_trim_absent
        split: prod.splits)
qed

lemma directives_print:
  assumes "list_all plain_directive ds" and "ds \<noteq> []"
  shows "map directive (go_split (CHR '','') (print_directives ds)) = ds"
proof -
  let ?ps = "go_split (CHR '','') (print_directives ds)"
  have trim: "map trim_space ?ps = map print_directive ds"
    unfolding print_directives_def using assms
    by (intro trim_split_comma_list) (auto simp: list_all_iff plain_print_directive)
  then have len: "length ?ps = length ds"
    by (metis length_map)
  show ?thesis
  proof (rule nth_equalityI)
    show "length (map directive ?ps) = length ds"
      using len by simp
    fix i assume "i < length (map directive ?ps)"
    then have i: "i < length ds" "i < length ?ps"
      using len by simp_all
    then have "trim_space (?ps ! i) = print_directive (ds ! i)"
      using trim by (metis nth_map)
    moreover have "plain_directive (ds ! i)"
      using assms(1) i by (simp add: list_all_length)
    ultimately show "map directive ?ps ! i = ds ! i"
      using i by (simp add: directive_of_trimmed)
  qed
qed

lemma parse_print_directives:
  assumes "list_all plain_directive ds"
  shows "parseCacheControl (print_directives ds) = map_of (rev ds)"
proof (cases "ds = []")
  case True
  then show ?thesis by (simp add: print_directives_def parseCacheControl_def)
next
  case False
  have "filter (\<lambda>d. fst d \<noteq> []) ds = ds"
    using assms by (auto simp: filter_id_conv list_all_iff plain_directive_def)
  then show ?thesis
    using directives_print [OF assms False] by (simp add: parseCacheControl_eq)
qed

section \<open>Lifetimes\<close>

lemma atoi_seconds:
  assumes "int n < 2 ^ 63"
  shows "atoi (itoa n) = Some (word_of_nat n)" and "sint (word_of_nat n :: int64) = int n"
proof -
  have "n < 2 ^ 63"
    using assms by (metis of_nat_less_iff of_nat_numeral of_nat_power)
  then show "atoi (itoa n) = Some (word_of_nat n)"
    by (rule atoi_itoa)
qed (rule sint_word_of_nat64 [OF assms])

lemma seconds_word: "word_of_nat n * second = (word_of_int (int n * 10 ^ 9) :: int64)"
  by (simp add: second_def)

lemma ttl_hit:
  assumes "cc key = Some (itoa n)" and "int n < 2 ^ 63"
  shows "ttl_loop (key # ks) cc fb = word_of_int (int n * 10 ^ 9)"
  using assms atoi_seconds [OF assms(2)] by (simp add: seconds_word del: of_nat_numeral)

lemma ttl_absent: "cc key = None \<Longrightarrow> ttl_loop (key # ks) cc fb = ttl_loop ks cc fb"
  by simp

text \<open>The lifetime that a list of directives asks for, before the conversion to nanoseconds.\<close>

definition asked_lifetime :: "(string \<times> string) list \<Rightarrow> nat \<Rightarrow> bool" where
  "asked_lifetime ds n \<longleftrightarrow>
     map_of (rev ds) ccSMaxAge = Some (itoa n)
     \<or> map_of (rev ds) ccSMaxAge = None \<and> map_of (rev ds) ccMaxAge = Some (itoa n)"

lemma ttl_asked:
  assumes "list_all plain_directive ds" and "asked_lifetime ds n" and "int n < 2 ^ 63"
  shows "cacheControlTTL (parseCacheControl (print_directives ds)) fb = word_of_int (int n * 10 ^ 9)"
  using assms(2) unfolding cacheControlTTL_def parse_print_directives [OF assms(1)] asked_lifetime_def
  by (auto simp: ttl_hit [OF _ assms(3)] ttl_absent simp del: ttl_loop.simps)

section \<open>Headers as they may be written\<close>

text \<open>
  The layouts a sender may choose: blanks and tabs around every part, names in any case,
  values bare or in quotes, elements left empty. \<open>Setting a n b q v c d\<close> is a name \<open>n\<close> and a
  value \<open>v\<close>, quoted if \<open>q\<close> holds, with the blanks \<open>a\<close>, \<open>b\<close>, \<open>c\<close> and \<open>d\<close> around the two.
\<close>

datatype element =
    Left_Empty string
  | Flag string string string
  | Setting string string string bool string string string

fun write_element :: "element \<Rightarrow> string" where
  "write_element (Left_Empty a) = a"
| "write_element (Flag a n b) = a @ n @ b"
| "write_element (Setting a n b q v c d) = a @ n @ b @ ''='' @ c @ (if q then CHR 0x22 # v @ [CHR 0x22] else v) @ d"

fun written :: "string list \<Rightarrow> string" where
  "written [] = []"
| "written [x] = x"
| "written (x # xs) = x @ CHR '','' # written xs"

text \<open>A bare value begins and ends with a visible character; a quoted one may begin and end with anything.\<close>

definition good_name :: "string \<Rightarrow> bool" where
  "good_name n \<longleftrightarrow> n \<noteq> [] \<and> trimmed n \<and> ascii n \<and> CHR '','' \<notin> set n \<and> CHR ''='' \<notin> set n"

fun well_written :: "element \<Rightarrow> bool" where
  "well_written (Left_Empty a) = blanks a"
| "well_written (Flag a n b) = (good_name n \<and> blanks a \<and> blanks b)"
| "well_written (Setting a n b q v c d) =
     (good_name n \<and> list_all blanks [a, b, c, d] \<and> CHR '','' \<notin> set v \<and> CHR 0x22 \<notin> set v \<and> (q \<or> trimmed v))"

text \<open>What an element says: the name in lower case and the value without its quotes.\<close>

fun meaning :: "element \<Rightarrow> (string \<times> string) list" where
  "meaning (Left_Empty a) = []"
| "meaning (Flag a n b) = [(map lower_char n, [])]"
| "meaning (Setting a n b q v c d) = [(map lower_char n, v)]"

lemma blanks_append [simp]: "blanks (a @ b) \<longleftrightarrow> blanks a \<and> blanks b"
  by (auto simp: blanks_def)

lemma blanks_free: "blanks a \<Longrightarrow> CHR '','' \<notin> set a \<and> CHR ''='' \<notin> set a"
  by (auto simp: blanks_def)

lemma trim_blanks: "blanks a \<Longrightarrow> trim_space a = []"
  using trim_space_around [of a "[]" "[]"] by (simp add: blanks_def trimmed_def)

lemma go_split_written:
  "list_all (\<lambda>x. CHR '','' \<notin> set x) xs \<Longrightarrow> xs \<noteq> [] \<Longrightarrow> go_split (CHR '','') (written xs) = xs"
  by (induction xs rule: written.induct) (simp_all add: go_split_absent go_split_append)

lemma directive_written:
  assumes "well_written x"
  shows "filter (\<lambda>d. fst d \<noteq> []) [directive (write_element x)] = meaning x"
proof (cases x)
  case (Left_Empty a)
  with assms show ?thesis
    by (simp add: directive_def trim_blanks go_cut_absent to_lower_def go_trim_def trim_space_visible visible_def)
next
  case (Flag a n b)
  then have n: "good_name n" "trim_space (a @ n @ b) = n"
    using assms trim_space_around by (auto simp: good_name_def)
  then have "trim_space n = n"
    using trim_space_around [of "[]" "[]" n] by (simp add: good_name_def blanks_def)
  with Flag n show ?thesis
    by (simp add: directive_def good_name_def go_cut_absent to_lower_ascii go_trim_def trim_space_visible visible_def)
next
  case (Setting a n b q v c d)
  let ?v = "if q then CHR 0x22 # v @ [CHR 0x22] else v"
  let ?w = "n @ b @ ''='' @ c @ ?v"
  have w: "good_name n" "blanks a" "blanks b" "blanks c" "blanks d" "CHR 0x22 \<notin> set v" "q \<or> trimmed v"
    using assms Setting by simp_all
  have v: "trimmed ?v"
    using w(7) by (auto simp: trimmed_def visible_def of_char_of)
  have name: "trim_space (n @ b) = n"
    using trim_space_around [of "[]" b n] w(1,3) by (simp add: good_name_def blanks_def)
  have unquote: "go_trim (CHR 0x22) ?v = v"
    using w(6) by (simp add: go_trim_quoted go_trim_absent)
  obtain rest where cut: "go_cut (CHR ''='') (trim_space (write_element x)) = (n @ b, rest)" "trim_space rest = ?v"
  proof (cases "?v = []")
    case True
    have "trimmed (n @ b @ ''='')"
      using w(1) by (auto simp: good_name_def trimmed_def visible_def of_char_of)
    then have "trim_space (a @ (n @ b @ ''='') @ (c @ d)) = n @ b @ ''=''"
      using w by (intro trim_space_around) simp_all
    moreover have "go_cut (CHR ''='') ((n @ b) @ CHR ''='' # []) = (n @ b, [])"
      using w(1,3) blanks_free by (intro go_cut_first) (auto simp: good_name_def)
    ultimately show ?thesis
      using True that [of "[]"] Setting trim_blanks [of "[]"] by (simp add: blanks_def split: if_splits)
  next
    case False
    then have "trimmed ?w"
      using w(1) v by (auto simp: good_name_def trimmed_def visible_def)
    then have "trim_space (a @ ?w @ d) = ?w"
      using w by (intro trim_space_around)
    moreover have "go_cut (CHR ''='') ((n @ b) @ CHR ''='' # c @ ?v) = (n @ b, c @ ?v)"
      using w(1,3) blanks_free by (intro go_cut_first) (auto simp: good_name_def)
    moreover have "trim_space (c @ ?v) = ?v"
      using trim_space_around [of c "[]" ?v] w(4) v by (simp add: blanks_def)
    ultimately show ?thesis
      using that [of "c @ ?v"] Setting by simp
  qed
  show ?thesis
    using w(1) name unquote unfolding directive_def cut(1)
    by (simp add: cut(2) to_lower_ascii good_name_def Setting)
qed

lemma parse_written:
  assumes "list_all well_written xs"
  shows "parseCacheControl (written (map write_element xs)) = map_of (rev (concat (map meaning xs)))"
proof (cases "xs = []")
  case True
  then show ?thesis by (simp add: parseCacheControl_def)
next
  case False
  have "CHR '','' \<notin> set (write_element x)" if "well_written x" for x
    using that blanks_free by (cases x) (auto simp: good_name_def)
  then have split: "go_split (CHR '','') (written (map write_element xs)) = map write_element xs"
    using assms False by (intro go_split_written) (auto simp: list_all_iff)
  have "filter (\<lambda>d. fst d \<noteq> []) (map directive (map write_element ys)) = concat (map meaning ys)"
    if "list_all well_written ys" for ys
    using that
  proof (induction ys)
    case (Cons y ys)
    then have y: "filter (\<lambda>d. fst d \<noteq> []) [directive (write_element y)] = meaning y"
      by (intro directive_written) simp
    have "filter (\<lambda>d. fst d \<noteq> []) (map directive (map write_element (y # ys)))
        = filter (\<lambda>d. fst d \<noteq> []) [directive (write_element y)] @ filter (\<lambda>d. fst d \<noteq> []) (map directive (map write_element ys))"
      by simp
    then show ?case using Cons y by simp
  qed simp
  then show ?thesis
    by (simp only: parseCacheControl_eq split assms)
qed

text \<open>The names of a \<open>Vary\<close> header, each with the blanks around it.\<close>

definition write_name :: "string \<times> string \<times> string \<Rightarrow> string" where
  "write_name x = (case x of (a, n, b) \<Rightarrow> a @ n @ b)"

definition named :: "string \<times> string \<times> string \<Rightarrow> bool" where
  "named x \<longleftrightarrow> (case x of (a, n, b) \<Rightarrow> blanks a \<and> blanks b \<and> trimmed n \<and> CHR '','' \<notin> set n)"

lemma vary_written:
  assumes "list_all named xs" and "written (map write_name xs) \<noteq> ''*''"
  shows "parseVaryHeader (written (map write_name xs)) = map canonical_header_key (filter (\<lambda>n. n \<noteq> []) (map (fst \<circ> snd) xs))"
proof -
  have trim: "trim_space (write_name x) = fst (snd x)" if "named x" for x
    using that by (auto simp: named_def write_name_def trim_space_around)
  have free: "list_all (\<lambda>s. CHR '','' \<notin> set s) (map write_name xs)"
    using assms(1) blanks_free by (fastforce simp: list_all_iff named_def write_name_def)
  have names: "map trim_space (map write_name xs) = map (fst \<circ> snd) xs"
    using assms(1) trim by (auto simp: list_all_iff)
  show ?thesis
  proof (cases "written (map write_name xs) = []")
    case True
    have "filter (\<lambda>n. n \<noteq> []) (map (fst \<circ> snd) xs) = []"
    proof (cases "xs = []")
      case False
      then have "map write_name xs = [[]]"
        using go_split_written [OF free] True by simp
      then have "map (fst \<circ> snd) xs = [[]]"
        unfolding names [symmetric] using trim_blanks [of "[]"] by (simp add: blanks_def)
      then show ?thesis by (simp only: filter.simps simp_thms if_False)
    qed simp
    with True show ?thesis by (simp add: parseVaryHeader_def)
  next
    case False
    then have "xs \<noteq> []"
      by auto
    then have "go_split (CHR '','') (written (map write_name xs)) = map write_name xs"
      using go_split_written [OF free] by simp
    with False assms(2) names show ?thesis
      by (simp add: parseVaryHeader_def vary_names_trim del: map_map)
  qed
qed

section \<open>Properties\<close>

text \<open>C31. Reading a header gives back what was written, however it was laid out. The directives of a
  \<open>Cache-Control\<close> header are read as the map of their names, in lower case, to their values,
  without quotes, in which the last of two equal names wins; and the names of a \<open>Vary\<close> header
  are read in their canonical form and in order, unless the whole header is \<open>*\<close>. Empty elements
  are skipped, and blanks and tabs around an element, its name and its value do not count. The
  names and values may hold anything but a comma, the names are ASCII without \<open>=\<close>, the values hold no
  quote of their own, and what is not quoted begins and ends with a visible ASCII character.\<close>

theorem caching_headers_roundtrip:
  "(list_all well_written xs \<longrightarrow>
      parseCacheControl (written (map write_element xs)) = map_of (rev (concat (map meaning xs))))
   \<and> (list_all named ns \<and> written (map write_name ns) \<noteq> ''*'' \<longrightarrow>
      parseVaryHeader (written (map write_name ns)) = map canonical_header_key (filter (\<lambda>n. n \<noteq> []) (map (fst \<circ> snd) ns)))"
  using parse_written vary_written by blast

theorem caching_headers_roundtrip_witness:
  "parseCacheControl '' No-Store,, max-age = \"60\"'' = [''no-store'' \<mapsto> [], ''max-age'' \<mapsto> ''60'']
   \<and> parseVaryHeader ''accept , X-a'' = [''Accept'', ''X-A'']"
proof
  let ?xs = "[Flag '' '' ''No-Store'' [], Left_Empty [], Setting '' '' ''max-age'' '' '' True ''60'' '' '' []]"
  have xs: "list_all well_written ?xs" and names: "concat (map meaning ?xs) = [(''no-store'', []), (''max-age'', ''60'')]"
    by code_simp+
  have header: "written (map write_element ?xs) = '' No-Store,, max-age = \"60\"''"
    by simp
  show "parseCacheControl '' No-Store,, max-age = \"60\"'' = [''no-store'' \<mapsto> [], ''max-age'' \<mapsto> ''60'']"
    using caching_headers_roundtrip [of ?xs "[]"] xs unfolding names header by (simp add: fun_upd_twist)
  let ?ns = "[([], ''accept'', '' ''), ('' '', ''X-a'', [])]"
  have "map canonical_header_key [''accept'', ''X-a''] = [''Accept'', ''X-A'']" "list_all named ?ns"
    by code_simp+
  then show "parseVaryHeader ''accept , X-a'' = [''Accept'', ''X-A'']"
    using caching_headers_roundtrip [of "[]" ?ns] by (simp add: write_name_def)
qed

text \<open>C32. The lifetime of a response is exact: \<open>s-maxage\<close> seconds when the header gives one, otherwise
  \<open>max-age\<close> seconds, as long as they fit in a \<open>Duration\<close> (292 years); and the lifetime of
  the rule when it gives neither.\<close>

theorem cache_ttl_exact:
  assumes "list_all plain_directive ds"
  shows "(asked_lifetime ds n \<and> n \<le> 9223372036 \<longrightarrow>
       sint (cacheControlTTL (parseCacheControl (print_directives ds)) fb) = int n * 10 ^ 9)
     \<and> (ccSMaxAge \<notin> fst ` set ds \<and> ccMaxAge \<notin> fst ` set ds \<longrightarrow>
       cacheControlTTL (parseCacheControl (print_directives ds)) fb = fb)"
proof (intro conjI impI)
  assume n: "asked_lifetime ds n \<and> n \<le> 9223372036"
  then have "cacheControlTTL (parseCacheControl (print_directives ds)) fb = word_of_int (int n * 10 ^ 9)"
    by (intro ttl_asked [OF assms]) simp_all
  moreover have "sint (word_of_int (int n * 10 ^ 9) :: int64) = int n * 10 ^ 9"
    using n by (intro sint_word_of_int64) simp_all
  ultimately show "sint (cacheControlTTL (parseCacheControl (print_directives ds)) fb) = int n * 10 ^ 9"
    by (rule trans [OF arg_cong])
next
  assume "ccSMaxAge \<notin> fst ` set ds \<and> ccMaxAge \<notin> fst ` set ds"
  then have "map_of (rev ds) ccSMaxAge = None" "map_of (rev ds) ccMaxAge = None"
    by (simp_all add: map_of_eq_None_iff)
  then show "cacheControlTTL (parseCacheControl (print_directives ds)) fb = fb"
    by (simp add: cacheControlTTL_def parse_print_directives [OF assms])
qed

lemma itoa_sixty [simp]: "itoa 60 = ''60''"
  by code_simp

theorem cache_ttl_exact_witness:
  "sint (cacheControlTTL (parseCacheControl (print_directives [(''max-age'', ''9''), (''s-maxage'', ''60'')])) 7) = 60 * 10 ^ 9"
proof -
  have "list_all plain_directive [(''max-age'', ''9''), (''s-maxage'', ''60'')]"
    by code_simp
  from cache_ttl_exact [OF this, of 60 7] show ?thesis
    by (simp add: asked_lifetime_def ccSMaxAge_def)
qed

text \<open>A lifetime above 9223372036 seconds wraps: any value from there up to 18446744073 seconds makes the
  stored entry expired from the moment it is cached.\<close>

theorem cache_ttl_wraps:
  assumes "list_all plain_directive ds" and "asked_lifetime ds n" and "9223372037 \<le> n" and "n \<le> 18446744073"
    and "e_TTL e = cacheControlTTL (parseCacheControl (print_directives ds)) fb" and "e_CachedAt e \<le> now"
  shows "expired now e"
proof -
  have wrap: "word_of_int (int n * 10 ^ 9) = (word_of_int (int n * 10 ^ 9 - 2 ^ 64) :: int64)"
    by (rule word_of_int_eq_iff [THEN iffD2]) (simp add: take_bit_eq_mod)
  have "e_TTL e = word_of_int (int n * 10 ^ 9 - 2 ^ 64)"
    unfolding assms(5) wrap [symmetric] using assms(2-4) by (intro ttl_asked [OF assms(1)]) simp_all
  moreover have "sint (word_of_int (int n * 10 ^ 9 - 2 ^ 64) :: int64) = int n * 10 ^ 9 - 2 ^ 64"
    using assms(3,4) by (intro sint_word_of_int64) simp_all
  ultimately have "sint (e_TTL e) < 0"
    using assms(4) by simp
  with assms(6) show ?thesis
    by (simp add: expired_def sint_time_sub)
qed

theorem cache_ttl_wraps_witness:
  "expired 0 (sample_entry [] 0 (cacheControlTTL (parseCacheControl (print_directives [(''max-age'', ''9999999999'')])) 0))"
proof (rule cache_ttl_wraps [of "[(''max-age'', ''9999999999'')]" 9999999999])
  show "list_all plain_directive [(''max-age'', ''9999999999'')]"
    by code_simp
  have "itoa 9999999999 = ''9999999999''"
    by (simp add: itoa.simps char_of_def bit_simps)
  then show "asked_lifetime [(''max-age'', ''9999999999'')] 9999999999"
    by (simp add: asked_lifetime_def ccSMaxAge_def ccMaxAge_def)
qed (simp_all add: sample_entry_def)

text \<open>A response is refused for caching exactly when some comma-separated part of the header names
  \<open>no-store\<close> or \<open>private\<close>, whatever its case, the blanks around it and its value;
  \<open>no-cache\<close> does not keep a response out of the cache.\<close>

theorem response_cacheable_iff:
  "(responseCacheable (parseCacheControl h) \<longleftrightarrow>
      (\<forall>p \<in> set (go_split (CHR '','') h). to_lower (trim_space (fst (go_cut (CHR ''='') (trim_space p)))) \<notin> {ccNoStore, ccPrivate}))
   \<and> responseCacheable (parseCacheControl ''no-cache'')"
proof -
  have "fst (directive p) = to_lower (trim_space (fst (go_cut (CHR ''='') (trim_space p))))" for p
    by (simp add: directive_def split: prod.split)
  then have main: "responseCacheable (parseCacheControl h) \<longleftrightarrow>
      (\<forall>p \<in> set (go_split (CHR '','') h). to_lower (trim_space (fst (go_cut (CHR ''='') (trim_space p)))) \<notin> {ccNoStore, ccPrivate})" for h
    using parseCacheControl_dom [of ccNoStore h] parseCacheControl_dom [of ccPrivate h]
    by (auto simp: responseCacheable_def ccNoStore_def ccPrivate_def)
  have "parseCacheControl (print_directives [(''no-cache'', [])]) = map_of (rev [(''no-cache'', [])])"
    by (rule parse_print_directives) code_simp
  then have "responseCacheable (parseCacheControl ''no-cache'')"
    by (simp add: print_directives_def print_directive_def responseCacheable_def ccNoStore_def ccPrivate_def)
  with main show ?thesis by blast
qed

theorem response_cacheable_iff_witness:
  "\<not> responseCacheable (parseCacheControl ''no-store'')"
proof -
  have plain: "plain_directive (''no-store'', [])"
    by code_simp
  then have "trim_space ''no-store'' = ''no-store''" "go_cut (CHR ''='') ''no-store'' = (''no-store'', [])" "ascii ''no-store''"
    "map lower_char ''no-store'' = ''no-store''"
    by (simp_all add: plain_directive_def plain_def trim_space_visible go_cut_absent visible_ascii)
  then have "to_lower (trim_space (fst (go_cut (CHR ''='') (trim_space ''no-store'')))) = ccNoStore"
    by (simp add: to_lower_ascii ccNoStore_def)
  moreover have "go_split (CHR '','') ''no-store'' = [''no-store'']"
    by code_simp
  ultimately show ?thesis
    using response_cacheable_iff [of "''no-store''"] by simp
qed

text \<open>Merging two vary lists gives the union of their canonical names, sorted and without duplicates,
  whatever order the set is walked in; merging again adds nothing, and the two lists
  may be exchanged unless one of them is empty (an empty second list leaves the first
  as it is, canonical or not).\<close>

theorem merge_vary_canonical:
  assumes "b \<noteq> []"
  shows "sorted (mergeVaryHeaders ord a b) \<and> distinct (mergeVaryHeaders ord a b)
    \<and> set (mergeVaryHeaders ord a b) = canonical_names a \<union> canonical_names b
    \<and> mergeVaryHeaders ord' (mergeVaryHeaders ord a b) b = mergeVaryHeaders ord a b
    \<and> (a \<noteq> [] \<longrightarrow> mergeVaryHeaders ord' b a = mergeVaryHeaders ord a b)
    \<and> mergeVaryHeaders ord a [] = a"
proof -
  have "canonical_names (sorted_list_of_set (canonical_names a \<union> canonical_names b)) \<union> canonical_names b
      = canonical_names a \<union> canonical_names b"
    using canonical_names_merged [of "a @ b"] by (auto simp: canonical_names_Un)
  with assms show ?thesis
    by (auto simp: mergeVaryHeaders_eq Un_commute)
qed

theorem merge_vary_canonical_witness:
  "sorted (mergeVaryHeaders id [''accept''] [''X-a'']) \<and> mergeVaryHeaders rev [''X-a''] [''accept''] = mergeVaryHeaders id [''accept''] [''X-a'']"
  using merge_vary_canonical [of "[''X-a'']" id "[''accept'']" rev] by simp

end
