(* ===== verification/Cache_Policy.thy ===== *)
theory Cache_Policy
imports Cache_Key
begin

text \<open>
  \<open>internal/policy\<close>: the rules that say which requests are cached (\<open>policy.go\<close>). A
  label selector is a value of an interface of \<open>k8s.io/apimachinery\<close>, which is not
  part of the repository: it is a record of what its methods answer (\<open>Empty\<close>,
  \<open>Matches\<close> and the number of \<open>Requirements\<close>). The locale \<open>rule_scan\<close> states what the three
  loops over the rules have in common: the first rule that passes a filter.
\<close>

section \<open>The definitions\<close>

record selector =
  sel_Empty :: bool
  sel_Matches :: "labels \<Rightarrow> bool"
  sel_Requirements :: nat

record rule =
  Namespace :: string
  PodSelector :: "selector option"
  Host :: string
  RPort :: uint16
  Methods :: "string list"
  Paths :: "string list"
  TTL :: int64
  CacheBody :: bool
  RVaryHeaders :: "string list"
  MaxBodyBytes :: int64

definition KeyConfig :: "rule \<Rightarrow> key_config" where
  "KeyConfig r = \<lparr>IncludeBody = CacheBody r, VaryHeaders = RVaryHeaders r, Port = 0\<rparr>"

record policy =
  rules :: "rule list"

definition new_policy :: "rule list \<Rightarrow> policy" where
  "new_policy rs = \<lparr>rules = rs\<rparr>"

fun methodAllowed :: "string list \<Rightarrow> string \<Rightarrow> bool" where
  "methodAllowed [] meth = False"
| "methodAllowed (m # ms) meth = (if m = meth then True else methodAllowed ms meth)"

fun pathAllowed :: "string list \<Rightarrow> string \<Rightarrow> bool" where
  "pathAllowed [] path = False"
| "pathAllowed (p # ps) path = (if prefix p path then True else pathAllowed ps path)"

definition strip_port :: "string \<Rightarrow> string" where
  "strip_port host = (case split_host_port host of Some (h, p) \<Rightarrow> h | None \<Rightarrow> host)"

text \<open>The \<open>continue\<close> tests that \<open>Match\<close> and \<open>Covered\<close> share, and those on host and port.\<close>

definition wrong_namespace :: "rule \<Rightarrow> string \<Rightarrow> bool" where
  "wrong_namespace r ns \<longleftrightarrow> Namespace r \<noteq> [] \<and> Namespace r \<noteq> ns"

definition wrong_pod :: "rule \<Rightarrow> labels \<Rightarrow> bool" where
  "wrong_pod r ls \<longleftrightarrow>
     (case PodSelector r of None \<Rightarrow> False | Some s \<Rightarrow> \<not> sel_Empty s \<and> \<not> sel_Matches s ls)"

definition wrong_port :: "rule \<Rightarrow> uint16 \<Rightarrow> bool" where
  "wrong_port r port \<longleftrightarrow> RPort r \<noteq> 0 \<and> RPort r \<noteq> port"

definition wrong_host :: "rule \<Rightarrow> string \<Rightarrow> bool" where
  "wrong_host r host \<longleftrightarrow> Host r \<noteq> ''*'' \<and> Host r \<noteq> host"

fun match_rules :: "rule list \<Rightarrow> string \<Rightarrow> labels \<Rightarrow> string \<Rightarrow> uint16 \<Rightarrow> string \<Rightarrow> string \<Rightarrow> rule option" where
  "match_rules [] ns ls host port meth path = None"
| "match_rules (r # rs) ns ls host port meth path =
     (if wrong_namespace r ns then match_rules rs ns ls host port meth path
      else if wrong_pod r ls then match_rules rs ns ls host port meth path
      else if wrong_port r port then match_rules rs ns ls host port meth path
      else if wrong_host r host then match_rules rs ns ls host port meth path
      else if Methods r \<noteq> [] \<and> \<not> methodAllowed (Methods r) meth
        then match_rules rs ns ls host port meth path
      else if Paths r \<noteq> [] \<and> \<not> pathAllowed (Paths r) path
        then match_rules rs ns ls host port meth path
      else Some r)"

definition Match :: "policy \<Rightarrow> string \<Rightarrow> labels \<Rightarrow> string \<Rightarrow> uint16 \<Rightarrow> string \<Rightarrow> string \<Rightarrow> rule option" where
  "Match p ns ls host port meth path = match_rules (rules p) ns ls (strip_port host) port meth path"

fun covered_rules :: "rule list \<Rightarrow> string \<Rightarrow> labels \<Rightarrow> bool" where
  "covered_rules [] ns ls = False"
| "covered_rules (r # rs) ns ls =
     (if wrong_namespace r ns then covered_rules rs ns ls
      else if wrong_pod r ls then covered_rules rs ns ls
      else True)"

definition Covered :: "policy \<Rightarrow> string \<Rightarrow> labels \<Rightarrow> bool" where
  "Covered p ns ls = covered_rules (rules p) ns ls"

fun has_rule :: "rule list \<Rightarrow> string \<Rightarrow> uint16 \<Rightarrow> bool" where
  "has_rule [] host port = False"
| "has_rule (r # rs) host port =
     (if wrong_port r port then has_rule rs host port
      else if wrong_host r host then has_rule rs host port
      else True)"

definition HasRuleForHostPort :: "policy \<Rightarrow> string \<Rightarrow> uint16 \<Rightarrow> bool" where
  "HasRuleForHostPort p host port = has_rule (rules p) (strip_port host) port"

section \<open>Scanning a list of rules\<close>

text \<open>
  A scan is determined by its filter: it returns the first element that passes. The
  laws are the two equations of the loop; the locale derives the rest once, for the
  loop that returns a rule and for the loops that return a truth value.
\<close>

locale rule_scan =
  fixes passes :: "'r \<Rightarrow> bool"
    and scan :: "'r list \<Rightarrow> 'r option"
  assumes scan_Nil: "scan [] = None"
    and scan_Cons: "scan (r # rs) = (if passes r then Some r else scan rs)"
begin

lemma scan_find: "scan rs = find passes rs"
  by (induction rs) (simp_all add: scan_Nil scan_Cons)

lemma scan_None: "scan rs = None \<longleftrightarrow> (\<forall>r \<in> set rs. \<not> passes r)"
  by (induction rs) (simp_all add: scan_Nil scan_Cons)

lemma scan_append: "scan (as @ bs) = (case scan as of None \<Rightarrow> scan bs | Some r \<Rightarrow> Some r)"
  by (induction as) (simp_all add: scan_Nil scan_Cons)

lemma scan_SomeD:
  "scan rs = Some r \<Longrightarrow> \<exists>before rest. rs = before @ r # rest \<and> passes r \<and> (\<forall>q \<in> set before. \<not> passes q)"
proof (induction rs)
  case (Cons q rs)
  show ?case
  proof (cases "passes q")
    case True
    with Cons.prems have "q # rs = [] @ r # rs" by (simp add: scan_Cons)
    with True Cons.prems show ?thesis by (metis empty_iff list.set(1) option.inject scan_Cons)
  next
    case False
    with Cons obtain before rest where "rs = before @ r # rest \<and> passes r \<and> (\<forall>q \<in> set before. \<not> passes q)"
      by (auto simp: scan_Cons)
    then have "q # rs = (q # before) @ r # rest \<and> passes r \<and> (\<forall>p \<in> set (q # before). \<not> passes p)"
      using False by simp
    then show ?thesis by blast
  qed
qed (simp add: scan_Nil)

lemma scan_Some:
  "scan rs = Some r \<longleftrightarrow> (\<exists>before rest. rs = before @ r # rest \<and> passes r \<and> (\<forall>q \<in> set before. \<not> passes q))"
proof
  assume "\<exists>before rest. rs = before @ r # rest \<and> passes r \<and> (\<forall>q \<in> set before. \<not> passes q)"
  then obtain before rest where "rs = before @ r # rest" "passes r" "scan before = None"
    using scan_None by blast
  then show "scan rs = Some r" by (simp add: scan_append scan_Cons)
qed (rule scan_SomeD)

lemma scan_mem: "scan rs = Some r \<Longrightarrow> r \<in> set rs \<and> passes r"
  by (auto simp: scan_Some)

lemma scan_filter: "scan (filter passes rs) = scan rs"
  by (induction rs) (simp_all add: scan_Nil scan_Cons)

lemma scan_skips: "\<not> passes q \<Longrightarrow> scan (as @ q # bs) = scan (as @ bs)"
  by (simp add: scan_append scan_Cons split: option.split)

end

section \<open>The three filters\<close>

definition rule_applies :: "string \<Rightarrow> labels \<Rightarrow> rule \<Rightarrow> bool" where
  "rule_applies ns ls r \<longleftrightarrow> (Namespace r = [] \<or> Namespace r = ns)
     \<and> (case PodSelector r of None \<Rightarrow> True | Some s \<Rightarrow> sel_Empty s \<or> sel_Matches s ls)"

definition rule_targets :: "string \<Rightarrow> uint16 \<Rightarrow> rule \<Rightarrow> bool" where
  "rule_targets host port r \<longleftrightarrow> (RPort r = 0 \<or> RPort r = port) \<and> (Host r = ''*'' \<or> Host r = host)"

definition rule_allows :: "string \<Rightarrow> string \<Rightarrow> rule \<Rightarrow> bool" where
  "rule_allows meth path r \<longleftrightarrow> (Methods r = [] \<or> meth \<in> set (Methods r))
     \<and> (Paths r = [] \<or> (\<exists>p \<in> set (Paths r). prefix p path))"

definition rule_matches :: "string \<Rightarrow> labels \<Rightarrow> string \<Rightarrow> uint16 \<Rightarrow> string \<Rightarrow> string \<Rightarrow> rule \<Rightarrow> bool" where
  "rule_matches ns ls host port meth path r \<longleftrightarrow>
     rule_applies ns ls r \<and> rule_targets host port r \<and> rule_allows meth path r"

lemma rule_applies_iff: "rule_applies ns ls r \<longleftrightarrow> \<not> wrong_namespace r ns \<and> \<not> wrong_pod r ls"
  by (simp add: rule_applies_def wrong_namespace_def wrong_pod_def split: option.split)

lemma rule_targets_iff: "rule_targets host port r \<longleftrightarrow> \<not> wrong_port r port \<and> \<not> wrong_host r host"
  by (auto simp: rule_targets_def wrong_port_def wrong_host_def)

lemma methodAllowed_iff: "methodAllowed ms m \<longleftrightarrow> m \<in> set ms"
  by (induction ms m rule: methodAllowed.induct) auto

lemma pathAllowed_iff: "pathAllowed ps p \<longleftrightarrow> (\<exists>q \<in> set ps. prefix q p)"
  by (induction ps p rule: pathAllowed.induct) auto

lemma strip_port_plain: "CHR '':'' \<notin> set host \<Longrightarrow> strip_port host = host"
  by (simp add: strip_port_def split_host_port_no_colon)

interpretation ms: rule_scan "rule_matches ns ls host port meth path"
    "\<lambda>rs. match_rules rs ns ls host port meth path"
  for ns ls host port meth path
  by unfold_locales
    (auto simp: rule_matches_def rule_applies_iff rule_targets_iff rule_allows_def methodAllowed_iff pathAllowed_iff)

lemma covered_rules_iff: "covered_rules rs ns ls \<longleftrightarrow> (\<exists>r \<in> set rs. rule_applies ns ls r)"
  by (induction rs ns ls rule: covered_rules.induct) (auto simp: rule_applies_iff)

lemma has_rule_iff: "has_rule rs host port \<longleftrightarrow> (\<exists>r \<in> set rs. rule_targets host port r)"
  by (induction rs host port rule: has_rule.induct) (auto simp: rule_targets_iff)

section \<open>Properties\<close>

definition sample_rule :: rule where
  "sample_rule =
     \<lparr>Namespace = ''team-a'', PodSelector = None, Host = ''api'', RPort = 443, Methods = [''GET''], Paths = [''/v1/''],
      TTL = 60000000000, CacheBody = False, RVaryHeaders = [], MaxBodyBytes = 0\<rparr>"

text \<open>C30. \<open>Match\<close> returns the first rule of the list whose namespace, pod selector, port, host,
  methods and path prefixes all admit the request, the host taken without its port;
  it returns no rule exactly when none admits it.\<close>

theorem match_first:
  "(Match p ns ls host port meth path = Some r \<longleftrightarrow>
      (\<exists>before rest. rules p = before @ r # rest \<and> rule_matches ns ls (strip_port host) port meth path r
        \<and> (\<forall>q \<in> set before. \<not> rule_matches ns ls (strip_port host) port meth path q)))
   \<and> (Match p ns ls host port meth path = None \<longleftrightarrow>
      (\<forall>q \<in> set (rules p). \<not> rule_matches ns ls (strip_port host) port meth path q))"
  by (simp add: Match_def ms.scan_Some ms.scan_None)

theorem match_first_witness:
  "Match (new_policy [sample_rule\<lparr>Host := ''*'', RPort := 80\<rparr>, sample_rule]) ''team-a'' Map.empty ''api:443'' 443 ''GET'' ''/v1/x''
     = Some sample_rule"
proof -
  have host: "strip_port ''api:443'' = ''api''"
    by code_simp
  have "rule_matches ''team-a'' Map.empty ''api'' 443 ''GET'' ''/v1/x'' sample_rule"
    by (simp add: rule_matches_def rule_applies_def rule_targets_def rule_allows_def sample_rule_def)
  moreover have "\<not> rule_matches ''team-a'' Map.empty ''api'' 443 ''GET'' ''/v1/x'' (sample_rule\<lparr>Host := ''*'', RPort := 80\<rparr>)"
    by (simp add: rule_matches_def rule_targets_def sample_rule_def)
  ultimately show ?thesis
    unfolding match_first [THEN conjunct1] host
    by (intro exI [of _ "[sample_rule\<lparr>Host := ''*'', RPort := 80\<rparr>]"] exI [of _ "[]"]) (simp add: new_policy_def)
qed

text \<open>The two gates in front of \<open>Match\<close> never lose a cacheable request: when a rule matches a request,
  the pod is covered (so its interface is attached) and the pre-interception test on
  host and port passes.\<close>

theorem match_passes_gates:
  assumes "Match p ns ls host port meth path = Some r"
  shows "Covered p ns ls \<and> HasRuleForHostPort p host port"
  using ms.scan_mem assms
  by (fastforce simp: Match_def Covered_def covered_rules_iff HasRuleForHostPort_def has_rule_iff rule_matches_def)

theorem match_passes_gates_witness:
  "Covered (new_policy [sample_rule]) ''team-a'' Map.empty \<and> HasRuleForHostPort (new_policy [sample_rule]) ''api'' 443"
proof (rule match_passes_gates)
  have "strip_port ''api'' = ''api''"
    by code_simp
  then show "Match (new_policy [sample_rule]) ''team-a'' Map.empty ''api'' 443 ''GET'' ''/v1/x'' = Some sample_rule"
    by (simp add: Match_def new_policy_def sample_rule_def wrong_namespace_def wrong_pod_def wrong_port_def wrong_host_def)
qed

text \<open>The gate on attachment is exact: when no rule names a port in its host, a pod is covered if and
  only if some request it could make would match a rule.\<close>

theorem covered_exact:
  assumes "\<forall>r \<in> set (rules p). CHR '':'' \<notin> set (Host r)"
  shows "Covered p ns ls \<longleftrightarrow> (\<exists>host port meth path. Match p ns ls host port meth path \<noteq> None)"
proof
  assume "Covered p ns ls"
  then obtain r where r: "r \<in> set (rules p)" "rule_applies ns ls r"
    by (auto simp: Covered_def covered_rules_iff)
  have "rule_targets (strip_port (Host r)) (RPort r) r"
    using assms r(1) by (simp add: strip_port_plain rule_targets_def)
  moreover obtain meth where "Methods r = [] \<or> meth \<in> set (Methods r)"
    by (cases "Methods r") auto
  moreover obtain path where "Paths r = [] \<or> (\<exists>p \<in> set (Paths r). prefix p path)"
    by (cases "Paths r") auto
  ultimately have "rule_matches ns ls (strip_port (Host r)) (RPort r) meth path r"
    using r(2) by (simp add: rule_matches_def rule_allows_def)
  with r(1) have "Match p ns ls (Host r) (RPort r) meth path \<noteq> None"
    by (auto simp: Match_def ms.scan_None)
  then show "\<exists>host port meth path. Match p ns ls host port meth path \<noteq> None"
    by blast
next
  assume "\<exists>host port meth path. Match p ns ls host port meth path \<noteq> None"
  then show "Covered p ns ls"
    by (auto simp: Match_def ms.scan_None Covered_def covered_rules_iff rule_matches_def)
qed

theorem covered_exact_witness:
  "Covered (new_policy [sample_rule]) ''team-a'' Map.empty
     \<longleftrightarrow> (\<exists>host port meth path. Match (new_policy [sample_rule]) ''team-a'' Map.empty host port meth path \<noteq> None)"
  by (rule covered_exact) (simp add: new_policy_def sample_rule_def)

text \<open>The gate for interception ignores namespaces and pods: there is a policy whose only rule is for
  one namespace and that makes the proxy intercept the TLS connections of pods of every
  other namespace to that host, although no request of theirs can match.\<close>

theorem gate_ignores_namespace:
  "\<exists>p host port. HasRuleForHostPort p host port
     \<and> (\<forall>ns ls meth path. ns \<noteq> ''team-a'' \<longrightarrow> Match p ns ls host port meth path = None)"
proof -
  have h: "strip_port ''api'' = ''api''"
    by code_simp
  let ?p = "new_policy [sample_rule]"
  have "HasRuleForHostPort ?p ''api'' 443"
    by (simp add: HasRuleForHostPort_def h new_policy_def wrong_port_def wrong_host_def sample_rule_def)
  moreover have "Match ?p ns ls ''api'' 443 meth path = None" if "ns \<noteq> ''team-a''" for ns ls meth path
    using that by (simp add: Match_def new_policy_def wrong_namespace_def sample_rule_def)
  ultimately show ?thesis by blast
qed

theorem gate_ignores_namespace_witness:
  "\<exists>p host port. HasRuleForHostPort p host port \<and> Match p ''team-b'' Map.empty host port ''GET'' ''/v1/x'' = None"
  using gate_ignores_namespace by force

end
