(* ===== verification/Proxy_Request.thy ===== *)
theory Proxy_Request
imports Http_Caching Cache_Policy
begin

text \<open>
  The handler of one request (\<open>handleRequest\<close> and \<open>fetchUpstream\<close> of
  \<open>internal/proxy/proxy.go\<close>). The state is the record \<open>proxy\<close>; a run of the handler
  takes the request and an environment (the clock where the code reads it, the walk
  orders, what dialling and the exchange with the upstream answer) to a new state
  and the list of its effects on the network. Logging is not modelled; the metrics
  are, as a list of observations, without the measured latencies.
\<close>

section \<open>State, environment, effects\<close>

datatype metric =
    Requests string string string string
  | RequestSize string string nat
  | ResponseSize string string string nat
  | HitLatency string string
  | UpstreamLatency string string
  | SkipRequestBodyTooLarge string
  | SkipBodyTooLarge string
  | BPFRedirect

record proxy =
  px_cache :: store
  px_policy :: policy
  px_maxBodyBytes :: int64
  px_varyIndex :: "string \<rightharpoonup> string list"
  px_has_ca :: bool
  px_metrics :: "metric list"

definition new_proxy :: "store \<Rightarrow> policy \<Rightarrow> int64 \<Rightarrow> bool \<Rightarrow> proxy" where
  "new_proxy c pol maxb ca =
     \<lparr>px_cache = c, px_policy = pol, px_maxBodyBytes = maxb, px_varyIndex = Map.empty, px_has_ca = ca,
      px_metrics = []\<rparr>"

definition SetPolicy :: "policy \<Rightarrow> proxy \<Rightarrow> proxy" where
  "SetPolicy pol p = p\<lparr>px_policy := pol\<rparr>"

definition observe :: "metric \<Rightarrow> proxy \<Rightarrow> proxy" where
  "observe m p = p\<lparr>px_metrics := px_metrics p @ [m]\<rparr>"

text \<open>What an exchange on a dialled connection gives: writing or reading may fail.\<close>

datatype exchange = Write_Error | Read_Error | Responded response

record http_env =
  up_dial :: "string \<Rightarrow> bool"
  up_exchange :: "string \<Rightarrow> request \<Rightarrow> exchange"
  t_get :: instant
  t_cached :: instant
  t_set :: instant
  set_order :: "(string \<times> entry) order"
  vary_order :: "string order"

datatype effect =
    Dialed string
  | Forwarded string request
  | Wrote response
  | Wrote_raw string

section \<open>The vary index and the replies\<close>

definition lookupVaryIndex :: "string \<Rightarrow> proxy \<Rightarrow> string list" where
  "lookupVaryIndex baseKey p = (case px_varyIndex p baseKey of Some v \<Rightarrow> v | None \<Rightarrow> [])"

definition storeVaryIndex :: "string \<Rightarrow> string list \<Rightarrow> proxy \<Rightarrow> proxy" where
  "storeVaryIndex baseKey hs p =
     (if 0 < length hs then p\<lparr>px_varyIndex := (px_varyIndex p)(baseKey \<mapsto> hs)\<rparr> else p)"

definition replyWCachedEntry :: "entry \<Rightarrow> effect" where
  "replyWCachedEntry e =
     Wrote \<lparr>p_StatusCode = e_StatusCode e, p_Proto = e_Proto e, p_ProtoMajor = e_ProtoMajor e,
       p_ProtoMinor = e_ProtoMinor e, p_Header = header_set (e_Header e) ''X-Cache'' ''HIT'',
       p_Body = bytes_reader (e_Body e)\<rparr>"

definition crlf :: string where
  "crlf = [CHR 0x0D, CHR 0x0A]"

definition writeBadGateway :: effect where
  "writeBadGateway =
     (let body = ''bad gateway'' @ [CHR 0x0A]
      in Wrote_raw (''HTTP/1.1 502 Bad Gateway'' @ crlf @ ''Content-Length: '' @ itoa (length body) @ crlf
           @ ''Content-Type: text/plain'' @ crlf @ crlf @ body))"

section \<open>Fetching from the upstream\<close>

definition is_2xx :: "int \<Rightarrow> bool" where
  "is_2xx status \<longleftrightarrow> 200 \<le> status \<and> status < 300"

definition cacheEntryFromUpstreamResponse :: "instant \<Rightarrow> response \<Rightarrow> bytes \<Rightarrow> entry" where
  "cacheEntryFromUpstreamResponse now resp body =
     \<lparr>e_StatusCode = p_StatusCode resp, e_Header = p_Header resp, e_Proto = p_Proto resp,
      e_ProtoMajor = p_ProtoMajor resp, e_ProtoMinor = p_ProtoMinor resp, e_Body = body,
      e_CachedAt = now, e_TTL = 0\<rparr>"

definition url_path :: "request \<Rightarrow> string" where
  "url_path req = (if u_Path (r_URL req) = [] then ''/'' else u_Path (r_URL req))"

text \<open>The request as it is written to the upstream; the code changes it in place.\<close>

definition wire_request :: "request \<Rightarrow> bytes option \<Rightarrow> request" where
  "wire_request req body =
     (let req1 = (case body of
                    Some b \<Rightarrow> req\<lparr>r_Body := Some (bytes_reader b)\<rparr>
                  | None \<Rightarrow> (case r_Body req of
                               None \<Rightarrow> req\<lparr>r_Body := Some (bytes_reader [])\<rparr>
                             | Some s \<Rightarrow> req))
      in req1\<lparr>r_Header := header_set (r_Header req1) ''Connection'' ''close''\<rparr>)"

text \<open>
  What \<open>fetchUpstream\<close> gives back. \<open>f_closes\<close> counts how often it closed the connection to the
  upstream, and \<open>f_streams\<close> says that the body of the response reads from that connection and
  closes it when it is closed (a \<open>streamingBody\<close>).
\<close>

record fetched =
  f_entry :: "entry option"
  f_resp :: "response option"
  f_req :: request
  f_proxy :: proxy
  f_effects :: "effect list"
  f_closes :: nat
  f_streams :: bool

definition fetchUpstream :: "http_env \<Rightarrow> request \<Rightarrow> bytes option \<Rightarrow> string \<Rightarrow> proxy \<Rightarrow> fetched" where
  "fetchUpstream env req body addr p =
     (if \<not> up_dial env addr then
        \<lparr>f_entry = None, f_resp = None, f_req = req, f_proxy = p, f_effects = [Dialed addr],
         f_closes = 0, f_streams = False\<rparr>
      else
        let req' = wire_request req body;
            failed = \<lparr>f_entry = None, f_resp = None, f_req = req', f_proxy = p,
              f_effects = [Dialed addr, Forwarded addr req'], f_closes = 0, f_streams = False\<rparr>
        in case up_exchange env addr req' of
             Write_Error \<Rightarrow> failed\<lparr>f_closes := 1\<rparr>
           | Read_Error \<Rightarrow> failed\<lparr>f_closes := 1\<rparr>
           | Responded resp \<Rightarrow>
               (let p1 = observe (UpstreamLatency (r_Host req) (url_path req)) p;
                    done = failed\<lparr>f_resp := Some resp, f_proxy := p1\<rparr>
                in if px_maxBodyBytes p = 0 then done\<lparr>f_streams := True\<rparr>
                   else
                     let lr = read_all_limited (px_maxBodyBytes p + 1) (p_Body resp)
                     in if lr_err lr then done\<lparr>f_resp := None, f_closes := 1\<rparr>
                        else if lr_N lr = 0 then
                          done\<lparr>f_resp := Some (resp\<lparr>p_Body := multi_reader (lr_data lr) (lr_rest lr)\<rparr>),
                               f_proxy := (if is_2xx (p_StatusCode resp)
                                           then observe (SkipBodyTooLarge (r_Host req)) p1 else p1), f_streams := True\<rparr>
                        else if is_2xx (p_StatusCode resp) then
                          done\<lparr>f_resp := Some (resp\<lparr>p_Body := bytes_reader (lr_data lr)\<rparr>),
                               f_entry := Some (cacheEntryFromUpstreamResponse (t_cached env) resp (lr_data lr)), f_closes := 1\<rparr>
                        else done\<lparr>f_resp := Some (resp\<lparr>p_Body := bytes_reader (lr_data lr)\<rparr>), f_closes := 1\<rparr>))"

section \<open>The handler\<close>

text \<open>
  Buffering of the request body: the buffered body (\<open>None\<close> for \<open>nil\<close>), whether it was
  too large, and the request with its body replaced. An error of the read is
  ignored, as in the code.
\<close>

definition buffer_body :: "string \<Rightarrow> request \<Rightarrow> proxy \<Rightarrow> bytes option \<times> bool \<times> request \<times> proxy" where
  "buffer_body host req p =
     (case r_Body req of
        None \<Rightarrow> (None, False, req, p)
      | Some orig \<Rightarrow>
          if 0 < sint (px_maxBodyBytes p) then
            let lr = read_all_limited (px_maxBodyBytes p + 1) orig
            in if lr_N lr = 0 then
                 (None, True, req\<lparr>r_Body := Some (multi_reader (lr_data lr) (lr_rest lr))\<rparr>,
                  observe (SkipRequestBodyTooLarge host) p)
               else (Some (lr_data lr), False, req\<lparr>r_Body := None\<rparr>, p)
          else (None, False, req, p))"

definition observe_request_size :: "string \<Rightarrow> request \<Rightarrow> bytes option \<Rightarrow> proxy \<Rightarrow> proxy" where
  "observe_request_size host req body p =
     (case body of
        None \<Rightarrow> p
      | Some b \<Rightarrow> if 0 < length b then observe (RequestSize host (r_Method req) (length b)) p else p)"

definition base_key :: "request \<Rightarrow> uint16 \<Rightarrow> string" where
  "base_key req port = generate req None \<lparr>IncludeBody = False, VaryHeaders = [], Port = port\<rparr>"

definition key_cfg :: "rule \<Rightarrow> uint16 \<Rightarrow> string list \<Rightarrow> key_config" where
  "key_cfg r port vary = (KeyConfig r)\<lparr>Port := port, VaryHeaders := vary\<rparr>"

definition lookup_vary :: "http_env \<Rightarrow> rule \<Rightarrow> request \<Rightarrow> uint16 \<Rightarrow> proxy \<Rightarrow> string list" where
  "lookup_vary env r req port p =
     mergeVaryHeaders (vary_order env) (VaryHeaders (KeyConfig r)) (lookupVaryIndex (base_key req port) p)"

definition lookup_key :: "http_env \<Rightarrow> rule \<Rightarrow> request \<Rightarrow> bytes option \<Rightarrow> uint16 \<Rightarrow> proxy \<Rightarrow> string" where
  "lookup_key env r req body port p = generate req body (key_cfg r port (lookup_vary env r req port p))"

text \<open>The request's own directives, and the lookup they allow.\<close>

definition req_directive :: "request \<Rightarrow> string \<Rightarrow> bool" where
  "req_directive req d \<longleftrightarrow> parseCacheControl (header_get (r_Header req) ''Cache-Control'') d \<noteq> None"

definition lookup_cached :: "http_env \<Rightarrow> request \<Rightarrow> string \<Rightarrow> proxy \<Rightarrow> entry option \<times> store" where
  "lookup_cached env req key p =
     (if \<not> req_directive req ccNoStore \<and> \<not> req_directive req ccNoCache
      then cache_get (t_get env) key (px_cache p) else (None, px_cache p))"

text \<open>What happens to a response that \<open>fetchUpstream\<close> made an entry of.\<close>

definition store_response ::
  "http_env \<Rightarrow> rule \<Rightarrow> string \<Rightarrow> request \<Rightarrow> bytes option \<Rightarrow> uint16 \<Rightarrow> bool \<Rightarrow> string \<Rightarrow> string \<Rightarrow> entry \<Rightarrow> response \<Rightarrow>
   proxy \<Rightarrow> proxy \<times> effect list" where
  "store_response env r host req body port reqNoStore baseKey key e resp p =
     (let respCC = parseCacheControl (header_get (e_Header e) ''Cache-Control'');
          varyHdr = header_get (e_Header e) ''Vary''
      in if varyHdr = ''*'' \<or> reqNoStore \<or> \<not> responseCacheable respCC then
           (observe (Requests host (r_Method req) ''bypass'' (url_path req)) p, [Wrote resp])
         else
           let allVary = mergeVaryHeaders (vary_order env) (VaryHeaders (KeyConfig r)) (parseVaryHeader varyHdr);
               p1 = storeVaryIndex baseKey allVary p;
               storeKey = generate req body (key_cfg r port allVary);
               c1 = (if storeKey \<noteq> key then cache_delete key (px_cache p1) else px_cache p1);
               e1 = e\<lparr>e_TTL := cacheControlTTL respCC (TTL r)\<rparr>;
               c2 = cache_set (set_order env) (t_set env) storeKey e1 c1;
               p2 = observe (ResponseSize host (r_Method req) (url_path req) (length (e_Body e1))) (p1\<lparr>px_cache := c2\<rparr>);
               p3 = observe (Requests host (r_Method req) ''miss'' (url_path req)) p2
           in (p3, [Wrote (resp\<lparr>p_Header := header_set (p_Header resp) ''X-Cache'' ''MISS''\<rparr>)]))"

definition handle_matched ::
  "http_env \<Rightarrow> rule \<Rightarrow> string \<Rightarrow> request \<Rightarrow> bytes option \<Rightarrow> string \<Rightarrow> uint16 \<Rightarrow> proxy \<Rightarrow> proxy \<times> effect list" where
  "handle_matched env r host req body addr port p =
     (let reqNoStore = req_directive req ccNoStore;
          baseKey = base_key req port;
          key = lookup_key env r req body port p;
          (hit, c) = lookup_cached env req key p;
          p0 = p\<lparr>px_cache := c\<rparr>
      in case hit of
           Some e \<Rightarrow>
             (observe (ResponseSize host (r_Method req) (url_path req) (length (e_Body e)))
               (observe (Requests host (r_Method req) ''hit'' (url_path req)) (observe (HitLatency host (url_path req)) p0)),
              [replyWCachedEntry e])
         | None \<Rightarrow>
             (let f = fetchUpstream env req body addr p0
              in case f_resp f of
                   None \<Rightarrow>
                     (observe (Requests host (r_Method req) ''error'' (url_path req)) (f_proxy f),
                      f_effects f @ [writeBadGateway])
                 | Some resp \<Rightarrow>
                     (case f_entry f of
                        Some e \<Rightarrow>
                          (case store_response env r host (f_req f) body port reqNoStore baseKey key e resp (f_proxy f) of
                             (p', eff) \<Rightarrow> (p', f_effects f @ eff))
                      | None \<Rightarrow>
                          (observe (Requests host (r_Method req) ''bypass'' (url_path req)) (f_proxy f),
                           f_effects f @ [Wrote resp]))))"

definition handle_unmatched ::
  "http_env \<Rightarrow> string \<Rightarrow> request \<Rightarrow> bytes option \<Rightarrow> string \<Rightarrow> proxy \<Rightarrow> proxy \<times> effect list" where
  "handle_unmatched env host req body addr p =
     (let f = fetchUpstream env req body addr p
      in case f_resp f of
           None \<Rightarrow>
             (observe (Requests host (r_Method req) ''error'' (url_path req)) (f_proxy f), f_effects f @ [writeBadGateway])
         | Some resp \<Rightarrow>
             (observe (Requests host (r_Method req) ''bypass'' (url_path req)) (f_proxy f), f_effects f @ [Wrote resp]))"

text \<open>
  With a response both handlers end with \<open>resp.Write\<close>, which closes the body when it is done
  with it, and \<open>resp.Body.Close\<close>; \<open>Wrote\<close> stands for the two. A \<open>streamingBody\<close> hands these calls on
  to the connection, which ignores the second. So this is how often somebody gives the
  connection up: \<open>fetchUpstream\<close> itself, or the handler with the body.
\<close>

definition releases :: "fetched \<Rightarrow> nat" where
  "releases f = f_closes f + (case f_resp f of None \<Rightarrow> 0 | Some resp \<Rightarrow> if f_streams f then 1 else 0)"

definition effective_host :: "request \<Rightarrow> string \<Rightarrow> string" where
  "effective_host req addr = (if r_Host req = [] then addr else r_Host req)"

definition handleRequest ::
  "http_env \<Rightarrow> request \<Rightarrow> string \<Rightarrow> uint16 \<Rightarrow> string \<Rightarrow> labels \<Rightarrow> proxy \<Rightarrow> proxy \<times> effect list" where
  "handleRequest env req addr port ns ls p =
     (let host = effective_host req addr;
          (body, tooLarge, req1, p1) = buffer_body host req p;
          p2 = observe_request_size host req1 body p1
      in case Match (px_policy p2) ns ls host port (r_Method req1) (url_path req1) of
           Some r \<Rightarrow>
             if \<not> tooLarge then handle_matched env r host req1 body addr port p2
             else handle_unmatched env host req1 body addr p2
         | None \<Rightarrow> handle_unmatched env host req1 body addr p2)"

section \<open>What the parts keep\<close>

lemma observe_simps [simp]:
  "px_cache (observe m p) = px_cache p" "px_policy (observe m p) = px_policy p"
  "px_maxBodyBytes (observe m p) = px_maxBodyBytes p" "px_varyIndex (observe m p) = px_varyIndex p"
  "px_has_ca (observe m p) = px_has_ca p" "px_metrics (observe m p) = px_metrics p @ [m]"
  by (simp_all add: observe_def)

lemma lookupVaryIndex_observe [simp]: "lookupVaryIndex b (observe m p) = lookupVaryIndex b p"
  by (simp add: lookupVaryIndex_def)

lemma storeVaryIndex_simps [simp]:
  "px_cache (storeVaryIndex b hs p) = px_cache p" "px_policy (storeVaryIndex b hs p) = px_policy p"
  "px_maxBodyBytes (storeVaryIndex b hs p) = px_maxBodyBytes p" "px_has_ca (storeVaryIndex b hs p) = px_has_ca p"
  by (simp_all add: storeVaryIndex_def)

lemma lookup_store_vary [simp]:
  "lookupVaryIndex b (storeVaryIndex b' hs p) = (if b = b' \<and> hs \<noteq> [] then hs else lookupVaryIndex b p)"
  by (simp add: lookupVaryIndex_def storeVaryIndex_def)

lemma wire_request_simps [simp]:
  "r_Method (wire_request req body) = r_Method req" "r_Host (wire_request req body) = r_Host req"
  "r_URL (wire_request req body) = r_URL req"
  "r_Header (wire_request req body) = header_set (r_Header req) ''Connection'' ''close''"
  by (simp_all add: wire_request_def Let_def split: option.splits)

lemma url_path_wire [simp]: "url_path (wire_request req body) = url_path req"
  by (simp add: url_path_def)

lemma KeyConfig_VaryHeaders [simp]: "VaryHeaders (KeyConfig r) = RVaryHeaders r"
  by (simp add: KeyConfig_def)

lemma key_cfg_simps [simp]:
  "Port (key_cfg r port v) = port" "VaryHeaders (key_cfg r port v) = v" "IncludeBody (key_cfg r port v) = CacheBody r"
  by (simp_all add: key_cfg_def KeyConfig_def)

definition same_config :: "proxy \<Rightarrow> proxy \<Rightarrow> bool" where
  "same_config p q \<longleftrightarrow> px_policy q = px_policy p \<and> px_maxBodyBytes q = px_maxBodyBytes p \<and> px_has_ca q = px_has_ca p"

lemma same_config_refl [simp]: "same_config p p"
  by (simp add: same_config_def)

lemma buffer_body_cases:
  obtains (untouched) "buffer_body host req p = (None, False, req, p)" and "r_Body req = None \<or> sint (px_maxBodyBytes p) \<le> 0"
  | (too_large) s where "r_Body req = Some s" and "0 < sint (px_maxBodyBytes p)"
      and "lr_N (read_all_limited (px_maxBodyBytes p + 1) s) = 0"
      and "buffer_body host req p =
        (None, True, req\<lparr>r_Body := Some (multi_reader (lr_data (read_all_limited (px_maxBodyBytes p + 1) s))
           (lr_rest (read_all_limited (px_maxBodyBytes p + 1) s)))\<rparr>, observe (SkipRequestBodyTooLarge host) p)"
  | (buffered) s where "r_Body req = Some s" and "0 < sint (px_maxBodyBytes p)"
      and "lr_N (read_all_limited (px_maxBodyBytes p + 1) s) \<noteq> 0"
      and "buffer_body host req p =
        (Some (lr_data (read_all_limited (px_maxBodyBytes p + 1) s)), False, req\<lparr>r_Body := None\<rparr>, p)"
proof (cases "r_Body req")
  case None
  then show ?thesis using that(1) by (simp add: buffer_body_def)
next
  case (Some s)
  show ?thesis
  proof (cases "0 < sint (px_maxBodyBytes p)")
    case False
    with Some show ?thesis using that(1) by (simp add: buffer_body_def)
  next
    case True
    with Some show ?thesis
      using that(2,3) [of s] by (cases "lr_N (read_all_limited (px_maxBodyBytes p + 1) s) = 0") (simp_all add: buffer_body_def Let_def)
  qed
qed

lemma buffer_body_keeps:
  assumes "buffer_body host req p = (body, large, req1, p1)"
  shows "px_cache p1 = px_cache p" "px_varyIndex p1 = px_varyIndex p" "same_config p p1"
    "r_Method req1 = r_Method req" "r_Host req1 = r_Host req" "r_URL req1 = r_URL req" "r_Header req1 = r_Header req"
  using assms by (cases rule: buffer_body_cases [of host req p]; auto simp: same_config_def)+

lemma observe_request_size_simps [simp]:
  "px_cache (observe_request_size h req b p) = px_cache p" "px_varyIndex (observe_request_size h req b p) = px_varyIndex p"
  "px_policy (observe_request_size h req b p) = px_policy p" "px_maxBodyBytes (observe_request_size h req b p) = px_maxBodyBytes p"
  "px_has_ca (observe_request_size h req b p) = px_has_ca p"
  by (simp_all add: observe_request_size_def split: option.splits)

lemma lookupVaryIndex_cong: "px_varyIndex p = px_varyIndex q \<Longrightarrow> lookupVaryIndex b p = lookupVaryIndex b q"
  by (simp add: lookupVaryIndex_def)

lemma lookup_key_cong: "px_varyIndex p = px_varyIndex q \<Longrightarrow> lookup_key env r req body port p = lookup_key env r req body port q"
  by (simp add: lookup_key_def lookup_vary_def lookupVaryIndex_cong [of p q])

section \<open>What a fetch returns\<close>

definition sane_limit :: "proxy \<Rightarrow> bool" where
  "sane_limit p \<longleftrightarrow> 0 \<le> sint (px_maxBodyBytes p) \<and> sint (px_maxBodyBytes p) < 2 ^ 63 - 1"

lemma sint_limit: "sane_limit p \<Longrightarrow> sint (px_maxBodyBytes p + 1) = sint (px_maxBodyBytes p) + 1"
proof -
  assume "sane_limit p"
  then have "sint (word_of_int (sint (px_maxBodyBytes p) + 1) :: int64) = sint (px_maxBodyBytes p) + 1"
    by (intro sint_word_of_int64) (simp_all add: sane_limit_def)
  then show ?thesis by simp
qed

lemma fetch_keeps [simp]:
  "px_cache (f_proxy (fetchUpstream env req body addr p)) = px_cache p"
  "px_varyIndex (f_proxy (fetchUpstream env req body addr p)) = px_varyIndex p"
  "same_config p (f_proxy (fetchUpstream env req body addr p))"
  by (simp_all add: fetchUpstream_def Let_def same_config_def split: exchange.splits)

lemma fetch_effects:
  "f_effects (fetchUpstream env req body addr p) =
     (if up_dial env addr then [Dialed addr, Forwarded addr (wire_request req body)] else [Dialed addr])"
  by (simp add: fetchUpstream_def Let_def split: exchange.splits)

lemma fetch_req:
  "f_resp (fetchUpstream env req body addr p) \<noteq> None \<Longrightarrow>
     f_req (fetchUpstream env req body addr p) = wire_request req body \<and> up_dial env addr"
  by (auto simp: fetchUpstream_def Let_def split: exchange.splits if_splits)

text \<open>The response handed on is the upstream's, its body included.\<close>

definition same_response :: "response \<Rightarrow> response \<Rightarrow> bool" where
  "same_response resp resp' \<longleftrightarrow> p_StatusCode resp' = p_StatusCode resp \<and> p_Proto resp' = p_Proto resp
     \<and> p_ProtoMajor resp' = p_ProtoMajor resp \<and> p_ProtoMinor resp' = p_ProtoMinor resp
     \<and> p_Body resp' = p_Body resp"

lemma read_all_body:
  assumes "0 < sint n" and "lr_N (read_all_limited n s) \<noteq> 0" and "\<not> lr_err (read_all_limited n s)"
  shows "lr_data (read_all_limited n s) = s_data s" "bytes_reader (lr_data (read_all_limited n s)) = s"
    "int (length (s_data s)) < sint n"
proof -
  show less: "int (length (s_data s)) < sint n"
    using assms(1,2) read_all_N_zero by force
  show "lr_data (read_all_limited n s) = s_data s" "bytes_reader (lr_data (read_all_limited n s)) = s"
    using assms(3) by (simp_all add: read_all_within [OF less] bytes_reader_def)
qed

lemma read_all_again:
  "multi_reader (lr_data (read_all_limited n s)) (lr_rest (read_all_limited n s)) = s"
  by (simp add: read_all_limited_def multi_reader_def)

lemma fetch_response:
  assumes "f_resp (fetchUpstream env req body addr p) = Some resp'"
  obtains resp where "up_dial env addr" and "up_exchange env addr (wire_request req body) = Responded resp"
    and "p_Header resp' = p_Header resp" and "p_StatusCode resp' = p_StatusCode resp"
    and "sane_limit p \<Longrightarrow> same_response resp resp'"
proof -
  let ?n = "px_maxBodyBytes p + 1"
  obtain resp where resp: "up_dial env addr" "up_exchange env addr (wire_request req body) = Responded resp"
    using assms by (auto simp: fetchUpstream_def Let_def split: exchange.splits if_splits)
  let ?lr = "read_all_limited ?n (p_Body resp)"
  have cases: "resp' = resp \<or> resp' = resp\<lparr>p_Body := multi_reader (lr_data ?lr) (lr_rest ?lr)\<rparr>
      \<or> resp' = resp\<lparr>p_Body := bytes_reader (lr_data ?lr)\<rparr> \<and> lr_N ?lr \<noteq> 0 \<and> \<not> lr_err ?lr"
    using assms resp by (auto simp: fetchUpstream_def Let_def split: if_splits)
  show thesis
  proof (rule that [OF resp])
    show "p_Header resp' = p_Header resp" "p_StatusCode resp' = p_StatusCode resp"
      using cases by auto
    assume "sane_limit p"
    then have "0 < sint ?n"
      by (simp add: sint_limit sane_limit_def)
    then show "same_response resp resp'"
      using cases read_all_body(2) [of ?n "p_Body resp"] by (auto simp: same_response_def read_all_again)
  qed
qed

lemma fetch_entry:
  assumes "f_entry (fetchUpstream env req body addr p) = Some e"
  obtains resp where "up_dial env addr" and "up_exchange env addr (wire_request req body) = Responded resp"
    and "f_resp (fetchUpstream env req body addr p) = Some (resp\<lparr>p_Body := bytes_reader (e_Body e)\<rparr>)"
    and "is_2xx (p_StatusCode resp)" and "e = cacheEntryFromUpstreamResponse (t_cached env) resp (e_Body e)"
    and "px_maxBodyBytes p \<noteq> 0"
    and "sane_limit p \<Longrightarrow> p_Body resp = bytes_reader (e_Body e) \<and> int (length (e_Body e)) \<le> sint (px_maxBodyBytes p)"
proof -
  let ?n = "px_maxBodyBytes p + 1"
  obtain resp where resp: "up_dial env addr" "up_exchange env addr (wire_request req body) = Responded resp"
    using assms by (auto simp: fetchUpstream_def Let_def split: exchange.splits if_splits)
  let ?lr = "read_all_limited ?n (p_Body resp)"
  have e: "e = cacheEntryFromUpstreamResponse (t_cached env) resp (lr_data ?lr)" "is_2xx (p_StatusCode resp)"
    "f_resp (fetchUpstream env req body addr p) = Some (resp\<lparr>p_Body := bytes_reader (lr_data ?lr)\<rparr>)"
    "px_maxBodyBytes p \<noteq> 0" "lr_N ?lr \<noteq> 0" "\<not> lr_err ?lr"
    using assms resp by (auto simp: fetchUpstream_def Let_def split: if_splits)
  have body: "e_Body e = lr_data ?lr"
    by (simp add: e(1) cacheEntryFromUpstreamResponse_def)
  show thesis
  proof (rule that [OF resp])
    assume sane: "sane_limit p"
    then have "0 < sint ?n"
      by (simp add: sint_limit sane_limit_def)
    then show "p_Body resp = bytes_reader (e_Body e) \<and> int (length (e_Body e)) \<le> sint (px_maxBodyBytes p)"
      using read_all_body [of ?n "p_Body resp"] e(5,6) sane by (simp add: body sint_limit)
  qed (use e body in simp_all)
qed

section \<open>The outcomes of a matched request\<close>

lemma lookup_cached_hit:
  assumes "lookup_cached env req key p = (Some e, c)"
  shows "c = px_cache p" "cache_view (px_cache p) key = Some e" "\<not> expired (t_get env) e"
    "\<not> req_directive req ccNoStore" "\<not> req_directive req ccNoCache"
  using assms by (auto simp: lookup_cached_def cache_get_def cache_view_def split: if_splits option.splits)

lemma lookup_cached_miss:
  "lookup_cached env req key p = (None, c) \<Longrightarrow> c = px_cache p \<or> c = cache_delete key (px_cache p)"
  by (auto simp: lookup_cached_def cache_get_def split: if_splits option.splits)

lemma lookup_cached_live:
  assumes "cache_view (px_cache p) key = Some e" and "\<not> expired (t_get env) e"
    and "\<not> req_directive req ccNoStore" and "\<not> req_directive req ccNoCache"
  shows "lookup_cached env req key p = (Some e, px_cache p)"
  using assms by (simp add: lookup_cached_def cache_get_def cache_view_def)

text \<open>A response may be stored: the conditions of the handler on its headers and on the request.\<close>

definition storable :: "request \<Rightarrow> header \<Rightarrow> bool" where
  "storable req h \<longleftrightarrow> header_get h ''Vary'' \<noteq> ''*'' \<and> \<not> req_directive req ccNoStore
     \<and> responseCacheable (parseCacheControl (header_get h ''Cache-Control''))"

definition all_vary :: "http_env \<Rightarrow> rule \<Rightarrow> header \<Rightarrow> string list" where
  "all_vary env r h = mergeVaryHeaders (vary_order env) (RVaryHeaders r) (parseVaryHeader (header_get h ''Vary''))"

definition store_key :: "http_env \<Rightarrow> rule \<Rightarrow> request \<Rightarrow> bytes option \<Rightarrow> uint16 \<Rightarrow> header \<Rightarrow> string" where
  "store_key env r req body port h = generate req body (key_cfg r port (all_vary env r h))"

definition with_ttl :: "rule \<Rightarrow> entry \<Rightarrow> entry" where
  "with_ttl r e = e\<lparr>e_TTL := cacheControlTTL (parseCacheControl (header_get (e_Header e) ''Cache-Control'')) (TTL r)\<rparr>"

definition stored_cache :: "http_env \<Rightarrow> string \<Rightarrow> string \<Rightarrow> entry \<Rightarrow> store \<Rightarrow> store" where
  "stored_cache env skey key e c =
     cache_set (set_order env) (t_set env) skey e (if skey \<noteq> key then cache_delete key c else c)"

definition mark_miss :: "response \<Rightarrow> response" where
  "mark_miss resp = resp\<lparr>p_Header := header_set (p_Header resp) ''X-Cache'' ''MISS''\<rparr>"

lemma store_response_stored:
  assumes "storable req' (e_Header e)" and "req_directive req' ccNoStore = ns"
  shows "px_cache (fst (store_response env r host req body port ns b key e resp p)) =
      stored_cache env (store_key env r req body port (e_Header e)) key (with_ttl r e) (px_cache p)"
    "px_varyIndex (fst (store_response env r host req body port ns b key e resp p)) =
      px_varyIndex (storeVaryIndex b (all_vary env r (e_Header e)) p)"
    "same_config p (fst (store_response env r host req body port ns b key e resp p))"
    "snd (store_response env r host req body port ns b key e resp p) = [Wrote (mark_miss resp)]"
  using assms
  by (simp_all add: store_response_def storable_def Let_def stored_cache_def store_key_def all_vary_def with_ttl_def
      same_config_def mark_miss_def)

lemma store_response_bypass:
  assumes "\<not> storable req' (e_Header e)" and "req_directive req' ccNoStore = ns"
  shows "px_cache (fst (store_response env r host req body port ns b key e resp p)) = px_cache p"
    "px_varyIndex (fst (store_response env r host req body port ns b key e resp p)) = px_varyIndex p"
    "same_config p (fst (store_response env r host req body port ns b key e resp p))"
    "snd (store_response env r host req body port ns b key e resp p) = [Wrote resp]"
  using assms by (auto simp: store_response_def storable_def Let_def same_config_def)

text \<open>
  The four ways a matched request ends: a hit, a failed fetch, a response passed on
  without being stored, and a response stored.
\<close>

lemma handle_matched_cases:
  assumes "handle_matched env r host req body addr port p = (p', eff)"
  obtains (hit) e where "lookup_cached env req (lookup_key env r req body port p) p = (Some e, px_cache p)"
      and "eff = [replyWCachedEntry e]" and "px_cache p' = px_cache p" and "px_varyIndex p' = px_varyIndex p"
      and "same_config p p'"
  | (failed) c where "lookup_cached env req (lookup_key env r req body port p) p = (None, c)"
      and "f_resp (fetchUpstream env req body addr (p\<lparr>px_cache := c\<rparr>)) = None"
      and "eff = f_effects (fetchUpstream env req body addr (p\<lparr>px_cache := c\<rparr>)) @ [writeBadGateway]"
      and "px_cache p' = c" and "px_varyIndex p' = px_varyIndex p" and "same_config p p'"
  | (passed) c resp where "lookup_cached env req (lookup_key env r req body port p) p = (None, c)"
      and "f_resp (fetchUpstream env req body addr (p\<lparr>px_cache := c\<rparr>)) = Some resp"
      and "\<And>e. f_entry (fetchUpstream env req body addr (p\<lparr>px_cache := c\<rparr>)) = Some e \<Longrightarrow> \<not> storable req (e_Header e)"
      and "eff = f_effects (fetchUpstream env req body addr (p\<lparr>px_cache := c\<rparr>)) @ [Wrote resp]"
      and "px_cache p' = c" and "px_varyIndex p' = px_varyIndex p" and "same_config p p'"
  | (stored) c e resp where "lookup_cached env req (lookup_key env r req body port p) p = (None, c)"
      and "f_resp (fetchUpstream env req body addr (p\<lparr>px_cache := c\<rparr>)) = Some resp"
      and "f_entry (fetchUpstream env req body addr (p\<lparr>px_cache := c\<rparr>)) = Some e"
      and "storable req (e_Header e)"
      and "eff = f_effects (fetchUpstream env req body addr (p\<lparr>px_cache := c\<rparr>)) @ [Wrote (mark_miss resp)]"
      and "px_cache p' = stored_cache env (store_key env r (wire_request req body) body port (e_Header e))
             (lookup_key env r req body port p) (with_ttl r e) c"
      and "px_varyIndex p' = px_varyIndex (storeVaryIndex (base_key req port) (all_vary env r (e_Header e)) p)"
      and "same_config p p'"
proof -
  let ?key = "lookup_key env r req body port p"
  obtain h c where l: "lookup_cached env req ?key p = (h, c)"
    by (cases "lookup_cached env req ?key p")
  show thesis
  proof (cases h)
    case (Some e)
    with l lookup_cached_hit(1) [of env req ?key p e c] have c: "c = px_cache p"
      by simp
    with l Some show thesis
      using assms by (intro hit [of e]) (auto simp: handle_matched_def Let_def same_config_def)
  next
    case None
    let ?p0 = "p\<lparr>px_cache := c\<rparr>"
    let ?f = "fetchUpstream env req body addr ?p0"
    have cfg: "same_config p q" if "same_config (f_proxy ?f) q" for q
      using that fetch_keeps(3) [of ?p0 env req body addr] by (simp add: same_config_def)
    show thesis
    proof (cases "f_resp ?f")
      case None
      with l \<open>h = None\<close> show thesis
        using assms cfg by (intro failed) (auto simp: handle_matched_def Let_def same_config_def)
    next
      case (Some resp)
      note resp = this
      show thesis
      proof (cases "f_entry ?f")
        case None
        with l resp \<open>h = None\<close> show thesis
          using assms cfg by (intro passed [of c resp]) (auto simp: handle_matched_def Let_def same_config_def)
      next
        case (Some e)
        have req: "f_req ?f = wire_request req body"
          using fetch_req resp by simp
        let ?s = "store_response env r host (wire_request req body) body port (req_directive req ccNoStore)
            (base_key req port) ?key e resp (f_proxy ?f)"
        have eq: "p' = fst ?s" "eff = f_effects ?f @ snd ?s"
          using assms l resp Some \<open>h = None\<close> req by (auto simp: handle_matched_def Let_def split: prod.splits)
        show thesis
        proof (cases "storable req (e_Header e)")
          case True
          show thesis
            using l resp Some \<open>h = None\<close> True store_response_stored [OF True refl] cfg
            by (intro stored [of c resp e]) (simp_all add: eq storeVaryIndex_def)
        next
          case False
          show thesis
            using l resp Some False \<open>h = None\<close> store_response_bypass [OF False refl] cfg
            by (intro passed [of c resp]) (simp_all add: eq)
        qed
      qed
    qed
  qed
qed

end
