(* ===== verification/Proxy_Correct.thy ===== *)
theory Proxy_Correct
imports Proxy_Request
begin

text \<open>
  What one run of the request handler does: which requests reach the upstream and in
  what form, what the client is answered, and what happens to the cache and to the
  vary index. The lemmas decompose \<open>handleRequest\<close> into the buffering of the body and
  the outcomes of \<open>handle_matched_cases\<close>; the properties are the branches put
  together.
\<close>

section \<open>Buffering of the request body\<close>

definition buffered :: "request \<Rightarrow> proxy \<Rightarrow> bytes option" where
  "buffered req p = fst (buffer_body [] req p)"

definition too_large :: "request \<Rightarrow> proxy \<Rightarrow> bool" where
  "too_large req p = fst (snd (buffer_body [] req p))"

definition prepared :: "request \<Rightarrow> proxy \<Rightarrow> request" where
  "prepared req p = fst (snd (snd (buffer_body [] req p)))"

lemma buffer_body_split:
  obtains p1 where "buffer_body host req p = (buffered req p, too_large req p, prepared req p, p1)"
    and "px_cache p1 = px_cache p" and "px_varyIndex p1 = px_varyIndex p" and "same_config p p1"
proof -
  obtain b l r p1 where *: "buffer_body host req p = (b, l, r, p1)"
    by (cases "buffer_body host req p")
  then have "b = buffered req p" "l = too_large req p" "r = prepared req p"
    by (auto simp: buffered_def too_large_def prepared_def buffer_body_def Let_def split: option.splits if_splits)
  with * buffer_body_keeps [OF *] that show thesis by simp
qed

lemma prepared_simps [simp]:
  "r_Method (prepared req p) = r_Method req" "r_Host (prepared req p) = r_Host req"
  "r_URL (prepared req p) = r_URL req" "r_Header (prepared req p) = r_Header req"
  "url_path (prepared req p) = url_path req"
  using buffer_body_keeps(4-7) [of "[]" req p "buffered req p" "too_large req p" "prepared req p"]
    buffer_body_split [of "[]" req p] by (simp_all add: url_path_def) metis+

lemma req_directive_prepared [simp]: "req_directive (prepared req p) d = req_directive req d"
  by (simp add: req_directive_def)

lemma generate_cong_fields:
  assumes "r_Host r = r_Host r'" and "r_Method r = r_Method r'" and "r_URL r = r_URL r'" and "r_Header r = r_Header r'"
  shows "generate r body cfg = generate r' body cfg"
  by (rule generate_cong, rule key_preimage_cong) (use assms in \<open>simp_all add: key_host_def vary_pairs_def\<close>)

lemma lookup_key_prepared [simp]: "lookup_key env r (prepared req p) body port q = lookup_key env r req body port q"
  unfolding lookup_key_def lookup_vary_def base_key_def
  by (simp add: generate_cong_fields [of "prepared req p" req])

lemma base_key_prepared [simp]: "base_key (prepared req p) port = base_key req port"
  unfolding base_key_def by (rule generate_cong_fields) simp_all

lemma storable_prepared [simp]: "storable (prepared req p) h = storable req h"
  by (simp add: storable_def)

lemma lookup_cached_prepared [simp]: "lookup_cached env (prepared req p) k q = lookup_cached env req k q"
  by (simp add: lookup_cached_def)

abbreviation match_for :: "proxy \<Rightarrow> request \<Rightarrow> string \<Rightarrow> uint16 \<Rightarrow> string \<Rightarrow> labels \<Rightarrow> rule option" where
  "match_for p req addr port ns ls \<equiv>
     Match (px_policy p) ns ls (effective_host req addr) port (r_Method req) (url_path req)"

text \<open>The request as the upstream receives it.\<close>

abbreviation sent :: "request \<Rightarrow> proxy \<Rightarrow> request" where
  "sent req p \<equiv> wire_request (prepared req p) (buffered req p)"

lemma handleRequest_matched:
  assumes "match_for p req addr port ns ls = Some r" and "\<not> too_large req p"
  obtains p1 where "handleRequest env req addr port ns ls p =
      handle_matched env r (effective_host req addr) (prepared req p) (buffered req p) addr port p1"
    and "px_cache p1 = px_cache p" and "px_varyIndex p1 = px_varyIndex p" and "same_config p p1"
proof (rule buffer_body_split [of "effective_host req addr" req p])
  fix p0
  assume p0: "buffer_body (effective_host req addr) req p = (buffered req p, too_large req p, prepared req p, p0)"
    "px_cache p0 = px_cache p" "px_varyIndex p0 = px_varyIndex p" "same_config p p0"
  let ?p1 = "observe_request_size (effective_host req addr) (prepared req p) (buffered req p) p0"
  have "px_policy ?p1 = px_policy p"
    using p0(4) by (simp add: same_config_def)
  with assms p0 show thesis
    by (intro that [of ?p1]) (simp_all add: handleRequest_def same_config_def Let_def)
qed

lemma handleRequest_unmatched:
  assumes "match_for p req addr port ns ls = None \<or> too_large req p"
  obtains p1 where "handleRequest env req addr port ns ls p =
      handle_unmatched env (effective_host req addr) (prepared req p) (buffered req p) addr p1"
    and "px_cache p1 = px_cache p" and "px_varyIndex p1 = px_varyIndex p" and "same_config p p1"
proof (rule buffer_body_split [of "effective_host req addr" req p])
  fix p0
  assume p0: "buffer_body (effective_host req addr) req p = (buffered req p, too_large req p, prepared req p, p0)"
    "px_cache p0 = px_cache p" "px_varyIndex p0 = px_varyIndex p" "same_config p p0"
  let ?p1 = "observe_request_size (effective_host req addr) (prepared req p) (buffered req p) p0"
  have "px_policy ?p1 = px_policy p"
    using p0(4) by (simp add: same_config_def)
  with assms p0 show thesis
    by (intro that [of ?p1]) (auto simp: handleRequest_def same_config_def Let_def split: option.splits)
qed

lemma sane_limit_cong: "same_config p q \<Longrightarrow> sane_limit q = sane_limit p"
  by (simp add: sane_limit_def same_config_def)

lemma handle_unmatched_keeps:
  assumes "handle_unmatched env host req body addr p = (p', eff)"
  shows "px_cache p' = px_cache p" "px_varyIndex p' = px_varyIndex p" "same_config p p'"
  using assms fetch_keeps(3) [of p env req body addr]
  by (auto simp: handle_unmatched_def Let_def same_config_def split: option.splits)

section \<open>The answer\<close>

definition upstream_failed :: "http_env \<Rightarrow> string \<Rightarrow> request \<Rightarrow> bool" where
  "upstream_failed env addr w \<longleftrightarrow>
     (case up_exchange env addr w of Responded resp \<Rightarrow> s_fails (p_Body resp) | _ \<Rightarrow> True)"

lemma fetch_failed:
  assumes "f_resp (fetchUpstream env req body addr p) = None" and "up_dial env addr"
  shows "upstream_failed env addr (wire_request req body)"
  using assms by (auto simp: fetchUpstream_def upstream_failed_def Let_def read_all_limited_def
      split: exchange.splits if_splits)

text \<open>The forms an answer may take, with the upstream's response that it rests on.\<close>

definition reply_from_upstream :: "http_env \<Rightarrow> string \<Rightarrow> request \<Rightarrow> effect list \<Rightarrow> bool" where
  "reply_from_upstream env addr w eff \<longleftrightarrow>
     (\<exists>resp resp'. up_dial env addr \<and> up_exchange env addr w = Responded resp
        \<and> eff = [Dialed addr, Forwarded addr w, Wrote resp'] \<and> same_response resp resp'
        \<and> (p_Header resp' = p_Header resp \<or> p_Header resp' = header_set (p_Header resp) ''X-Cache'' ''MISS''))"

definition reply_bad_gateway :: "http_env \<Rightarrow> string \<Rightarrow> request \<Rightarrow> effect list \<Rightarrow> bool" where
  "reply_bad_gateway env addr w eff \<longleftrightarrow>
     (if up_dial env addr
      then upstream_failed env addr w \<and> eff = [Dialed addr, Forwarded addr w, writeBadGateway]
      else eff = [Dialed addr, writeBadGateway])"

lemma fetch_reply:
  assumes "f_resp (fetchUpstream env req body addr p) = Some resp'" and "sane_limit p"
  shows "reply_from_upstream env addr (wire_request req body) (f_effects (fetchUpstream env req body addr p) @ [Wrote resp'])"
    and "reply_from_upstream env addr (wire_request req body)
      (f_effects (fetchUpstream env req body addr p) @ [Wrote (mark_miss resp')])"
proof -
  obtain resp where r: "up_dial env addr" "up_exchange env addr (wire_request req body) = Responded resp"
    "p_Header resp' = p_Header resp" "same_response resp resp'"
    using fetch_response [OF assms(1)] assms(2) by metis
  from r show "reply_from_upstream env addr (wire_request req body) (f_effects (fetchUpstream env req body addr p) @ [Wrote resp'])"
    by (simp add: reply_from_upstream_def fetch_effects)
  from r have "same_response resp (mark_miss resp')"
    by (simp add: same_response_def mark_miss_def)
  with r show "reply_from_upstream env addr (wire_request req body)
      (f_effects (fetchUpstream env req body addr p) @ [Wrote (mark_miss resp')])"
    by (simp add: reply_from_upstream_def fetch_effects) (simp add: mark_miss_def)
qed

lemma fetch_bad_gateway:
  "f_resp (fetchUpstream env req body addr p) = None \<Longrightarrow>
   reply_bad_gateway env addr (wire_request req body) (f_effects (fetchUpstream env req body addr p) @ [writeBadGateway])"
  using fetch_failed by (auto simp: reply_bad_gateway_def fetch_effects)

definition reply_from_cache :: "store \<Rightarrow> effect list \<Rightarrow> bool" where
  "reply_from_cache c eff \<longleftrightarrow> (\<exists>k e. cache_view c k = Some e \<and> eff = [replyWCachedEntry e])"

lemma sane_limit_cache [simp]: "sane_limit (p\<lparr>px_cache := c\<rparr>) = sane_limit p"
  by (simp add: sane_limit_def)

lemma matched_reply:
  assumes "sane_limit p" and "handle_matched env r host req body addr port p = (p', eff)"
  shows "reply_from_cache (px_cache p) eff \<or> reply_bad_gateway env addr (wire_request req body) eff
    \<or> reply_from_upstream env addr (wire_request req body) eff"
  using assms(2)
proof (cases rule: handle_matched_cases)
  case (hit e)
  then show ?thesis
    using lookup_cached_hit(2) [OF hit(1)] by (auto simp: reply_from_cache_def)
next
  case (failed c)
  then show ?thesis using fetch_bad_gateway by simp
next
  case (passed c resp)
  then show ?thesis using fetch_reply(1) [OF passed(2)] assms(1) by simp
next
  case (stored c e resp)
  then show ?thesis using fetch_reply(2) [OF stored(2)] assms(1) by simp
qed

lemma unmatched_reply:
  assumes "sane_limit p" and "handle_unmatched env host req body addr p = (p', eff)"
  shows "reply_bad_gateway env addr (wire_request req body) eff \<or> reply_from_upstream env addr (wire_request req body) eff"
proof (cases "f_resp (fetchUpstream env req body addr p)")
  case None
  with assms(2) show ?thesis using fetch_bad_gateway [OF None] by (auto simp: handle_unmatched_def Let_def)
next
  case (Some resp)
  with assms show ?thesis using fetch_reply(1) [OF Some] by (auto simp: handle_unmatched_def Let_def)
qed

lemma read_all_sane:
  assumes "sane_limit p" and "lr_N (read_all_limited (px_maxBodyBytes p + 1) s) \<noteq> 0" and "\<not> s_fails s"
  shows "bytes_reader (lr_data (read_all_limited (px_maxBodyBytes p + 1) s)) = s"
proof -
  have "0 < sint (px_maxBodyBytes p + 1)"
    using assms(1) by (simp add: sint_limit) (simp add: sane_limit_def)
  moreover have "\<not> lr_err (read_all_limited (px_maxBodyBytes p + 1) s)"
    using assms(3) by (simp add: read_all_limited_def)
  ultimately show ?thesis
    using assms(2) by (intro read_all_body(2))
qed

section \<open>Sample values\<close>

definition sample_response :: "header \<Rightarrow> bytes \<Rightarrow> response" where
  "sample_response h b =
     \<lparr>p_StatusCode = 200, p_Proto = ''HTTP/1.1'', p_ProtoMajor = 1, p_ProtoMinor = 1, p_Header = h, p_Body = bytes_reader b\<rparr>"

definition sample_env :: "response \<Rightarrow> http_env" where
  "sample_env resp =
     \<lparr>up_dial = (\<lambda>_. True), up_exchange = (\<lambda>_ _. Responded resp), t_get = 0, t_cached = 0, t_set = 0,
      set_order = id, vary_order = id\<rparr>"

definition open_rule :: rule where
  "open_rule =
     \<lparr>Namespace = [], PodSelector = None, Host = ''*'', RPort = 0, Methods = [], Paths = [], TTL = 60000000000,
      CacheBody = False, RVaryHeaders = [], MaxBodyBytes = 0\<rparr>"

definition sample_proxy :: "rule list \<Rightarrow> proxy" where
  "sample_proxy rs = new_proxy (new_store 1000 True) (new_policy rs) 100 False"

lemma sample_proxy_simps [simp]:
  "px_cache (sample_proxy rs) = new_store 1000 True" "px_policy (sample_proxy rs) = new_policy rs"
  "px_maxBodyBytes (sample_proxy rs) = 100" "px_varyIndex (sample_proxy rs) = Map.empty"
  "sane_limit (sample_proxy rs)"
  by (simp_all add: sample_proxy_def new_proxy_def sane_limit_def)

lemma match_open_rule: "Match (new_policy [open_rule]) ns ls h port m path = Some open_rule"
  by (simp add: Match_def new_policy_def open_rule_def wrong_namespace_def wrong_pod_def wrong_port_def wrong_host_def)

lemma match_no_rule: "Match (new_policy []) ns ls h port m path = None"
  by (simp add: Match_def new_policy_def)

text \<open>The answer to a request, in one of its forms.\<close>

lemma reply_forms:
  assumes "sane_limit p" and "handleRequest env req addr port ns ls p = (p', eff)"
  shows "reply_from_cache (px_cache p) eff \<or> reply_bad_gateway env addr (sent req p) eff
    \<or> reply_from_upstream env addr (sent req p) eff"
proof (cases "match_for p req addr port ns ls = None \<or> too_large req p")
  case True
  then show ?thesis
  proof (rule handleRequest_unmatched)
    fix p1
    assume "handleRequest env req addr port ns ls p =
        handle_unmatched env (effective_host req addr) (prepared req p) (buffered req p) addr p1" "same_config p p1"
    with assms show ?thesis using unmatched_reply [of p1] by (simp add: sane_limit_cong)
  qed
next
  case False
  then obtain r where "match_for p req addr port ns ls = Some r" "\<not> too_large req p"
    by auto
  then show ?thesis
  proof (rule handleRequest_matched)
    fix p1
    assume "handleRequest env req addr port ns ls p =
        handle_matched env r (effective_host req addr) (prepared req p) (buffered req p) addr port p1"
      "same_config p p1" "px_cache p1 = px_cache p"
    with assms show ?thesis using matched_reply [of p1] by (simp add: sane_limit_cong)
  qed
qed

lemma sent_exact:
  assumes "sane_limit p" and "\<forall>s. r_Body req = Some s \<longrightarrow> \<not> s_fails s"
  shows "sent req p = req\<lparr>r_Header := header_set (r_Header req) ''Connection'' ''close'',
    r_Body := Some (case r_Body req of None \<Rightarrow> bytes_reader [] | Some s \<Rightarrow> s)\<rparr>"
proof (cases rule: buffer_body_cases [of "[]" req p])
  case untouched
  then have "buffered req p = None" "prepared req p = req"
    by (simp_all add: buffered_def prepared_def)
  then show ?thesis
    by (simp add: wire_request_def split: option.split)
next
  case (too_large s)
  then have "buffered req p = None" "prepared req p = req\<lparr>r_Body := Some s\<rparr>"
    by (simp_all add: buffered_def prepared_def read_all_again)
  with too_large(1) show ?thesis
    by (simp add: wire_request_def)
next
  case (buffered s)
  then have "Proxy_Correct.buffered req p = Some (lr_data (read_all_limited (px_maxBodyBytes p + 1) s))"
    "prepared req p = req\<lparr>r_Body := None\<rparr>"
    by (simp_all add: Proxy_Correct.buffered_def prepared_def)
  moreover have "bytes_reader (lr_data (read_all_limited (px_maxBodyBytes p + 1) s)) = s"
    using assms buffered by (intro read_all_sane) simp_all
  ultimately show ?thesis
    using buffered(1) by (simp add: wire_request_def)
qed

section \<open>Properties: the answer and the upstream\<close>

text \<open>C8. Every request gets exactly one answer, and it is one of three: a stored entry, without any contact
  with the upstream; the upstream's own response, with its status, protocol, headers and
  whole body and at most \<open>X-Cache\<close> added; or the 502 answer, only when dialling, the
  exchange or reading the body failed. The limit \<open>maxBodyBytes\<close> must not be negative, and adding
  one to it must not overflow: otherwise bodies are lost.\<close>

theorem handle_one_reply:
  assumes "sane_limit p" and "handleRequest env req addr port ns ls p = (p', eff)"
  shows "reply_from_cache (px_cache p) eff \<or> reply_bad_gateway env addr (sent req p) eff
    \<or> reply_from_upstream env addr (sent req p) eff"
  by (rule reply_forms [OF assms])

theorem handle_one_reply_witness:
  "let eff = snd (handleRequest (sample_env (sample_response [] [1])) (sample_request ''/'' []) ''10.0.0.1:80'' 80 [] Map.empty (sample_proxy []))
   in reply_from_cache (new_store 1000 True) eff \<or> reply_bad_gateway (sample_env (sample_response [] [1])) ''10.0.0.1:80'' (sent (sample_request ''/'' []) (sample_proxy [])) eff
    \<or> reply_from_upstream (sample_env (sample_response [] [1])) ''10.0.0.1:80'' (sent (sample_request ''/'' []) (sample_proxy [])) eff"
  unfolding Let_def
  using handle_one_reply [of "sample_proxy []", OF _ surjective_pairing] by simp

text \<open>C26. Whatever \<open>handleRequest\<close> hands to \<open>Request.Write\<close> goes to the address it was called with, and is the
  client's request as it came, whole body included, with one change: the header \<open>Connection\<close> is
  \<open>close\<close>. (What \<open>Request.Write\<close> itself adds belongs to \<open>net/http\<close>.) A request body that failed to read is
  excluded, because its error is ignored and what was read of it counts as the whole; so are a
  negative limit \<open>maxBodyBytes\<close> and one to which adding one overflows.\<close>

theorem forwarded_request_exact:
  assumes "sane_limit p" and "\<forall>s. r_Body req = Some s \<longrightarrow> \<not> s_fails s"
    and "handleRequest env req addr port ns ls p = (p', eff)" and "Forwarded a r \<in> set eff"
  shows "a = addr \<and> r = req\<lparr>r_Header := header_set (r_Header req) ''Connection'' ''close'',
    r_Body := Some (case r_Body req of None \<Rightarrow> bytes_reader [] | Some s \<Rightarrow> s)\<rparr>"
proof -
  have "a = addr \<and> r = sent req p"
    using reply_forms [OF assms(1,3)] assms(4)
    by (auto simp: reply_from_cache_def reply_bad_gateway_def reply_from_upstream_def replyWCachedEntry_def
        writeBadGateway_def Let_def split: if_splits)
  then show ?thesis
    using sent_exact [OF assms(1,2)] by simp
qed

lemma unmatched_forwards:
  assumes "match_for p req addr port ns ls = None" and "up_dial env addr"
  shows "Forwarded addr (sent req p) \<in> set (snd (handleRequest env req addr port ns ls p))"
proof -
  obtain p1 where "handleRequest env req addr port ns ls p =
      handle_unmatched env (effective_host req addr) (prepared req p) (buffered req p) addr p1"
    using handleRequest_unmatched [where env = env] assms(1) by blast
  with assms(2) show ?thesis
    by (simp add: handle_unmatched_def Let_def fetch_effects split: option.split)
qed

theorem forwarded_request_exact_witness:
  "let req = (sample_request ''/'' [])\<lparr>r_Body := Some (bytes_reader [1, 2])\<rparr>;
     eff = snd (handleRequest (sample_env (sample_response [] [1])) req ''a'' 80 [] Map.empty (sample_proxy []))
   in \<exists>r. Forwarded ''a'' r \<in> set eff \<and> r_Body r = Some (bytes_reader [1, 2])"
proof -
  let ?req = "(sample_request ''/'' [])\<lparr>r_Body := Some (bytes_reader [1, 2])\<rparr>"
  have f: "Forwarded ''a'' (sent ?req (sample_proxy [])) \<in>
      set (snd (handleRequest (sample_env (sample_response [] [1])) ?req ''a'' 80 [] Map.empty (sample_proxy [])))"
    by (rule unmatched_forwards) (simp_all add: match_no_rule sample_env_def)
  from forwarded_request_exact [OF _ _ surjective_pairing f] f show ?thesis
    unfolding Let_def by (intro exI [of _ "sent ?req (sample_proxy [])"]) (simp add: bytes_reader_def)
qed

text \<open>A request that no rule matches, or whose body is too large to buffer, leaves the cache and the
  vary index as they were, and so does a request answered with 502, except that an
  expired entry found by the lookup is dropped.\<close>

theorem uncached_requests_leave_cache:
  assumes "handleRequest env req addr port ns ls p = (p', eff)"
  shows "(match_for p req addr port ns ls = None \<or> too_large req p \<longrightarrow>
       px_cache p' = px_cache p \<and> px_varyIndex p' = px_varyIndex p)
     \<and> ((\<forall>resp. Wrote resp \<notin> set eff) \<longrightarrow> px_varyIndex p' = px_varyIndex p
         \<and> (px_cache p' = px_cache p \<or> (\<exists>k. px_cache p' = cache_delete k (px_cache p))))"
proof (cases "match_for p req addr port ns ls = None \<or> too_large req p")
  case True
  then have "px_cache p' = px_cache p \<and> px_varyIndex p' = px_varyIndex p"
  proof (rule handleRequest_unmatched [where env = env])
    fix p1
    assume p1: "handleRequest env req addr port ns ls p =
        handle_unmatched env (effective_host req addr) (prepared req p) (buffered req p) addr p1"
      "px_cache p1 = px_cache p" "px_varyIndex p1 = px_varyIndex p"
    with assms have "handle_unmatched env (effective_host req addr) (prepared req p) (buffered req p) addr p1 = (p', eff)"
      by simp
    from handle_unmatched_keeps(1,2) [OF this] p1 show ?thesis by simp
  qed
  then show ?thesis by auto
next
  case False
  then obtain r where r: "match_for p req addr port ns ls = Some r" "\<not> too_large req p"
    by auto
  have "px_varyIndex p' = px_varyIndex p \<and> (px_cache p' = px_cache p \<or> (\<exists>k. px_cache p' = cache_delete k (px_cache p)))"
    if down: "\<forall>resp. Wrote resp \<notin> set eff"
  proof (rule handleRequest_matched [OF r])
    fix p1
    assume p1: "handleRequest env req addr port ns ls p =
        handle_matched env r (effective_host req addr) (prepared req p) (buffered req p) addr port p1"
      "px_cache p1 = px_cache p" "px_varyIndex p1 = px_varyIndex p"
    from assms p1(1) have "handle_matched env r (effective_host req addr) (prepared req p) (buffered req p) addr port p1 = (p', eff)"
      by simp
    then show ?thesis
    proof (cases rule: handle_matched_cases)
      case (failed c)
      then show ?thesis using lookup_cached_miss [OF failed(1)] p1 by auto
    next
      case (hit e)
      then show ?thesis using p1 by simp
    next
      case (passed c resp)
      then show ?thesis using down by auto
    next
      case (stored c e resp)
      then show ?thesis using down by auto
    qed
  qed
  with False show ?thesis by blast
qed

theorem uncached_requests_leave_cache_witness:
  "px_cache (fst (handleRequest (sample_env (sample_response [] [1])) (sample_request ''/'' []) ''10.0.0.1:80'' 80 [] Map.empty (sample_proxy [])))
    = new_store 1000 True"
  using uncached_requests_leave_cache [OF surjective_pairing, where p = "sample_proxy []" and req = "sample_request ''/'' []"
      and ns = "[]" and ls = Map.empty and addr = "''10.0.0.1:80''" and port = 80 and env = "sample_env (sample_response [] [1])"]
  by (simp add: match_no_rule)

text \<open>Connections to upstreams neither leak nor are used after their end. A connection that could
  be dialled is given up exactly once on every path: \<open>fetchUpstream\<close> closes it or hands it
  over with the body of the response, never both and never neither; and what it has closed
  itself the response no longer reads from, because its body is in memory then.\<close>

theorem upstream_released_once:
  "releases (fetchUpstream env req body addr p) = (if up_dial env addr then 1 else 0)
   \<and> (\<forall>resp. f_resp (fetchUpstream env req body addr p) = Some resp \<and> f_closes (fetchUpstream env req body addr p) = 1
        \<longrightarrow> (\<exists>bs. p_Body resp = bytes_reader bs))"
  by (auto simp: releases_def fetchUpstream_def Let_def split: exchange.splits)

theorem upstream_released_once_witness:
  "\<exists>bs. p_Body (the (f_resp (fetchUpstream (sample_env (sample_response [] [1])) (sample_request ''/'' []) None ''a'' (sample_proxy []))))
     = bytes_reader bs"
proof -
  let ?f = "fetchUpstream (sample_env (sample_response [] [1])) (sample_request ''/'' []) None ''a'' (sample_proxy [])"
  have "\<exists>resp. f_resp ?f = Some resp" "f_closes ?f = 1"
    by (simp_all add: fetchUpstream_def sample_env_def sample_response_def read_all_limited_def bytes_reader_def Let_def)
  then show ?thesis
    using upstream_released_once [where env = "sample_env (sample_response [] [1])" and req = "sample_request ''/'' []"
        and body = None and addr = "''a''" and p = "sample_proxy []"] by auto
qed

end
