(* ===== verification/Proxy_Caching.thy ===== *)
theory Proxy_Caching
imports Proxy_Correct
begin

text \<open>
  What the request handler puts into the cache and when it answers from it: what a
  stored entry is, the cache's invariants through the handler, the hit that follows
  a miss, and the state of the vary index in which a stored response is never found.
  The facts about the cache are those of its contract (\<open>cs\<close>).
\<close>

section \<open>Storing\<close>

lemma stored_cache_put:
  "stored_cache env sk key e c =
     put_entry (set_order env, t_set env) sk e (if sk \<noteq> key then cache_delete key c else c)"
  by (simp add: stored_cache_def put_entry_def)

lemma stored_cache_ok [invar_intros]: "store_ok c \<Longrightarrow> store_ok (stored_cache env sk key e c)"
  by (simp add: stored_cache_put cs.ok_put cs.ok_del)

lemma stored_cache_maxBytes [simp]: "maxBytes (stored_cache env sk key e c) = maxBytes c"
  by (simp add: stored_cache_def)

lemma stored_cache_view:
  assumes "store_ok c" and "cache_view (stored_cache env sk key e c) k = Some e'"
  shows "k = sk \<and> e' = e \<or> cache_view c k = Some e'"
proof -
  let ?c = "if sk \<noteq> key then cache_delete key c else c"
  have ok: "store_ok ?c"
    using assms(1) by (simp add: cs.ok_del)
  have view: "cache_view (put_entry (set_order env, t_set env) sk e ?c) k = Some e'"
    using assms(2) by (simp only: stored_cache_put)
  show ?thesis
  proof (cases "k = sk")
    case True
    with cs.put_same [OF ok] view show ?thesis by blast
  next
    case False
    from cs.put_other [OF ok this view] have "cache_view ?c k = Some e'" .
    then show ?thesis
      using cs.del_eq [OF assms(1), of key] by (simp split: if_splits)
  qed
qed

lemma stored_cache_fits:
  assumes "store_ok c" and "entry_fits e c"
  shows "cache_view (stored_cache env sk key e c) sk = Some e"
  using assms by (simp add: stored_cache_put cs.put_fits cs.del_put_fits)

lemma stored_cache_budget [invar_intros]:
  assumes "store_ok c" and "within_budget c" and "no_overflow (maxBytes c) e"
  shows "within_budget (stored_cache env sk key e c)"
  using assms by (simp add: stored_cache_def cache_set_within_budget cache_delete_budget cs.ok_del)

text \<open>The entry that a response becomes under a rule.\<close>

definition entry_of :: "http_env \<Rightarrow> rule \<Rightarrow> response \<Rightarrow> entry" where
  "entry_of env r resp = with_ttl r (cacheEntryFromUpstreamResponse (t_cached env) resp (s_data (p_Body resp)))"

lemma entry_of_simps [simp]:
  "e_Header (entry_of env r resp) = p_Header resp" "e_Body (entry_of env r resp) = s_data (p_Body resp)"
  "e_CachedAt (entry_of env r resp) = t_cached env" "e_StatusCode (entry_of env r resp) = p_StatusCode resp"
  by (simp_all add: entry_of_def with_ttl_def cacheEntryFromUpstreamResponse_def)

text \<open>What must hold for a response to be stored.\<close>

definition may_store :: "http_env \<Rightarrow> request \<Rightarrow> string \<Rightarrow> proxy \<Rightarrow> response \<Rightarrow> bool" where
  "may_store env req addr p resp \<longleftrightarrow>
     up_dial env addr \<and> up_exchange env addr (sent req p) = Responded resp
     \<and> is_2xx (p_StatusCode resp) \<and> storable req (p_Header resp) \<and> \<not> s_fails (p_Body resp)
     \<and> int (length (s_data (p_Body resp))) \<le> sint (px_maxBodyBytes p) \<and> px_maxBodyBytes p \<noteq> 0"

lemma fetch_entry_sane:
  assumes "f_entry (fetchUpstream env req body addr p) = Some e" and "sane_limit p"
  obtains resp where "up_dial env addr" and "up_exchange env addr (wire_request req body) = Responded resp"
    and "is_2xx (p_StatusCode resp)" and "\<not> s_fails (p_Body resp)" and "px_maxBodyBytes p \<noteq> 0"
    and "int (length (s_data (p_Body resp))) \<le> sint (px_maxBodyBytes p)"
    and "e_Header e = p_Header resp" and "with_ttl r e = entry_of env r resp"
proof (rule fetch_entry [OF assms(1)])
  fix resp
  assume r: "up_dial env addr" "up_exchange env addr (wire_request req body) = Responded resp"
    "is_2xx (p_StatusCode resp)" "px_maxBodyBytes p \<noteq> 0"
    and e: "e = cacheEntryFromUpstreamResponse (t_cached env) resp (e_Body e)"
    and "sane_limit p \<Longrightarrow> p_Body resp = bytes_reader (e_Body e) \<and> int (length (e_Body e)) \<le> sint (px_maxBodyBytes p)"
  with assms(2) have b: "p_Body resp = bytes_reader (e_Body e)" "int (length (e_Body e)) \<le> sint (px_maxBodyBytes p)"
    by simp_all
  have h: "e_Header e = p_Header resp"
    by (subst e) (simp add: cacheEntryFromUpstreamResponse_def)
  have s: "s_data (p_Body resp) = e_Body e"
    by (simp add: b(1) bytes_reader_def)
  have "with_ttl r e = entry_of env r resp"
    unfolding entry_of_def s using e by simp
  with r b h show thesis
    by (intro that) (simp_all add: bytes_reader_def)
qed

lemma fetch_stores:
  assumes "sane_limit p" and "px_maxBodyBytes p \<noteq> 0" and "up_dial env addr"
    and "up_exchange env addr (wire_request req body) = Responded resp"
    and "is_2xx (p_StatusCode resp)" and "\<not> s_fails (p_Body resp)"
    and "int (length (s_data (p_Body resp))) \<le> sint (px_maxBodyBytes p)"
  shows "f_entry (fetchUpstream env req body addr p) =
      Some (cacheEntryFromUpstreamResponse (t_cached env) resp (s_data (p_Body resp)))"
    and "f_resp (fetchUpstream env req body addr p) \<noteq> None"
proof -
  let ?n = "px_maxBodyBytes p + 1"
  have n: "int (length (s_data (p_Body resp))) < sint ?n" "0 < sint ?n"
    using assms(1,7) by (simp_all add: sint_limit)
  have lr: "lr_data (read_all_limited ?n (p_Body resp)) = s_data (p_Body resp)"
    "\<not> lr_err (read_all_limited ?n (p_Body resp))"
    using assms(6) by (simp_all add: read_all_within [OF n(1)])
  have "lr_N (read_all_limited ?n (p_Body resp)) \<noteq> 0"
    using read_all_N_zero [OF n(2), of "p_Body resp"] n(1) by simp
  with assms(2-5) lr show "f_entry (fetchUpstream env req body addr p) =
      Some (cacheEntryFromUpstreamResponse (t_cached env) resp (s_data (p_Body resp)))"
    "f_resp (fetchUpstream env req body addr p) \<noteq> None"
    by (simp_all add: fetchUpstream_def Let_def)
qed

section \<open>The cache and the index after a request\<close>

text \<open>
  After a request the cache is what it was, or lacks the key that was looked up, or
  has had a response stored that may be stored.
\<close>

lemma handle_effect_on_cache:
  assumes "handleRequest env req addr port ns ls p = (p', eff)" and "sane_limit p"
  obtains (kept) "px_cache p' = px_cache p" and "px_varyIndex p' = px_varyIndex p" and "same_config p p'"
  | (dropped) k r where "match_for p req addr port ns ls = Some r" and "k = lookup_key env r req (buffered req p) port p"
      and "px_cache p' = cache_delete k (px_cache p)" and "px_varyIndex p' = px_varyIndex p" and "same_config p p'"
  | (added) r resp c where "match_for p req addr port ns ls = Some r" and "\<not> too_large req p"
      and "may_store env req addr p resp"
      and "lookup_cached env req (lookup_key env r req (buffered req p) port p) p = (None, c)"
      and "px_cache p' = stored_cache env (store_key env r (sent req p) (buffered req p) port (p_Header resp))
             (lookup_key env r req (buffered req p) port p) (entry_of env r resp) c"
      and "px_varyIndex p' = px_varyIndex (storeVaryIndex (base_key req port) (all_vary env r (p_Header resp)) p)"
      and "same_config p p'"
proof (cases "match_for p req addr port ns ls = None \<or> too_large req p")
  case True
  then show thesis
  proof (rule handleRequest_unmatched [where env = env])
    fix p1
    assume p1: "handleRequest env req addr port ns ls p =
        handle_unmatched env (effective_host req addr) (prepared req p) (buffered req p) addr p1"
      "px_cache p1 = px_cache p" "px_varyIndex p1 = px_varyIndex p" "same_config p p1"
    with assms(1) have "handle_unmatched env (effective_host req addr) (prepared req p) (buffered req p) addr p1 = (p', eff)"
      by simp
    from handle_unmatched_keeps [OF this] p1 show thesis by (intro kept) (simp_all add: same_config_def)
  qed
next
  case False
  then obtain r where r: "match_for p req addr port ns ls = Some r" "\<not> too_large req p"
    by auto
  show thesis
  proof (rule handleRequest_matched [OF r, where env = env])
    fix p1
    assume p1: "handleRequest env req addr port ns ls p =
        handle_matched env r (effective_host req addr) (prepared req p) (buffered req p) addr port p1"
      "px_cache p1 = px_cache p" "px_varyIndex p1 = px_varyIndex p" "same_config p p1"
    have key: "lookup_key env r (prepared req p) (buffered req p) port p1 = lookup_key env r req (buffered req p) port p"
      using lookup_key_cong [OF p1(3)] by simp
    have look: "lookup_cached env (prepared req p) k p1 = lookup_cached env req k p" for k
      by (simp add: lookup_cached_def p1(2))
    have cfg: "same_config p q" if "same_config p1 q" for q
      using that p1(4) by (simp add: same_config_def)
    from assms(1) p1(1)
    have "handle_matched env r (effective_host req addr) (prepared req p) (buffered req p) addr port p1 = (p', eff)"
      by simp
    then show thesis
    proof (cases rule: handle_matched_cases)
      case (hit e)
      with p1 cfg show thesis by (intro kept) simp_all
    next
      case (failed c)
      with lookup_cached_miss [OF failed(1)] p1 cfg kept dropped [OF r(1) refl] show thesis
        unfolding key by metis
    next
      case (passed c resp)
      with lookup_cached_miss [OF passed(1)] p1 cfg kept dropped [OF r(1) refl] show thesis
        unfolding key by metis
    next
      case (stored c e resp0)
      have sane: "sane_limit (p1\<lparr>px_cache := c\<rparr>)"
        using assms(2) sane_limit_cong [OF p1(4)] by simp
      have lk: "lookup_cached env req (lookup_key env r req (buffered req p) port p) p = (None, c)"
        using stored(1) by (simp add: key [simplified] look [simplified])
      show thesis
      proof (rule fetch_entry_sane [OF stored(3) sane, where r = r])
        fix resp
        assume "up_dial env addr" "up_exchange env addr (sent req p) = Responded resp" "is_2xx (p_StatusCode resp)"
          "\<not> s_fails (p_Body resp)" "px_maxBodyBytes (p1\<lparr>px_cache := c\<rparr>) \<noteq> 0"
          "int (length (s_data (p_Body resp))) \<le> sint (px_maxBodyBytes (p1\<lparr>px_cache := c\<rparr>))"
          "e_Header e = p_Header resp" "with_ttl r e = entry_of env r resp"
        with stored p1 lk show thesis
          by (intro added [OF r, of resp c]) (simp_all add: may_store_def key [simplified] same_config_def storeVaryIndex_def)
      qed
    qed
  qed
qed

section \<open>Agreement of the two keys\<close>

lemma generate_cong_config:
  assumes "r_Host q = r_Host q'" and "r_Method q = r_Method q'" and "r_URL q = r_URL q'"
    and "mset v = mset v'" and "\<forall>n \<in> set v'. header_get (r_Header q) n = header_get (r_Header q') n"
  shows "generate q body (key_cfg r port v) = generate q' body (key_cfg r port v')"
proof (rule generate_cong, rule key_preimage_cong)
  have "mset (vary_pairs q v) = mset (vary_pairs q v')"
    using assms(4) by (rule mset_vary_pairs)
  also have "vary_pairs q v' = vary_pairs q' v'"
    using assms(5) by (simp add: vary_pairs_def)
  finally show "mset (vary_pairs q (VaryHeaders (key_cfg r port v))) = mset (vary_pairs q' (VaryHeaders (key_cfg r port v')))"
    by simp
qed (use assms in \<open>simp_all add: key_host_def\<close>)

text \<open>
  The vary names of a rule are in canonical form without duplicates, and no name is
  that of the one header the proxy itself changes.
\<close>

definition canonical_rule :: "rule \<Rightarrow> bool" where
  "canonical_rule r \<longleftrightarrow> distinct (RVaryHeaders r) \<and> (\<forall>n \<in> set (RVaryHeaders r). canonical_header_key n = n)"

definition connection_free :: "string list \<Rightarrow> bool" where
  "connection_free ns \<longleftrightarrow> (\<forall>n \<in> set ns. canonical_header_key n \<noteq> ''Connection'')"

lemma canonical_connection [simp]: "canonical_header_key ''Connection'' = ''Connection''"
  by code_simp

lemma canonical_names_rule: "canonical_rule r \<Longrightarrow> canonical_names (RVaryHeaders r) = set (RVaryHeaders r)"
  by (auto simp: canonical_rule_def canonical_names_def image_iff)

text \<open>Merging the stored list into the rule's again gives the stored list.\<close>

lemma merge_all_vary:
  assumes "canonical_rule r"
  shows "mset (mergeVaryHeaders ord (RVaryHeaders r) (all_vary env r h)) = mset (all_vary env r h)"
proof (cases "parseVaryHeader (header_get h ''Vary'') = []")
  case True
  then have av: "all_vary env r h = RVaryHeaders r"
    by (simp add: all_vary_def)
  show ?thesis
  proof (cases "RVaryHeaders r = []")
    case False
    then have "mergeVaryHeaders ord (RVaryHeaders r) (RVaryHeaders r) = sorted_list_of_set (set (RVaryHeaders r))"
      using assms by (simp add: mergeVaryHeaders_eq canonical_names_rule)
    moreover have "mset (sorted_list_of_set (set (RVaryHeaders r))) = mset (RVaryHeaders r)"
      using assms by (simp add: canonical_rule_def flip: set_eq_iff_mset_eq_distinct)
    ultimately show ?thesis by (simp add: av)
  qed (simp add: av)
next
  case False
  let ?N = "canonical_names (RVaryHeaders r) \<union> canonical_names (parseVaryHeader (header_get h ''Vary''))"
  have av: "all_vary env r h = sorted_list_of_set ?N"
    using False by (simp add: all_vary_def mergeVaryHeaders_eq)
  have "canonical_names (RVaryHeaders r) \<union> canonical_names (sorted_list_of_set ?N) = ?N"
    using canonical_names_merged [of "RVaryHeaders r @ parseVaryHeader (header_get h ''Vary'')"]
    by (auto simp: canonical_names_Un)
  moreover have "sorted_list_of_set ?N \<noteq> []"
    using False by (simp add: canonical_names_def)
  ultimately show ?thesis
    by (simp add: av mergeVaryHeaders_eq)
qed

text \<open>After a response was stored, looking the same request up gives the key it was stored under.\<close>

lemma lookup_finds_store_key:
  assumes "canonical_rule r" and "connection_free (all_vary env r h)"
    and "all_vary env r h \<noteq> [] \<or> lookupVaryIndex (base_key req port) p = []"
    and "px_varyIndex p' = px_varyIndex (storeVaryIndex (base_key req port) (all_vary env r h) p)"
  shows "lookup_key env' r req body port p' = store_key env r (sent req p) body port h"
proof -
  have "lookupVaryIndex (base_key req port) p' = all_vary env r h"
    using assms(3) lookupVaryIndex_cong [OF assms(4)] by auto
  then have v: "mset (lookup_vary env' r req port p') = mset (all_vary env r h)"
    by (simp add: lookup_vary_def merge_all_vary [OF assms(1)])
  show ?thesis
    unfolding lookup_key_def store_key_def
    by (rule generate_cong_config) (use v assms(2) in \<open>simp_all add: connection_free_def\<close>)
qed

lemma handle_hit:
  assumes "match_for p req addr port ns ls = Some r" and "\<not> too_large req p"
    and "cache_view (px_cache p) (lookup_key env r req (buffered req p) port p) = Some e" and "\<not> expired (t_get env) e"
    and "\<not> req_directive req ccNoStore" and "\<not> req_directive req ccNoCache"
  shows "snd (handleRequest env req addr port ns ls p) = [replyWCachedEntry e]"
    and "px_cache (fst (handleRequest env req addr port ns ls p)) = px_cache p"
proof -
  let ?k = "lookup_key env r req (buffered req p) port p"
  have "snd (handleRequest env req addr port ns ls p) = [replyWCachedEntry e]
    \<and> px_cache (fst (handleRequest env req addr port ns ls p)) = px_cache p"
  proof (rule handleRequest_matched [OF assms(1,2), where env = env])
    fix p1
    assume p1: "handleRequest env req addr port ns ls p =
        handle_matched env r (effective_host req addr) (prepared req p) (buffered req p) addr port p1"
      "px_cache p1 = px_cache p" "px_varyIndex p1 = px_varyIndex p"
    have "lookup_cached env (prepared req p) (lookup_key env r (prepared req p) (buffered req p) port p1) p1 = (Some e, px_cache p1)"
      using assms(3-6) lookup_key_cong [OF p1(3)] by (intro lookup_cached_live) (simp_all add: p1(2))
    with p1 show ?thesis by (simp add: handle_matched_def Let_def)
  qed
  then show "snd (handleRequest env req addr port ns ls p) = [replyWCachedEntry e]"
    "px_cache (fst (handleRequest env req addr port ns ls p)) = px_cache p"
    by simp_all
qed

section \<open>Properties: storing and answering\<close>

lemma sample_may_store:
  "may_store (sample_env (sample_response [] [1])) (sample_request ''/'' []) addr (sample_proxy [open_rule]) (sample_response [] [1])"
  by (simp add: may_store_def sample_env_def sample_response_def is_2xx_def storable_def header_get_def bytes_reader_def
      req_directive_def sample_request_def parseCacheControl_def responseCacheable_def)

lemma sample_too_large [simp]: "\<not> too_large (sample_request path h) p" "buffered (sample_request path h) p = None"
  by (simp_all add: too_large_def buffered_def buffer_body_def sample_request_def)

lemma sample_match_open [simp]: "match_for (sample_proxy [open_rule]) req addr port ns ls = Some open_rule"
  by (simp add: match_open_rule)

lemma handle_stores:
  assumes "store_ok (px_cache p)" and "sane_limit p"
    and "match_for p req addr port ns ls = Some r" and "\<not> too_large req p"
    and "cache_view (px_cache p) (lookup_key env r req (buffered req p) port p) = None"
    and "may_store env req addr p resp" and "entry_fits (entry_of env r resp) (px_cache p)"
  shows "let p' = fst (handleRequest env req addr port ns ls p)
    in cache_view (px_cache p') (store_key env r (sent req p) (buffered req p) port (p_Header resp)) = Some (entry_of env r resp)
      \<and> px_varyIndex p' = px_varyIndex (storeVaryIndex (base_key req port) (all_vary env r (p_Header resp)) p)"
proof (rule handleRequest_matched [OF assms(3,4), where env = env])
  fix p1
  assume p1: "handleRequest env req addr port ns ls p =
      handle_matched env r (effective_host req addr) (prepared req p) (buffered req p) addr port p1"
    "px_cache p1 = px_cache p" "px_varyIndex p1 = px_varyIndex p" "same_config p p1"
  let ?p0 = "p1\<lparr>px_cache := px_cache p\<rparr>"
  let ?f = "fetchUpstream env (prepared req p) (buffered req p) addr ?p0"
  obtain p' eff where res: "handle_matched env r (effective_host req addr) (prepared req p) (buffered req p) addr port p1 = (p', eff)"
    by (cases "handle_matched env r (effective_host req addr) (prepared req p) (buffered req p) addr port p1")
  have key: "lookup_key env r req (buffered req p) port p1 = lookup_key env r req (buffered req p) port p"
    using lookup_key_cong [OF p1(3)] .
  have miss: "lookup_cached env req (lookup_key env r req (buffered req p) port p) p1 = (None, px_cache p)"
    using assms(5) by (simp add: lookup_cached_def cache_get_def cache_view_def p1(2))
  have entry: "f_entry ?f = Some (cacheEntryFromUpstreamResponse (t_cached env) resp (s_data (p_Body resp)))" "f_resp ?f \<noteq> None"
    using assms(2,6) p1(4) sane_limit_cong [OF p1(4)]
    by (intro fetch_stores [where resp = resp]; simp add: may_store_def same_config_def)+
  from res show ?thesis
  proof (cases rule: handle_matched_cases)
    case (hit e)
    with miss show ?thesis by (simp add: key)
  next
    case (failed c)
    with miss entry show ?thesis by (simp add: key)
  next
    case (passed c resp0)
    have "storable req (p_Header resp)"
      using assms(6) by (simp add: may_store_def)
    moreover have "c = px_cache p"
      using passed(1) miss by (simp add: key)
    ultimately show ?thesis
      using passed(3) [of "cacheEntryFromUpstreamResponse (t_cached env) resp (s_data (p_Body resp))"] entry(1)
      by (simp add: cacheEntryFromUpstreamResponse_def)
  next
    case (stored c e resp0)
    have c: "c = px_cache p"
      using stored(1) miss by (simp add: key)
    have e: "with_ttl r e = entry_of env r resp" "e_Header e = p_Header resp"
      using stored(3) entry(1) by (auto simp: c entry_of_def cacheEntryFromUpstreamResponse_def)
    show ?thesis
      using stored(6,7) stored_cache_fits [OF assms(1,7)] p1
      by (simp add: res c e key storeVaryIndex_def)
  qed
qed

lemma open_rule_simps [simp]: "RVaryHeaders open_rule = []" "canonical_rule open_rule"
  by (simp_all add: open_rule_def canonical_rule_def)

lemma sample_no_directive [simp]: "\<not> req_directive (sample_request path []) d"
  by (simp add: req_directive_def sample_request_def header_get_def parseCacheControl_def)

lemma sample_all_vary [simp]: "all_vary env open_rule (p_Header (sample_response [] b)) = []"
  by (simp add: all_vary_def sample_response_def header_get_def parseVaryHeader_def)

lemma sample_fits: "entry_fits (entry_of env open_rule (sample_response [] [1])) (new_store 1000 True)"
  by (simp add: entry_fits_def entry_bytes_def header_bytes_def sample_response_def bytes_reader_def)

lemma sample_stored:
  "\<exists>k. cache_view (px_cache (fst (handleRequest (sample_env (sample_response [] [1])) (sample_request ''/'' []) addr port ns ls
      (sample_proxy [open_rule])))) k = Some (entry_of (sample_env (sample_response [] [1])) open_rule (sample_response [] [1]))"
  using handle_stores [where p = "sample_proxy [open_rule]" and env = "sample_env (sample_response [] [1])"
      and req = "sample_request ''/'' []" and r = open_rule and resp = "sample_response [] [1]", of ns ls addr port]
    sample_may_store [of addr]
  by (auto simp: new_store_ok match_open_rule entry_fits_def entry_bytes_def header_bytes_def sample_response_def bytes_reader_def Let_def)

text \<open>C5. Nothing is stored that should not be. If a request changes what the cache holds under a key, then a
  rule matched it, its body was not too large, neither side forbade storing
  (\<open>no-store\<close>, \<open>private\<close>, \<open>Vary: *\<close>), the upstream answered with a 2xx status and a
  complete body within the limit, and the key holds exactly that response with the
  lifetime its header or the rule gives, under the key of the rule's and the response's
  vary names. This is for a limit \<open>maxBodyBytes\<close> that is not negative and to which one can be added
  without an overflow; with others empty bodies are stored.\<close>

theorem stored_only_if_allowed:
  assumes "handleRequest env req addr port ns ls p = (p', eff)" and "store_ok (px_cache p)" and "sane_limit p"
    and "cache_view (px_cache p') k = Some e" and "cache_view (px_cache p) k \<noteq> Some e"
  shows "\<exists>r resp. match_for p req addr port ns ls = Some r \<and> \<not> too_large req p \<and> may_store env req addr p resp
    \<and> k = store_key env r (sent req p) (buffered req p) port (p_Header resp) \<and> e = entry_of env r resp"
  using assms(1,3)
proof (cases rule: handle_effect_on_cache)
  case kept
  with assms(4,5) show ?thesis by simp
next
  case (dropped k' r)
  with assms(4,5) cs.del_eq [OF assms(2)] show ?thesis by (simp split: if_splits)
next
  case (added r resp c)
  have c: "c = px_cache p \<or> (\<exists>k'. c = cache_delete k' (px_cache p))"
    using lookup_cached_miss [OF added(4)] by blast
  then have "store_ok c" and "cache_view c k \<noteq> Some e"
    using assms(2,5) cs.del_eq [OF assms(2)] by (auto simp: cs.ok_del split: if_splits)
  with stored_cache_view assms(4) added(5) added(1-3) show ?thesis by metis
qed

theorem stored_only_if_allowed_witness:
  "\<exists>r resp. may_store (sample_env (sample_response [] [1])) (sample_request ''/'' []) ''a'' (sample_proxy [open_rule]) resp
    \<and> entry_of (sample_env (sample_response [] [1])) open_rule (sample_response [] [1])
      = entry_of (sample_env (sample_response [] [1])) r resp"
proof -
  let ?p' = "fst (handleRequest (sample_env (sample_response [] [1])) (sample_request ''/'' []) ''a'' 80 [] Map.empty (sample_proxy [open_rule]))"
  obtain k where "cache_view (px_cache ?p') k = Some (entry_of (sample_env (sample_response [] [1])) open_rule (sample_response [] [1]))"
    using sample_stored by blast
  from stored_only_if_allowed [OF surjective_pairing _ _ this] show ?thesis
    by (auto simp: new_store_ok)
qed

text \<open>C22. A live entry under the request's key is the answer: it is written back with its stored status,
  headers and body, \<open>X-Cache: HIT\<close> added, the upstream is not contacted and the cache
  stays as it is. A request that says \<open>no-store\<close> or \<open>no-cache\<close> is never answered from the
  cache.\<close>

theorem cache_hit_exact:
  assumes "match_for p req addr port ns ls = Some r" and "\<not> too_large req p"
    and "cache_view (px_cache p) (lookup_key env r req (buffered req p) port p) = Some e" and "\<not> expired (t_get env) e"
  shows "(if req_directive req ccNoStore \<or> req_directive req ccNoCache
      then Dialed addr \<in> set (snd (handleRequest env req addr port ns ls p))
      else snd (handleRequest env req addr port ns ls p) =
          [Wrote \<lparr>p_StatusCode = e_StatusCode e, p_Proto = e_Proto e, p_ProtoMajor = e_ProtoMajor e,
             p_ProtoMinor = e_ProtoMinor e, p_Header = header_set (e_Header e) ''X-Cache'' ''HIT'',
             p_Body = bytes_reader (e_Body e)\<rparr>]
        \<and> px_cache (fst (handleRequest env req addr port ns ls p)) = px_cache p)"
proof (cases "req_directive req ccNoStore \<or> req_directive req ccNoCache")
  case False
  then show ?thesis
    using handle_hit [OF assms] by (simp add: replyWCachedEntry_def)
next
  case True
  have "Dialed addr \<in> set (snd (handleRequest env req addr port ns ls p))"
  proof (rule handleRequest_matched [OF assms(1,2), where env = env])
    fix p1
    assume p1: "handleRequest env req addr port ns ls p =
        handle_matched env r (effective_host req addr) (prepared req p) (buffered req p) addr port p1"
    obtain p' eff where res: "handle_matched env r (effective_host req addr) (prepared req p) (buffered req p) addr port p1 = (p', eff)"
      by (cases "handle_matched env r (effective_host req addr) (prepared req p) (buffered req p) addr port p1")
    from res have "Dialed addr \<in> set eff"
    proof (cases rule: handle_matched_cases)
      case (hit e)
      with True show ?thesis by (auto dest: lookup_cached_hit(4,5))
    qed (simp_all add: fetch_effects)
    with p1 res show ?thesis by simp
  qed
  with True show ?thesis by simp
qed

definition hit_proxy :: "request \<Rightarrow> proxy" where
  "hit_proxy req =
     (sample_proxy [open_rule])\<lparr>px_cache := cache_set id 0
        (lookup_key (sample_env (sample_response [] [1])) open_rule req None 80 (sample_proxy [open_rule]))
        (sample_entry [1] 0 5) (new_store 1000 True)\<rparr>"

theorem cache_hit_exact_witness:
  "snd (handleRequest (sample_env (sample_response [] [2])) (sample_request ''/'' []) ''a'' 80 [] Map.empty
      (hit_proxy (sample_request ''/'' [])))
    = [replyWCachedEntry (sample_entry [1] 0 5)]"
proof -
  let ?req = "sample_request ''/'' []" and ?env = "sample_env (sample_response [] [2])"
  let ?p = "hit_proxy ?req"
  let ?k = "lookup_key (sample_env (sample_response [] [1])) open_rule ?req None 80 (sample_proxy [open_rule])"
  have vary: "lookupVaryIndex b (sample_proxy [open_rule]) = []" for b
    by (simp add: lookupVaryIndex_def)
  have "lookupVaryIndex b ?p = []" for b
    using lookupVaryIndex_cong [of ?p "sample_proxy [open_rule]" b] by (simp add: vary hit_proxy_def)
  then have k: "lookup_key ?env open_rule ?req (buffered ?req ?p) 80 ?p = ?k"
    by (simp add: lookup_key_def lookup_vary_def vary)
  have "cache_view (px_cache ?p) ?k = Some (sample_entry [1] 0 5)"
    using cs.put_fits [OF new_store_ok [of 1000 True], of "sample_entry [1] 0 5" "(id, 0)" ?k]
    by (simp add: hit_proxy_def put_entry_def entry_fits_def)
  moreover have "\<not> expired (t_get ?env) (sample_entry [1] 0 5)"
    by (simp add: expired_sample sample_env_def)
  moreover have "match_for ?p ?req ''a'' 80 [] Map.empty = Some open_rule"
    by (simp add: hit_proxy_def match_open_rule)
  moreover have "\<not> req_directive ?req d" for d
    by (simp add: req_directive_def sample_request_def header_get_def parseCacheControl_def)
  ultimately show ?thesis
    using cache_hit_exact [of ?p "[]" Map.empty ?req "''a''" 80 open_rule ?env "sample_entry [1] 0 5"]
    by (simp add: k [simplified] replyWCachedEntry_def)
qed

lemma handle_same_config:
  assumes "sane_limit p"
  shows "same_config p (fst (handleRequest env req addr port ns ls p))"
  by (rule handle_effect_on_cache [OF surjective_pairing [of "handleRequest env req addr port ns ls p"] assms])

lemma buffered_cong: "same_config p q \<Longrightarrow> buffered req q = buffered req p \<and> too_large req q = too_large req p"
  by (auto simp: buffered_def too_large_def buffer_body_def same_config_def Let_def split: option.split)

text \<open>C9. A miss is followed by hits. Once a response was stored, the same request is answered with it and
  without contact with the upstream: at once, and in every later state in which the entry is
  still held under its key, the vary names of the target are still those, and the entry's
  lifetime has not ended. The later request may come from another pod and another namespace and
  may have been sent to another address, but to the same port, and must match the same rule.
  The request says neither \<open>no-store\<close> nor \<open>no-cache\<close> and its body fits the limit; the response may be stored and fits the
  cache; the rule's vary names are canonical, none of the names is \<open>Connection\<close>, and the index
  holds no list for the target when the response adds none; the limit \<open>maxBodyBytes\<close> is not negative,
  adding one to it does not overflow, and it is the same later.\<close>

theorem miss_then_hit:
  assumes "store_ok (px_cache p)" and "sane_limit p"
    and "match_for p req addr port ns ls = Some r" and "\<not> too_large req p"
    and "cache_view (px_cache p) (lookup_key env r req (buffered req p) port p) = None"
    and "may_store env req addr p resp" and "entry_fits (entry_of env r resp) (px_cache p)"
    and "canonical_rule r" and "connection_free (all_vary env r (p_Header resp))"
    and "all_vary env r (p_Header resp) \<noteq> [] \<or> lookupVaryIndex (base_key req port) p = []"
    and "match_for p req addr' port ns' ls' = Some r" and "\<not> req_directive req ccNoCache"
    and "\<not> expired (t_get env') (entry_of env r resp)"
    and "p' = fst (handleRequest env req addr port ns ls p)"
    and "k = store_key env r (sent req p) (buffered req p) port (p_Header resp)"
  shows "snd (handleRequest env' req addr' port ns' ls' p') = [replyWCachedEntry (entry_of env r resp)]
    \<and> cache_view (px_cache p') k = Some (entry_of env r resp)
    \<and> (\<forall>q. px_maxBodyBytes q = px_maxBodyBytes p \<and> match_for q req addr' port ns' ls' = Some r
          \<and> lookupVaryIndex (base_key req port) q = lookupVaryIndex (base_key req port) p'
          \<and> cache_view (px_cache q) k = cache_view (px_cache p') k \<longrightarrow>
        snd (handleRequest env' req addr' port ns' ls' q) = [replyWCachedEntry (entry_of env r resp)])"
proof -
  have stored: "cache_view (px_cache p') k = Some (entry_of env r resp)"
    "px_varyIndex p' = px_varyIndex (storeVaryIndex (base_key req port) (all_vary env r (p_Header resp)) p)"
    using handle_stores [OF assms(1-7)] by (simp_all add: Let_def assms(14,15))
  have same: "same_config p p'"
    unfolding assms(14) by (rule handle_same_config [OF assms(2)])
  have hit: "snd (handleRequest env' req addr' port ns' ls' q) = [replyWCachedEntry (entry_of env r resp)]"
    if q: "px_maxBodyBytes q = px_maxBodyBytes p" "match_for q req addr' port ns' ls' = Some r"
      "lookupVaryIndex (base_key req port) q = lookupVaryIndex (base_key req port) p'"
      "cache_view (px_cache q) k = cache_view (px_cache p') k" for q
  proof (rule handle_hit(1) [OF q(2)])
    have b: "buffered req q = buffered req p" "too_large req q = too_large req p"
      using q(1) by (simp_all add: buffered_def too_large_def buffer_body_def Let_def split: option.split)
    show "\<not> too_large req q"
      by (simp add: b assms(4))
    have "lookup_key env' r req (buffered req p) port q = lookup_key env' r req (buffered req p) port p'"
      by (simp add: lookup_key_def lookup_vary_def q(3))
    also have "\<dots> = k"
      unfolding assms(15) by (rule lookup_finds_store_key [OF assms(8-10) stored(2)])
    finally show "cache_view (px_cache q) (lookup_key env' r req (buffered req q) port q) = Some (entry_of env r resp)"
      by (simp add: b q(4) stored(1))
    show "\<not> req_directive req ccNoStore"
      using assms(6) by (simp add: may_store_def storable_def)
  qed (use assms in simp_all)
  have "match_for p' req addr' port ns' ls' = Some r" "px_maxBodyBytes p' = px_maxBodyBytes p"
    using same assms(11) by (simp_all add: same_config_def)
  with hit stored(1) show ?thesis by blast
qed

theorem miss_then_hit_witness:
  "let env = sample_env (sample_response [] [1]); req = sample_request ''/'' []; p = sample_proxy [open_rule]
   in snd (handleRequest env req ''10.0.0.2:80'' 80 ''b'' Map.empty (fst (handleRequest env req ''10.0.0.1:80'' 80 ''a'' Map.empty p)))
     = [replyWCachedEntry (entry_of env open_rule (sample_response [] [1]))]"
  unfolding Let_def
proof (rule miss_then_hit [THEN conjunct1, OF _ _ _ _ _ _ _ _ _ _ _ _ _ refl refl])
  let ?env = "sample_env (sample_response [] [1])"
  show "\<not> expired (t_get ?env) (entry_of ?env open_rule (sample_response [] [1]))"
    by (simp add: expired_def sint_time_sub sample_env_def entry_of_def with_ttl_def cacheEntryFromUpstreamResponse_def
        sample_response_def header_get_def parseCacheControl_def cacheControlTTL_def open_rule_def)
qed (simp_all add: new_store_ok match_open_rule sample_may_store lookupVaryIndex_def sample_fits connection_free_def)

text \<open>The handler keeps the cache's invariants: the counters stay exact and the byte budget holds, provided
  the headers an upstream sends do not make a size overflow 63 bits.\<close>

theorem handler_keeps_cache_invariants:
  assumes "store_ok (px_cache p)" and "within_budget (px_cache p)" and "sane_limit p"
    and "\<forall>w resp. up_exchange env addr w = Responded resp \<longrightarrow>
      max 0 (sint (maxBytes (px_cache p))) + sint (px_maxBodyBytes p) + int (header_bytes (p_Header resp)) < 2 ^ 63"
  shows "let c = px_cache (fst (handleRequest env req addr port ns ls p))
    in store_ok c \<and> within_budget c \<and> maxBytes c = maxBytes (px_cache p)"
proof -
  obtain p' eff where res: "handleRequest env req addr port ns ls p = (p', eff)"
    by (cases "handleRequest env req addr port ns ls p")
  have "store_ok (px_cache p') \<and> within_budget (px_cache p') \<and> maxBytes (px_cache p') = maxBytes (px_cache p)"
    using res assms(3)
  proof (cases rule: handle_effect_on_cache)
    case (added r resp c)
    have c: "store_ok c" "within_budget c" "maxBytes c = maxBytes (px_cache p)"
      using lookup_cached_miss [OF added(4)] assms(1,2) by (auto simp: cs.ok_del cache_delete_budget)
    have "no_overflow (maxBytes c) (entry_of env r resp)"
      using added(3) assms(4) by (fastforce simp: may_store_def no_overflow_def entry_bytes_def c(3))
    with c added show ?thesis
      by (simp add: stored_cache_ok stored_cache_budget)
  qed (use assms in \<open>simp_all add: cs.ok_del cache_delete_budget\<close>)
  with res show ?thesis by (simp add: Let_def)
qed

theorem handler_keeps_cache_invariants_witness:
  "store_ok (px_cache (fst (handleRequest (sample_env (sample_response [] [1])) (sample_request ''/'' []) ''a'' 80 [] Map.empty
     (sample_proxy [open_rule]))))"
  using handler_keeps_cache_invariants [of "sample_proxy [open_rule]" "sample_env (sample_response [] [1])" "''a''"
      "sample_request ''/'' []" 80 "[]" Map.empty]
  by (simp add: new_store_ok new_store_budget sample_env_def sample_response_def header_bytes_def Let_def)

lemma merge_nonempty: "b \<noteq> [] \<Longrightarrow> mergeVaryHeaders ord a b \<noteq> []"
  by (simp add: mergeVaryHeaders_eq) (simp add: canonical_names_def)

text \<open>The vary index is never cleared. When it holds names for a target and the response to be stored adds
  none (no \<open>Vary\<close> header, no names in the rule), the response is stored under a key made
  from a shorter text than the key every later lookup of that request uses: short of a
  hash collision it is never found.\<close>

theorem stale_vary_index_hides_response:
  assumes "store_ok (px_cache p)" and "sane_limit p"
    and "match_for p req addr port ns ls = Some r" and "\<not> too_large req p"
    and "cache_view (px_cache p) (lookup_key env r req (buffered req p) port p) = None"
    and "may_store env req addr p resp" and "entry_fits (entry_of env r resp) (px_cache p)"
    and "lookupVaryIndex (base_key req port) p \<noteq> []" and "all_vary env r (p_Header resp) = []"
  shows "let p' = fst (handleRequest env req addr port ns ls p);
      cfg = key_cfg r port []; cfg' = key_cfg r port (lookup_vary env' r req port p')
    in cache_view (px_cache p') (generate (sent req p) (buffered req p) cfg) = Some (entry_of env r resp)
      \<and> lookup_key env' r req (buffered req p') port p' = generate req (buffered req p) cfg'
      \<and> length (key_preimage (sent req p) (buffered req p) cfg) < length (key_preimage req (buffered req p) cfg')"
proof -
  let ?p' = "fst (handleRequest env req addr port ns ls p)"
  have stored: "cache_view (px_cache ?p') (store_key env r (sent req p) (buffered req p) port (p_Header resp)) = Some (entry_of env r resp)"
    "px_varyIndex ?p' = px_varyIndex p"
    using handle_stores [OF assms(1-7)] assms(9) by (simp_all add: Let_def storeVaryIndex_def)
  have index: "lookupVaryIndex (base_key req port) ?p' = lookupVaryIndex (base_key req port) p"
    using stored(2) by (rule lookupVaryIndex_cong)
  have "lookup_vary env' r req port ?p' \<noteq> []"
    using assms(8) merge_nonempty [of "lookupVaryIndex (base_key req port) p"] by (simp add: lookup_vary_def index)
  then obtain n ns where v: "lookup_vary env' r req port ?p' = n # ns"
    by (cases "lookup_vary env' r req port ?p'") auto
  have "sort (vary_pairs req (n # ns)) \<noteq> []"
    by (metis length_0_conv length_sort list.distinct(1) list.simps(9) vary_pairs_def)
  then obtain y ys where "sort (vary_pairs req (n # ns)) = y # ys"
    by (cases "sort (vary_pairs req (n # ns))") blast+
  moreover have "key_head (sent req p) (key_cfg r port []) = key_head req (key_cfg r port (n # ns))"
    by (simp add: key_head_def key_host_def)
  ultimately have "length (key_preimage (sent req p) (buffered req p) (key_cfg r port []))
      < length (key_preimage req (buffered req p) (key_cfg r port (n # ns)))"
    by (simp add: key_preimage_def bytes_of_def split: option.split)
  then show ?thesis
    using stored(1) assms(9) buffered_cong [OF handle_same_config [OF assms(2)]]
    by (simp add: Let_def store_key_def lookup_key_def v)
qed

theorem stale_vary_index_hides_response_witness:
  "let p = (sample_proxy [open_rule])\<lparr>px_varyIndex := \<lambda>_. Some [''Accept'']\<rparr>; req = sample_request ''/'' [];
     p' = fst (handleRequest (sample_env (sample_response [] [1])) req ''a'' 80 [] Map.empty p)
   in length (key_preimage (sent req p) (buffered req p) (key_cfg open_rule 80 []))
     < length (key_preimage req (buffered req p)
         (key_cfg open_rule 80 (lookup_vary (sample_env (sample_response [] [1])) open_rule req 80 p')))"
proof -
  let ?p = "(sample_proxy [open_rule])\<lparr>px_varyIndex := \<lambda>_. Some [''Accept'']\<rparr>"
  have may: "may_store (sample_env (sample_response [] [1])) (sample_request ''/'' []) ''a'' ?p (sample_response [] [1])"
    using sample_may_store [of "''a''"] by (simp add: may_store_def sample_env_def)
  have "sane_limit ?p"
    by (simp add: sane_limit_def)
  from stale_vary_index_hides_response [OF _ this _ _ _ may, of "[]" Map.empty 80 open_rule "sample_env (sample_response [] [1])"]
  show ?thesis
    by (simp add: new_store_ok match_open_rule sample_fits lookupVaryIndex_def Let_def)
qed

end
