(* ===== verification/Proxy_Limits.thy ===== *)
theory Proxy_Limits
imports Proxy_Caching
begin

text \<open>
  The limits of \<open>maxBodyBytes\<close> in \<open>handleRequest\<close> and \<open>fetchUpstream\<close> of \<open>internal/proxy/proxy.go\<close>. Both
  read up to \<open>maxBodyBytes + 1\<close> bytes, a sum of 64-bit integers; where it is negative the
  \<open>io.LimitedReader\<close> gives nothing and the end of the body at once.
\<close>

section \<open>Where the sum is negative\<close>

lemma limit_sum:
  fixes n :: int64
  shows "sint (n + 1) < 0 \<longleftrightarrow> sint n = 2 ^ 63 - 1 \<or> sint n < - 1"
proof -
  have r: "- (2 ^ 63) \<le> sint n" "sint n < 2 ^ 63"
    using sint_range_size [of n] by (simp_all add: word_size)
  show ?thesis
  proof (cases "sint n = 2 ^ 63 - 1")
    case True
    moreover have "word_of_int (sint n) = n"
      by simp
    ultimately have "n = word_of_int (2 ^ 63 - 1)"
      by metis
    then show ?thesis by simp
  next
    case False
    with r have "sint (n + 1) = sint n + 1"
      by (simp add: sint_word_ariths signed_take_bit_int_eq_self)
    with False show ?thesis by linarith
  qed
qed

lemma read_nothing:
  assumes "sint n < 0"
  shows "lr_data (read_all_limited n s) = []" "lr_N (read_all_limited n s) \<noteq> 0" "\<not> lr_err (read_all_limited n s)"
  using assms by (auto simp: read_all_limited_def)

lemma fetch_nothing:
  assumes "sint (px_maxBodyBytes p + 1) < 0" and "f_resp (fetchUpstream env req body addr p) = Some resp"
  shows "p_Body resp = bytes_reader []"
proof -
  have "px_maxBodyBytes p \<noteq> 0"
    using assms(1) by auto
  with assms(2) read_nothing [OF assms(1)] show ?thesis
    by (auto simp: fetchUpstream_def Let_def split: if_splits exchange.splits)
qed

lemma fetch_nothing_entry:
  assumes "sint (px_maxBodyBytes p + 1) < 0" and "f_entry (fetchUpstream env req body addr p) = Some e"
  shows "e_Body e = []"
  using assms(2) read_nothing [OF assms(1)]
  by (auto simp: fetchUpstream_def cacheEntryFromUpstreamResponse_def Let_def split: if_splits exchange.splits)

lemma buffer_nothing:
  assumes "sint (px_maxBodyBytes p + 1) < 0" and "0 < sint (px_maxBodyBytes p)"
  shows "r_Body (wire_request (prepared req p) (buffered req p)) = Some (bytes_reader [])"
  using assms read_nothing [OF assms(1)]
  by (auto simp: wire_request_def prepared_def buffered_def buffer_body_def Let_def split: option.split)

section \<open>Properties\<close>

text \<open>C7. A limit that is too large, or negative, loses every body. With \<open>MAX_BODY_BYTES\<close> set to the largest
  64-bit integer, as for \<open>no limit\<close>, or to less than -1, every response that is fetched is given
  to the client with an empty body, and every entry that a request adds to the cache has an empty
  body; with the largest integer every request is also sent to the upstream with an empty body.
  Only what was in the cache before is delivered whole.\<close>

theorem limit_overflow_drops_bodies:
  assumes "sint (px_maxBodyBytes p) = 2 ^ 63 - 1 \<or> sint (px_maxBodyBytes p) < - 1"
    and "handleRequest env req addr port ns ls p = (p', eff)" and "store_ok (px_cache p)"
  shows "(\<forall>resp. Wrote resp \<in> set eff \<longrightarrow> p_Body resp = bytes_reader [] \<or> reply_from_cache (px_cache p) eff)
    \<and> (0 < sint (px_maxBodyBytes p) \<longrightarrow> (\<forall>a r. Forwarded a r \<in> set eff \<longrightarrow> r_Body r = Some (bytes_reader [])))
    \<and> (\<forall>k e. cache_view (px_cache p') k = Some e \<longrightarrow> e_Body e = [] \<or> cache_view (px_cache p) k = Some e)"
proof -
  let ?req = "prepared req p" and ?body = "buffered req p"
  have neg: "sint (px_maxBodyBytes p + 1) < 0"
    using assms(1) limit_sum by blast
  have sent: "r_Body r = Some (bytes_reader [])" if "0 < sint (px_maxBodyBytes p)"
    "Forwarded a r \<in> set (f_effects (fetchUpstream env ?req ?body addr q))" for a r q
    using that buffer_nothing [OF neg that(1)] by (auto simp: fetch_effects split: if_splits)
  have no_write: "Wrote resp \<notin> set (f_effects (fetchUpstream env ?req ?body addr q))" for resp q
    by (simp add: fetch_effects)
  show ?thesis
  proof (cases "match_for p req addr port ns ls = None \<or> too_large req p")
    case True
    then obtain p1 where h: "handleRequest env req addr port ns ls p =
        handle_unmatched env (effective_host req addr) ?req ?body addr p1" "same_config p p1"
      "px_cache p1 = px_cache p"
      by (rule handleRequest_unmatched)
    then have "sint (px_maxBodyBytes p1 + 1) < 0"
      using neg by (simp add: same_config_def)
    moreover have "px_cache p' = px_cache p"
      using h assms(2) handle_unmatched_keeps(1) by metis
    ultimately show ?thesis
      using h assms(2) fetch_nothing [of p1 env ?req ?body addr] sent [of _ _ p1] no_write [of _ p1]
      by (auto simp: handle_unmatched_def Let_def writeBadGateway_def split: option.splits)
  next
    case False
    then obtain r where "match_for p req addr port ns ls = Some r" "\<not> too_large req p"
      by auto
    then obtain p1 where h: "handleRequest env req addr port ns ls p =
        handle_matched env r (effective_host req addr) ?req ?body addr port p1"
      "px_cache p1 = px_cache p" "same_config p p1"
      by (rule handleRequest_matched)
    then have neg1: "sint (px_maxBodyBytes (p1\<lparr>px_cache := c\<rparr>) + 1) < 0" for c
      using neg by (simp add: same_config_def)
    from h(1) assms(2) have "handle_matched env r (effective_host req addr) ?req ?body addr port p1 = (p', eff)"
      by simp
    then show ?thesis
    proof (cases rule: handle_matched_cases)
      case (hit e)
      then show ?thesis
        using lookup_cached_hit(2) [OF hit(1)] h(2) by (auto simp: reply_from_cache_def replyWCachedEntry_def)
    next
      case (failed c)
      have "cache_view c \<subseteq>\<^sub>m cache_view (px_cache p)"
        using lookup_cached_miss [OF failed(1)] h(2) by (auto simp: map_le_drop)
      with failed(3,4) sent no_write show ?thesis
        by (auto simp: writeBadGateway_def dest: map_le_SomeD)
    next
      case (passed c resp)
      have "cache_view c \<subseteq>\<^sub>m cache_view (px_cache p)"
        using lookup_cached_miss [OF passed(1)] h(2) by (auto simp: map_le_drop)
      with passed(4,5) fetch_nothing [OF neg1 passed(2)] sent no_write show ?thesis
        by (auto dest: map_le_SomeD)
    next
      case (stored c e resp)
      have c: "cache_view c \<subseteq>\<^sub>m cache_view (px_cache p)" "store_ok c"
        using lookup_cached_miss [OF stored(1)] h(2) assms(3) by (auto simp: map_le_drop cs.ok_del)
      have "e_Body (with_ttl r e) = []"
        using fetch_nothing_entry [OF neg1 stored(3)] by (simp add: with_ttl_def)
      then have "e_Body e' = [] \<or> cache_view (px_cache p) k = Some e'" if "cache_view (px_cache p') k = Some e'" for k e'
        using stored_cache_view [OF c(2)] map_le_SomeD [OF c(1)] that unfolding stored(6) by metis
      with stored(5) fetch_nothing [OF neg1 stored(2)] sent no_write show ?thesis
        by (auto simp: mark_miss_def)
    qed
  qed
qed

abbreviation unlimited_proxy :: proxy where
  "unlimited_proxy \<equiv> (sample_proxy [])\<lparr>px_maxBodyBytes := 0x7FFFFFFFFFFFFFFF\<rparr>"

theorem limit_overflow_drops_bodies_witness:
  "\<exists>resp. snd (handleRequest (sample_env (sample_response [] [1])) (sample_request ''/'' []) ''a'' 80 [] Map.empty unlimited_proxy)
      = [Dialed ''a'', Forwarded ''a'' (wire_request (sample_request ''/'' []) None), Wrote resp] \<and> p_Body resp = bytes_reader []"
proof -
  let ?env = "sample_env (sample_response [] [1])" and ?req = "sample_request ''/'' []"
  obtain p' eff where h: "handleRequest ?env ?req ''a'' 80 [] Map.empty unlimited_proxy = (p', eff)"
    by (cases "handleRequest ?env ?req ''a'' 80 [] Map.empty unlimited_proxy")
  obtain p1 where p1: "handleRequest ?env ?req ''a'' 80 [] Map.empty unlimited_proxy =
      handle_unmatched ?env (effective_host ?req ''a'') (prepared ?req unlimited_proxy) (buffered ?req unlimited_proxy) ''a'' p1"
    "same_config unlimited_proxy p1"
    by (rule handleRequest_unmatched [where p = unlimited_proxy and req = ?req and addr = "''a''" and port = 80 and ns = "[]"
        and ls = Map.empty and env = ?env]) (simp add: match_no_rule)
  have "px_maxBodyBytes p1 = 0x7FFFFFFFFFFFFFFF"
    using p1(2) by (simp add: same_config_def)
  then have "f_resp (fetchUpstream ?env r b ''a'' p1) \<noteq> None" for r b
    by (simp add: fetchUpstream_def sample_env_def Let_def read_all_limited_def sample_response_def is_2xx_def)
  then obtain resp where "f_resp (fetchUpstream ?env ?req None ''a'' p1) = Some resp"
    by blast
  moreover have "prepared ?req unlimited_proxy = ?req" "buffered ?req unlimited_proxy = None" "up_dial ?env ''a''"
    by (simp_all add: prepared_def buffered_def buffer_body_def sample_request_def sample_env_def)
  ultimately have eff: "eff = [Dialed ''a'', Forwarded ''a'' (wire_request ?req None), Wrote resp]"
    using h p1(1) by (simp add: handle_unmatched_def Let_def fetch_effects)
  from limit_overflow_drops_bodies [OF _ h] eff h show ?thesis
    by (auto simp: reply_from_cache_def new_store_ok)
qed

end
