(* ===== verification/Tls_Sni.thy ===== *)
theory Tls_Sni
imports Go_Text "HOL-Library.Monad_Syntax"
begin

text \<open>
  \<open>internal/tlsmitm/sni.go\<close>: reading the server name out of a TLS ClientHello without
  consuming it. Indexing and slicing are partial functions, \<open>None\<close> where Go panics, so
  that the absence of panics is a theorem. \<open>encode_record\<close> writes a ClientHello as
  RFC 8446 and RFC 6066 lay it out; the main theorem says that \<open>PeekSNI\<close> reads back
  the name it was given.
\<close>

section \<open>Bytes of a slice\<close>

definition byte_at :: "bytes \<Rightarrow> nat \<Rightarrow> byte option" where
  "byte_at d i = (if i < length d then Some (d ! i) else None)"

definition slice :: "bytes \<Rightarrow> nat \<Rightarrow> nat \<Rightarrow> bytes option" where
  "slice d a b = (if a \<le> b \<and> b \<le> length d then Some (take (b - a) (drop a d)) else None)"

text \<open>\<open>binary.BigEndian.Uint16\<close> of a slice of two bytes, as an \<open>int\<close>.\<close>

definition be16 :: "bytes \<Rightarrow> nat \<Rightarrow> nat option" where
  "be16 d i = do { s \<leftarrow> slice d i (i + 2); Some (256 * unat (s ! 0) + unat (s ! 1)) }"

text \<open>
  \<open>Peek\<close> on a \<open>bufio.Reader\<close> with the default buffer of 4096 bytes: an error when the
  request is larger than the buffer or the stream ends before.
\<close>

definition buffer_size :: nat where
  "buffer_size = 4096"

definition peek :: "nat \<Rightarrow> bytes \<Rightarrow> bytes option" where
  "peek n s = (if n \<le> buffer_size \<and> n \<le> length s then Some (take n s) else None)"

section \<open>The parser\<close>

text \<open>The server-name extension whose content starts at \<open>pos\<close>; the empty string for a \<open>break\<close>.\<close>

definition server_name :: "bytes \<Rightarrow> nat \<Rightarrow> nat \<Rightarrow> string option" where
  "server_name data pos extLen =
     (let p = pos + 2 in
      if p + 3 > pos + extLen then Some []
      else do {
        nameType \<leftarrow> byte_at data p;
        if nameType \<noteq> 0 then Some []
        else do {
          nameLen \<leftarrow> be16 data (p + 1);
          if p + 3 + nameLen > pos + extLen then Some []
          else map_option string_of (slice data (p + 3) (p + 3 + nameLen))
        }
      })"

text \<open>The loop over the extensions.\<close>

function ext_loop :: "bytes \<Rightarrow> nat \<Rightarrow> nat \<Rightarrow> string option" where
  "ext_loop data pos extEnd =
     (if pos + 4 \<le> extEnd then
        do {
          extType \<leftarrow> be16 data pos;
          extLen \<leftarrow> be16 data (pos + 2);
          if pos + 4 + extLen > extEnd then Some []
          else if extType = 0 \<and> extLen \<ge> 5 then server_name data (pos + 4) extLen
          else ext_loop data (pos + 4 + extLen) extEnd
        }
      else Some [])"
  by pat_completeness auto
termination
  by (relation "measure (\<lambda>(data, pos, extEnd). extEnd - pos)") auto

declare ext_loop.simps [simp del]

datatype sni_result = Sni_Error | Sni string

text \<open>The part after the record header and the handshake type were checked.\<close>

definition parse_hello :: "bytes \<Rightarrow> string option" where
  "parse_hello data =
     (let pos = 5 + 4 + 2 + 32 in
      if pos + 1 > length data then Some []
      else do {
        sidLen \<leftarrow> map_option unat (byte_at data pos);
        let pos = pos + (1 + sidLen);
        if pos + 2 > length data then Some []
        else do {
          csLen \<leftarrow> be16 data pos;
          let pos = pos + (2 + csLen);
          if pos + 1 > length data then Some []
          else do {
            compLen \<leftarrow> map_option unat (byte_at data pos);
            let pos = pos + (1 + compLen);
            if pos + 2 > length data then Some []
            else do {
              extTotal \<leftarrow> be16 data pos;
              let pos = pos + 2;
              ext_loop data pos (min (pos + extTotal) (length data))
            }
          }
        }
      })"

text \<open>\<open>None\<close> would be a panic.\<close>

definition PeekSNI :: "bytes \<Rightarrow> sni_result option" where
  "PeekSNI r =
     (case peek 5 r of
        None \<Rightarrow> Some Sni_Error
      | Some hdr \<Rightarrow>
          do {
            recType \<leftarrow> byte_at hdr 0;
            if recType \<noteq> 0x16 then Some (Sni [])
            else do {
              recLen \<leftarrow> be16 hdr 3;
              if recLen > 16384 then Some (Sni [])
              else (case peek (5 + recLen) r of
                      None \<Rightarrow> Some (Sni [])
                    | Some data \<Rightarrow>
                        if length data < 9 then Some (Sni [])
                        else do {
                          hsType \<leftarrow> byte_at data 5;
                          if hsType \<noteq> 0x01 then Some (Sni []) else map_option Sni (parse_hello data)
                        })
            }
          })"

section \<open>No panic\<close>

lemma byte_at_total: "i < length d \<Longrightarrow> \<exists>b. byte_at d i = Some b"
  by (simp add: byte_at_def)

lemma slice_total: "a \<le> b \<Longrightarrow> b \<le> length d \<Longrightarrow> \<exists>s. slice d a b = Some s"
  by (simp add: slice_def)

lemma be16_total: "i + 2 \<le> length d \<Longrightarrow> \<exists>n. be16 d i = Some n"
  by (simp add: be16_def slice_def)

lemma server_name_total: "pos + len \<le> length data \<Longrightarrow> \<exists>s. server_name data pos len = Some s"
  by (auto simp: server_name_def Let_def byte_at_def be16_def slice_def)

lemma ext_loop_total: "extEnd \<le> length data \<Longrightarrow> \<exists>s. ext_loop data pos extEnd = Some s"
proof (induction data pos extEnd rule: ext_loop.induct)
  case (1 data pos extEnd)
  show ?case
  proof (cases "pos + 4 \<le> extEnd")
    case False
    then show ?thesis by (subst ext_loop.simps) simp
  next
    case True
    with "1.prems" obtain ty len where ty: "be16 data pos = Some ty" and len: "be16 data (pos + 2) = Some len"
      using be16_total [of pos data] be16_total [of "pos + 2" data] by auto
    have "pos + 4 + len \<le> extEnd \<Longrightarrow> \<exists>s. server_name data (pos + 4) len = Some s"
      using "1.prems" by (intro server_name_total) simp
    with True ty len "1.prems" "1.IH" [OF True ty len] show ?thesis
      by (subst ext_loop.simps) auto
  qed
qed

lemma parse_hello_total: "\<exists>s. parse_hello data = Some s"
proof -
  note totals = byte_at_total be16_total
  show ?thesis
    unfolding parse_hello_def Let_def
    by (auto simp: byte_at_def be16_def slice_def intro!: ext_loop_total)
qed

section \<open>Writing a ClientHello\<close>

definition enc16 :: "nat \<Rightarrow> bytes" where
  "enc16 n = [word_of_nat (n div 256), word_of_nat (n mod 256)]"

type_synonym extension = "nat \<times> bytes"

definition encode_ext :: "extension \<Rightarrow> bytes" where
  "encode_ext e = enc16 (fst e) @ enc16 (length (snd e)) @ snd e"

definition sni_ext :: "bytes \<Rightarrow> extension" where
  "sni_ext name = (0, enc16 (length name + 3) @ [0] @ enc16 (length name) @ name)"

record client_hello =
  ch_version_random :: bytes
  ch_session :: bytes
  ch_suites :: bytes
  ch_compression :: bytes
  ch_extensions :: "extension list"

definition encode_hello :: "client_hello \<Rightarrow> bytes" where
  "encode_hello h =
     (let exts = concat (map encode_ext (ch_extensions h))
      in ch_version_random h @ [word_of_nat (length (ch_session h))] @ ch_session h
         @ enc16 (length (ch_suites h)) @ ch_suites h
         @ [word_of_nat (length (ch_compression h))] @ ch_compression h @ enc16 (length exts) @ exts)"

definition encode_record :: "client_hello \<Rightarrow> bytes" where
  "encode_record h =
     (let b = encode_hello h
      in [0x16, 3, 1] @ enc16 (length b + 4) @ [1] @ [word_of_nat (length b div 65536)] @ enc16 (length b mod 65536) @ b)"

text \<open>The lengths fit their fields, and the record fits the buffer.\<close>

definition hello_ok :: "client_hello \<Rightarrow> bool" where
  "hello_ok h \<longleftrightarrow> length (ch_version_random h) = 34 \<and> length (ch_session h) < 256 \<and> length (ch_compression h) < 256
     \<and> (\<forall>e \<in> set (ch_extensions h). fst e < 65536) \<and> length (encode_record h) \<le> buffer_size"

section \<open>Reading back\<close>

lemma length_enc16 [simp]: "length (enc16 n) = 2"
  by (simp add: enc16_def)

lemma byte_at_here: "length a = i \<Longrightarrow> byte_at (a @ x # b) i = Some x"
  by (auto simp: byte_at_def)

lemma slice_here: "length a = i \<Longrightarrow> length a + length s = j \<Longrightarrow> slice (a @ s @ b) i j = Some s"
  by (auto simp: slice_def)

lemma unat_byte: "n < 256 \<Longrightarrow> unat (word_of_nat n :: byte) = n"
  by (simp add: unat_of_nat)

lemma be16_here:
  assumes "length a = i" and "n < 65536"
  shows "be16 (a @ enc16 n @ b) i = Some n"
proof -
  have "n div 256 < 256"
    using assms(2) by simp
  then have "256 * unat (enc16 n ! 0) + unat (enc16 n ! 1) = n"
    by (simp add: enc16_def unat_byte)
  with slice_here [of a i "enc16 n" "i + 2" b] assms(1) show ?thesis
    by (simp add: be16_def)
qed

lemma parse_hello_encoded:
  assumes "length A = 43" and "length sid < 256" and "length cs < 65536" and "length cm < 256" and "length X < 65536"
    and "D = A @ [word_of_nat (length sid)] @ sid @ enc16 (length cs) @ cs @ [word_of_nat (length cm)] @ cm @ enc16 (length X) @ X"
  shows "parse_hello D = ext_loop D (length D - length X) (length D)"
proof -
  let ?p1 = "44 + length sid" and ?p2 = "46 + (length sid + length cs)"
  let ?p3 = "47 + (length sid + (length cs + length cm))"
  have b1: "byte_at D 43 = Some (word_of_nat (length sid))"
    using assms(1) by (simp add: assms(6) byte_at_here)
  have b2: "be16 D ?p1 = Some (length cs)"
    using be16_here [of "A @ [word_of_nat (length sid)] @ sid" ?p1 "length cs"] assms(1,3) by (simp add: assms(6))
  have b3: "byte_at D ?p2 = Some (word_of_nat (length cm))"
    using byte_at_here [of "A @ [word_of_nat (length sid)] @ sid @ enc16 (length cs) @ cs" ?p2] assms(1) by (simp add: assms(6))
  have b4: "be16 D ?p3 = Some (length X)"
    using be16_here [of "A @ [word_of_nat (length sid)] @ sid @ enc16 (length cs) @ cs @ [word_of_nat (length cm)] @ cm"
        ?p3 "length X" X] assms(1,5) by (simp add: assms(6))
  have len: "length D = 49 + length sid + length cs + length cm + length X"
    using assms(1) by (simp add: assms(6))
  show ?thesis
    unfolding parse_hello_def Let_def using assms(2,4)
    by (simp add: b1 b2 b3 b4 len unat_byte add.assoc)
qed

lemma ext_loop_skip1:
  assumes "fst e < 65536" and "fst e \<noteq> 0" and "length (snd e) < 65536"
    and "length a + length (encode_ext e) \<le> E" and "D = a @ encode_ext e @ post"
  shows "ext_loop D (length a) E = ext_loop D (length a + length (encode_ext e)) E"
proof -
  have ty: "be16 D (length a) = Some (fst e)"
    using assms(1) by (simp add: assms(5) encode_ext_def be16_here)
  have ln: "be16 D (length a + 2) = Some (length (snd e))"
    using be16_here [of "a @ enc16 (fst e)" "length a + 2" "length (snd e)"] assms(3) by (simp add: assms(5) encode_ext_def)
  have len: "length (encode_ext e) = 4 + length (snd e)"
    by (simp add: encode_ext_def)
  show ?thesis
    using assms(2,4) by (subst ext_loop.simps) (simp add: ty ln [simplified] len add.assoc)
qed

lemma ext_loop_skip:
  assumes "\<forall>e \<in> set es. fst e < 65536 \<and> fst e \<noteq> 0 \<and> length (snd e) < 65536"
    and "length a + length (concat (map encode_ext es)) \<le> E" and "D = a @ concat (map encode_ext es) @ post"
  shows "ext_loop D (length a) E = ext_loop D (length a + length (concat (map encode_ext es))) E"
  using assms
proof (induction es arbitrary: a)
  case Nil
  then show ?case by simp
next
  case (Cons e es)
  have "ext_loop D (length a) E = ext_loop D (length (a @ encode_ext e)) E"
    using ext_loop_skip1 [of e a E D "concat (map encode_ext es) @ post"] Cons.prems by simp
  also have "\<dots> = ext_loop D (length (a @ encode_ext e) + length (concat (map encode_ext es))) E"
    using Cons.prems by (intro Cons.IH) simp_all
  finally show ?case
    by (simp add: add.assoc)
qed

lemma server_name_here:
  assumes "length a = pos" and "length name < 65531" and "D = a @ snd (sni_ext name) @ post"
  shows "server_name D pos (length (snd (sni_ext name))) = Some (string_of name)"
proof -
  let ?h = "a @ enc16 (length name + 3)"
  have "byte_at D (pos + 2) = Some 0"
    using byte_at_here [of ?h "pos + 2" 0] assms(1) by (simp add: assms(3) sni_ext_def)
  moreover have "be16 D (pos + 3) = Some (length name)"
    using be16_here [of "?h @ [0]" "pos + 3" "length name"] assms(1,2) by (simp add: assms(3) sni_ext_def)
  moreover have "slice D (pos + 5) (pos + 5 + length name) = Some name"
    using slice_here [of "?h @ [0] @ enc16 (length name)" "pos + 5" name "pos + 5 + length name"] assms(1)
    by (simp add: assms(3) sni_ext_def)
  ultimately show ?thesis
    by (simp add: server_name_def Let_def sni_ext_def numeral_eq_Suc)
qed

lemma ext_loop_sni:
  assumes "length name < 65531" and "D = a @ encode_ext (sni_ext name) @ post"
  shows "ext_loop D (length a) (length D) = Some (string_of name)"
proof -
  let ?len = "length (snd (sni_ext name))"
  have l: "?len = length name + 5"
    by (simp add: sni_ext_def)
  have D: "D = a @ enc16 0 @ enc16 ?len @ snd (sni_ext name) @ post"
    by (simp add: assms(2) encode_ext_def) (simp add: sni_ext_def)
  have ty: "be16 D (length a) = Some 0"
    unfolding D by (rule be16_here) simp_all
  have "be16 ((a @ enc16 0) @ enc16 ?len @ snd (sni_ext name) @ post) (length a + 2) = Some ?len"
    by (rule be16_here) (use assms(1) l in simp_all)
  then have ln: "be16 D (length a + 2) = Some ?len"
    by (simp add: D)
  have "server_name D (length a + 4) ?len = Some (string_of name)"
    by (rule server_name_here [of "a @ enc16 0 @ enc16 ?len"]) (use assms(1) D in simp_all)
  moreover have "length D = length a + 4 + ?len + length post"
    by (simp add: D)
  ultimately show ?thesis
    by (subst ext_loop.simps) (simp add: ty ln [simplified] l)
qed

lemma ext_loop_end: "ext_loop D E E = Some []"
  by (subst ext_loop.simps) simp

lemma member_length_concat: "e \<in> set es \<Longrightarrow> length (encode_ext e) \<le> length (concat (map encode_ext es))"
  by (auto dest!: split_list)

text \<open>An encoded record as a header, the fields and the extensions.\<close>

lemma PeekSNI_encoded:
  assumes "hello_ok h"
  obtains a where "encode_record h = a @ concat (map encode_ext (ch_extensions h))"
    and "PeekSNI (encode_record h @ tail) = map_option Sni (ext_loop (encode_record h) (length a) (length (encode_record h)))"
proof -
  let ?b = "encode_hello h" and ?X = "concat (map encode_ext (ch_extensions h))" and ?R = "encode_record h"
  let ?A = "[0x16, 3, 1] @ enc16 (length ?b + 4) @ [1] @ [word_of_nat (length ?b div 65536)] @ enc16 (length ?b mod 65536)
      @ ch_version_random h"
  let ?F = "[word_of_nat (length (ch_session h))] @ ch_session h @ enc16 (length (ch_suites h)) @ ch_suites h
      @ [word_of_nat (length (ch_compression h))] @ ch_compression h @ enc16 (length ?X)"
  have R: "?R = ?A @ ?F @ ?X"
    by (simp add: encode_record_def encode_hello_def Let_def)
  have len: "length ?R = length ?b + 9" "length ?b = 34 + length ?F + length ?X"
    using assms by (simp_all add: encode_record_def encode_hello_def Let_def hello_ok_def)
  have small: "length ?R \<le> 4096"
    using assms by (simp add: hello_ok_def buffer_size_def)
  have hdr: "peek 5 (?R @ tail) = Some ([0x16, 3, 1] @ enc16 (length ?b + 4))"
    using len by (simp add: peek_def buffer_size_def encode_record_def Let_def enc16_def)
  have be: "be16 ([0x16, 3, 1] @ enc16 (length ?b + 4)) 3 = Some (length ?b + 4)"
    using be16_here [of "[0x16, 3, 1]" 3 "length ?b + 4" "[]"] small len by simp
  have whole: "peek (5 + (length ?b + 4)) (?R @ tail) = Some ?R"
    using small len(1) by (simp add: peek_def buffer_size_def add.commute)
  have tyb: "byte_at ?R 5 = Some 1" "length ?R \<ge> 9"
    using byte_at_here [of "[0x16, 3, 1] @ enc16 (length ?b + 4)" 5 1] len by (simp_all add: encode_record_def Let_def)
  have "length ?A = 43" "length (ch_session h) < 256" "length (ch_suites h) < 65536" "length (ch_compression h) < 256" "length ?X < 65536"
    using assms small len by (simp_all add: hello_ok_def)
  then have "parse_hello ?R = ext_loop ?R (length ?R - length ?X) (length ?R)"
    by (rule parse_hello_encoded) (simp add: R)
  moreover have "byte_at ([0x16, 3, 1] @ enc16 (length ?b + 4)) 0 = Some 0x16"
    by (simp add: byte_at_def)
  ultimately have "PeekSNI (?R @ tail) = map_option Sni (ext_loop ?R (length (?A @ ?F)) (length ?R))"
    using small len hdr be whole tyb by (simp add: PeekSNI_def) (simp add: R)
  with that [of "?A @ ?F"] R show thesis by simp
qed

section \<open>Properties\<close>

lemma peek_total: "\<exists>res. PeekSNI r = Some res"
proof (cases "peek 5 r")
  case None
  then show ?thesis by (simp add: PeekSNI_def)
next
  case (Some hdr)
  then have "length hdr = 5"
    by (auto simp: peek_def split: if_splits)
  then obtain t n where "byte_at hdr 0 = Some t" "be16 hdr 3 = Some n"
    using byte_at_total [of 0 hdr] be16_total [of 3 hdr] by auto
  moreover have "\<exists>t. byte_at data 5 = Some t" if "\<not> length data < 9" for data
    using that by (intro byte_at_total) simp
  ultimately show ?thesis
    using Some parse_hello_total by (fastforce simp: PeekSNI_def split: option.split)
qed

text \<open>C39. \<open>PeekSNI\<close> never panics: every index and every slice of it is within bounds, whatever bytes the client
  sends.\<close>

theorem peek_sni_never_panics: "\<exists>res. PeekSNI r = Some res"
  by (rule peek_total)

lemma peek_encoded:
  assumes "hello_ok h" and "\<forall>e \<in> set before. fst e \<noteq> 0"
  shows "(ch_extensions h = before @ sni_ext name # after \<longrightarrow> PeekSNI (encode_record h @ tail) = Some (Sni (string_of name)))
    \<and> (ch_extensions h = before \<longrightarrow> PeekSNI (encode_record h @ tail) = Some (Sni []))"
proof -
  let ?R = "encode_record h" and ?B = "concat (map encode_ext before)"
  obtain a where R: "?R = a @ concat (map encode_ext (ch_extensions h))"
    and peek: "PeekSNI (?R @ tail) = map_option Sni (ext_loop ?R (length a) (length ?R))"
    by (rule PeekSNI_encoded [OF assms(1)])
  have small: "length ?R \<le> 4096"
    using assms(1) by (simp add: hello_ok_def buffer_size_def)
  have skip: "ext_loop ?R (length a) (length ?R) = ext_loop ?R (length (a @ ?B)) (length ?R)"
    if exts: "ch_extensions h = before @ rest" for rest
  proof -
    have "\<forall>e \<in> set before. fst e < 65536 \<and> fst e \<noteq> 0 \<and> length (snd e) < 65536"
    proof
      fix e assume e: "e \<in> set before"
      then have "length (encode_ext e) \<le> length ?B"
        by (rule member_length_concat)
      then have "length (snd e) \<le> length ?R"
        using R exts by (simp add: encode_ext_def)
      with e assms small exts show "fst e < 65536 \<and> fst e \<noteq> 0 \<and> length (snd e) < 65536"
        by (simp add: hello_ok_def)
    qed
    then show ?thesis
      using ext_loop_skip [of before a "length ?R" ?R "concat (map encode_ext rest)"] R exts by simp
  qed
  show ?thesis
  proof (intro conjI impI)
    assume exts: "ch_extensions h = before @ sni_ext name # after"
    have D: "?R = (a @ ?B) @ encode_ext (sni_ext name) @ concat (map encode_ext after)"
      using R exts by simp
    have "length name < 65531"
      using small by (simp add: D encode_ext_def sni_ext_def)
    from ext_loop_sni [OF this D] skip [OF exts] peek show "PeekSNI (?R @ tail) = Some (Sni (string_of name))"
      by simp
  next
    assume exts: "ch_extensions h = before"
    then have "length (a @ ?B) = length ?R"
      using R by simp
    with skip [of "[]"] exts peek show "PeekSNI (?R @ tail) = Some (Sni [])"
      by (simp add: ext_loop_end)
  qed
qed

definition sample_hello :: client_hello where
  "sample_hello =
     \<lparr>ch_version_random = replicate 34 3, ch_session = [], ch_suites = [0x13, 1], ch_compression = [0],
      ch_extensions = [(43, [2, 3, 4]), sni_ext (bytes_of ''api''), (10, [])]\<rparr>"

lemma sample_hello_sni: "PeekSNI (encode_record sample_hello @ tail) = Some (Sni ''api'')"
proof -
  have "hello_ok sample_hello"
    by (simp add: hello_ok_def sample_hello_def sni_ext_def encode_record_def encode_hello_def encode_ext_def
        bytes_of_def buffer_size_def Let_def)
  moreover have "string_of (bytes_of ''api'') = ''api''"
    by code_simp
  ultimately show ?thesis
    using peek_encoded [of sample_hello "[(43, [2, 3, 4])]" "bytes_of ''api''" "[(10, [])]" tail]
    by (simp add: sample_hello_def)
qed

text \<open>C20. Round trip: from every well-formed ClientHello that fits the reader's buffer of 4096 bytes, \<open>PeekSNI\<close>
  returns the host name of its server-name extension, wherever that stands among the
  extensions and whatever follows on the connection, and the empty name when there is
  no such extension.\<close>

theorem peek_sni_roundtrip:
  assumes "hello_ok h" and "\<forall>e \<in> set before. fst e \<noteq> 0"
  shows "(ch_extensions h = before @ sni_ext name # after \<longrightarrow> PeekSNI (encode_record h @ tail) = Some (Sni (string_of name)))
    \<and> (ch_extensions h = before \<longrightarrow> PeekSNI (encode_record h @ tail) = Some (Sni []))"
  by (rule peek_encoded [OF assms])

theorem peek_sni_roundtrip_witness: "PeekSNI (encode_record sample_hello @ [7]) = Some (Sni ''api'')"
proof -
  have "hello_ok sample_hello"
    by (simp add: hello_ok_def sample_hello_def sni_ext_def encode_record_def encode_hello_def encode_ext_def
        bytes_of_def buffer_size_def Let_def)
  moreover have "string_of (bytes_of ''api'') = ''api''"
    by code_simp
  ultimately show ?thesis
    using peek_sni_roundtrip [of sample_hello "[(43, [2, 3, 4])]" "bytes_of ''api''" "[(10, [])]" "[7]"]
    by (simp add: sample_hello_def)
qed

text \<open>The reader's buffer bounds the records that can be read: a handshake record longer than 4091 bytes has no
  server name, although the code accepts lengths up to 16384.\<close>

theorem peek_sni_large_record:
  assumes "take 5 r = [0x16, v, w] @ enc16 n" and "length r \<ge> 5" and "n < 65536" and "4096 < 5 + n"
  shows "PeekSNI r = Some (Sni [])"
proof -
  have "peek 5 r = Some ([0x16, v, w] @ enc16 n)"
    using assms(1,2) by (simp add: peek_def buffer_size_def)
  moreover have "be16 ([0x16, v, w] @ enc16 n) 3 = Some n"
    using be16_here [of "[0x16, v, w]" 3 n "[]"] assms(3) by simp
  moreover have "byte_at ([0x16, v, w] @ enc16 n) 0 = Some 0x16"
    by (simp add: byte_at_def)
  moreover have "peek (5 + n) r = None"
    using assms(4) by (simp add: peek_def buffer_size_def)
  ultimately show ?thesis
    by (simp add: PeekSNI_def)
qed

theorem peek_sni_large_record_witness: "PeekSNI ([0x16, 3, 1, 0x20, 0] @ replicate 8192 1) = Some (Sni [])"
  by (rule peek_sni_large_record [of _ 3 1 8192]) (simp_all add: enc16_def)

end
