(* ===== verification/Splice_Conn.thy ===== *)
theory Splice_Conn
imports Latch_Prelude
begin

text \<open>
  \<open>internal/tlsmitm/splice.go\<close>: two goroutines copy between two connections until either ends,
  then both connections are closed once, which also ends the copying that is still waiting.
  Reads and writes block: a read as long as its peer sends nothing, a write as long as its peer
  takes nothing. Only what a peer does, or closing the connection, gets a goroutine out of there.
\<close>

section \<open>One direction\<close>

text \<open>
  What a peer does: the chunks it sends and what comes after them (it ends the stream, resets the
  connection, which may overtake what it sent, or stays silent), how many chunks it
  takes, and whether a write to it can fail.
\<close>

datatype stream_end = Eof | Reset | Silent

record peer =
  peer_sends :: "bytes list"
  peer_ends :: stream_end
  peer_room :: nat
  peer_breaks :: bool

text \<open>The state of an \<open>io.Copy\<close>; \<open>held\<close> is a chunk that was read and not written yet.\<close>

record pipe =
  pending :: "bytes list"
  ending_of :: stream_end
  room :: nat
  breaks :: bool
  held :: "bytes option"
  delivered :: bytes
  returned :: bool
  failed :: bool

definition new_pipe :: "peer \<Rightarrow> peer \<Rightarrow> pipe" where
  "new_pipe src dst =
     \<lparr>pending = peer_sends src, ending_of = peer_ends src, room = peer_room dst, breaks = peer_breaks dst,
      held = None, delivered = [], returned = False, failed = False\<rparr>"

text \<open>
  One step, on connections of which \<open>src\<close> and \<open>dst\<close> say whether this side still has them open. On a
  closed connection reads and writes fail, also those that are waiting; a write that fails may
  have got a part of its chunk through.
\<close>

inductive copy_step :: "bool \<Rightarrow> bool \<Rightarrow> pipe \<Rightarrow> pipe \<Rightarrow> bool" where
  read: "\<not> returned p \<Longrightarrow> held p = None \<Longrightarrow> pending p = c # cs \<Longrightarrow>
     copy_step True dst p (p\<lparr>held := Some c, pending := cs\<rparr>)"
| eof: "\<not> returned p \<Longrightarrow> held p = None \<Longrightarrow> pending p = [] \<Longrightarrow> ending_of p = Eof \<Longrightarrow> copy_step True dst p (p\<lparr>returned := True\<rparr>)"
| reset: "\<not> returned p \<Longrightarrow> held p = None \<Longrightarrow> ending_of p = Reset \<Longrightarrow> copy_step True dst p (p\<lparr>returned := True, failed := True\<rparr>)"
| read_closed: "\<not> returned p \<Longrightarrow> held p = None \<Longrightarrow> copy_step False dst p (p\<lparr>returned := True, failed := True\<rparr>)"
| written: "\<not> returned p \<Longrightarrow> held p = Some c \<Longrightarrow> room p = Suc n \<Longrightarrow>
     copy_step src True p (p\<lparr>held := None, room := n, delivered := delivered p @ c\<rparr>)"
| write_error: "\<not> returned p \<Longrightarrow> held p = Some c \<Longrightarrow> prefix part c \<Longrightarrow> \<not> dst \<or> breaks p \<Longrightarrow>
     copy_step src dst p (p\<lparr>held := None, delivered := delivered p @ part, returned := True, failed := True\<rparr>)"

inductive_simps copy_step_simps: "copy_step src dst p q"

text \<open>A goroutine that waits, as long as both connections are open.\<close>

definition blocked :: "pipe \<Rightarrow> bool" where
  "blocked p \<longleftrightarrow> \<not> returned p
     \<and> (case held p of None \<Rightarrow> pending p = [] \<and> ending_of p = Silent | Some c \<Rightarrow> room p = 0 \<and> \<not> breaks p)"

section \<open>Both directions\<close>

text \<open>
  The goroutine \<open>From_A\<close> copies from \<open>a\<close> to \<open>b\<close>, \<open>From_B\<close> the other way. \<open>once\<close> is the state of the
  \<open>sync.Once\<close>: while one goroutine runs its body, another that calls it waits. A goroutine whose copying has
  returned still has to call \<open>closeAll\<close>, and the other one may go on in between.
\<close>

datatype goroutine = From_A | From_B

datatype once = Unused | Running goroutine | Used

record splice =
  a_to_b :: pipe
  b_to_a :: pipe
  once_of :: once
  a_closes :: nat
  b_closes :: nat
  a_done :: bool
  b_done :: bool

definition new_splice :: "peer \<Rightarrow> peer \<Rightarrow> splice" where
  "new_splice a b = \<lparr>a_to_b = new_pipe a b, b_to_a = new_pipe b a, once_of = Unused, a_closes = 0, b_closes = 0,
     a_done = False, b_done = False\<rparr>"

fun copied :: "goroutine \<Rightarrow> splice \<Rightarrow> bool" where
  "copied From_A s = returned (a_to_b s)"
| "copied From_B s = returned (b_to_a s)"

fun is_done :: "goroutine \<Rightarrow> splice \<Rightarrow> bool" where
  "is_done From_A s = a_done s"
| "is_done From_B s = b_done s"

fun set_done :: "goroutine \<Rightarrow> splice \<Rightarrow> splice" where
  "set_done From_A s = s\<lparr>a_done := True\<rparr>"
| "set_done From_B s = s\<lparr>b_done := True\<rparr>"

text \<open>The next step of a goroutine in \<open>closeAll\<close>: \<open>a.Close\<close>, then \<open>b.Close\<close> and out; \<open>None\<close> when it waits.\<close>

definition closeAll :: "goroutine \<Rightarrow> splice \<Rightarrow> splice option" where
  "closeAll g s =
     (case once_of s of
        Unused \<Rightarrow> Some (s\<lparr>once_of := Running g, a_closes := Suc (a_closes s)\<rparr>)
      | Running g' \<Rightarrow> if g' = g then Some (set_done g (s\<lparr>once_of := Used, b_closes := Suc (b_closes s)\<rparr>)) else None
      | Used \<Rightarrow> Some (set_done g s))"

inductive splice_step :: "splice \<Rightarrow> splice \<Rightarrow> bool" where
  forward: "copy_step (a_closes s = 0) (b_closes s = 0) (a_to_b s) p \<Longrightarrow> splice_step s (s\<lparr>a_to_b := p\<rparr>)"
| backward: "copy_step (b_closes s = 0) (a_closes s = 0) (b_to_a s) p \<Longrightarrow> splice_step s (s\<lparr>b_to_a := p\<rparr>)"
| closing: "copied g s \<Longrightarrow> \<not> is_done g s \<Longrightarrow> closeAll g s = Some s' \<Longrightarrow> splice_step s s'"

inductive_cases splice_stepE: "splice_step s s'"

text \<open>\<open>wg.Wait\<close> returns when both goroutines are done.\<close>

definition splice_done :: "splice \<Rightarrow> bool" where
  "splice_done s \<longleftrightarrow> a_done s \<and> b_done s"

section \<open>What holds on the way\<close>

definition pipe_ok :: "bytes list \<Rightarrow> pipe \<Rightarrow> bool" where
  "pipe_ok cs p \<longleftrightarrow>
     (if failed p then returned p \<and> prefix (delivered p) (concat cs)
      else delivered p @ case_option [] id (held p) @ concat (pending p) = concat cs
        \<and> (returned p \<longrightarrow> held p = None \<and> pending p = []))"

text \<open>The closes made so far belong to the state of \<open>closeAll\<close>; who runs it has copied and is not done.\<close>

definition closing_ok :: "splice \<Rightarrow> bool" where
  "closing_ok s \<longleftrightarrow>
     (case once_of s of
        Unused \<Rightarrow> a_closes s = 0 \<and> b_closes s = 0 \<and> \<not> a_done s \<and> \<not> b_done s
      | Running g \<Rightarrow> a_closes s = 1 \<and> b_closes s = 0 \<and> \<not> a_done s \<and> \<not> b_done s \<and> copied g s
      | Used \<Rightarrow> a_closes s = 1 \<and> b_closes s = 1 \<and> (a_done s \<or> b_done s))"

definition splice_ok :: "bytes list \<Rightarrow> bytes list \<Rightarrow> splice \<Rightarrow> bool" where
  "splice_ok as bs s \<longleftrightarrow> pipe_ok as (a_to_b s) \<and> pipe_ok bs (b_to_a s)
     \<and> (a_done s \<longrightarrow> returned (a_to_b s)) \<and> (b_done s \<longrightarrow> returned (b_to_a s)) \<and> closing_ok s"

definition left_to_do :: "pipe \<Rightarrow> nat" where
  "left_to_do p = (if returned p then 0 else Suc (2 * length (pending p) + of_bool (held p \<noteq> None)))"

lemma pipe_ok_prefix: "pipe_ok cs p \<Longrightarrow> prefix (delivered p) (concat cs)"
  unfolding pipe_ok_def by (metis prefixI)

lemma pipe_whole: "pipe_ok cs p \<Longrightarrow> returned p \<Longrightarrow> \<not> failed p \<Longrightarrow> delivered p = concat cs"
  by (auto simp: pipe_ok_def)

lemma pipe_open:
  "pipe_ok cs p \<Longrightarrow> \<not> returned p \<Longrightarrow> \<not> failed p \<and> delivered p @ case_option [] id (held p) @ concat (pending p) = concat cs"
  unfolding pipe_ok_def by presburger

lemma copy_ok: "copy_step src dst p q \<Longrightarrow> pipe_ok cs p \<Longrightarrow> pipe_ok cs q"
proof (induction rule: copy_step.induct)
  case (write_error p c part dst src)
  then have "delivered p @ c @ concat (pending p) = concat cs"
    using pipe_open [of cs p] by simp
  moreover from write_error(3) obtain r where "c = part @ r"
    by (auto simp: prefix_def)
  ultimately have "concat cs = (delivered p @ part) @ r @ concat (pending p)"
    by simp
  then have "prefix (delivered p @ part) (concat cs)"
    by (rule prefixI)
  then show ?case by (simp add: pipe_ok_def)
next
  case (reset p dst)
  with pipe_ok_prefix [of cs p] show ?case by (simp add: pipe_ok_def)
next
  case (read_closed p dst)
  with pipe_ok_prefix [of cs p] show ?case by (simp add: pipe_ok_def)
next
  case (read p c cs' dst)
  with pipe_open [OF read(4,1)] show ?case by (simp add: pipe_ok_def)
next
  case (eof p dst)
  with pipe_open [OF eof(5,1)] show ?case by (simp add: pipe_ok_def)
next
  case (written p c n src)
  with pipe_open [OF written(4,1)] show ?case by (simp add: pipe_ok_def)
qed

lemma copy_returned: "copy_step src dst p q \<Longrightarrow> \<not> returned p"
  by (induction rule: copy_step.induct)

lemma copy_less: "copy_step src dst p q \<Longrightarrow> left_to_do q < left_to_do p"
  by (induction rule: copy_step.induct) (auto simp: left_to_do_def)

text \<open>With both connections open a goroutine can go on unless it waits; with both closed it can always.\<close>

lemma copy_enabled_open: "(\<exists>q. copy_step True True p q) \<longleftrightarrow> \<not> returned p \<and> \<not> blocked p"
proof
  show "\<exists>q. copy_step True True p q \<Longrightarrow> \<not> returned p \<and> \<not> blocked p"
    by (auto simp: copy_step_simps blocked_def)
  assume p: "\<not> returned p \<and> \<not> blocked p"
  show "\<exists>q. copy_step True True p q"
  proof (cases "held p")
    case None
    with p show ?thesis
      using read eof reset by (cases "pending p"; cases "ending_of p") (auto simp: blocked_def intro: copy_step.intros)
  next
    case (Some c)
    with p show ?thesis
      using written [of p c] write_error [of p c "[]" True True] by (cases "room p") (auto simp: blocked_def)
  qed
qed

lemma copy_enabled_closed: "\<not> returned p \<Longrightarrow> \<exists>q. copy_step False False p q"
  using read_closed [of p False] write_error [of p _ "[]" False False] by (cases "held p") auto

lemma set_done_simps [simp]:
  "a_to_b (set_done g s) = a_to_b s" "b_to_a (set_done g s) = b_to_a s" "once_of (set_done g s) = once_of s"
  "a_closes (set_done g s) = a_closes s" "b_closes (set_done g s) = b_closes s"
  "a_done (set_done g s) \<longleftrightarrow> a_done s \<or> g = From_A" "b_done (set_done g s) \<longleftrightarrow> b_done s \<or> g = From_B"
  by (cases g; simp)+

lemma closeAll_pipes: "closeAll g s = Some s' \<Longrightarrow> a_to_b s' = a_to_b s \<and> b_to_a s' = b_to_a s"
  by (auto simp: closeAll_def split: once.splits if_splits)

lemma copied_upd:
  "\<not> returned (a_to_b s) \<Longrightarrow> copied g s \<Longrightarrow> copied g (s\<lparr>a_to_b := p\<rparr>)"
  "\<not> returned (b_to_a s) \<Longrightarrow> copied g s \<Longrightarrow> copied g (s\<lparr>b_to_a := p\<rparr>)"
  by (cases g; simp)+

lemma closing_cong: "closing_ok s \<Longrightarrow> \<not> returned (a_to_b s) \<Longrightarrow> closing_ok (s\<lparr>a_to_b := p\<rparr>)"
  "closing_ok s \<Longrightarrow> \<not> returned (b_to_a s) \<Longrightarrow> closing_ok (s\<lparr>b_to_a := p\<rparr>)"
  by (cases "once_of s"; simp add: closing_ok_def copied_upd)+

lemma splice_step_ok: "splice_step s s' \<Longrightarrow> splice_ok as bs s \<Longrightarrow> splice_ok as bs s'"
proof (induction rule: splice_step.induct)
  case (forward s p)
  with copy_ok [OF forward(1), of as] copy_returned [OF forward(1)] closing_cong(1) [of s p] show ?case
    by (auto simp: splice_ok_def)
next
  case (backward s p)
  with copy_ok [OF backward(1), of bs] copy_returned [OF backward(1)] closing_cong(2) [of s p] show ?case
    by (auto simp: splice_ok_def)
next
  case (closing g s s')
  then show ?case
    by (cases g) (auto simp: splice_ok_def closing_ok_def closeAll_def split: once.splits if_splits)
qed

fun once_left :: "once \<Rightarrow> nat" where
  "once_left Unused = 1"
| "once_left o1 = 0"

definition splice_measure :: "splice \<Rightarrow> nat" where
  "splice_measure s = left_to_do (a_to_b s) + left_to_do (b_to_a s) + of_bool (\<not> a_done s) + of_bool (\<not> b_done s)
     + once_left (once_of s)"

lemma splice_less: "splice_step s s' \<Longrightarrow> splice_measure s' < splice_measure s"
proof (induction rule: splice_step.induct)
  case (closing g s s')
  then show ?case
    by (cases g) (auto simp: splice_measure_def closeAll_def split: once.splits if_splits)
qed (auto simp: splice_measure_def dest: copy_less)

lemma splice_reach_ok: "splice_step\<^sup>*\<^sup>* (new_splice a b) s \<Longrightarrow> splice_ok (peer_sends a) (peer_sends b) s"
proof (induction rule: rtranclp_induct)
  case base
  show ?case by (simp add: splice_ok_def pipe_ok_def closing_ok_def new_splice_def new_pipe_def)
qed (rule splice_step_ok)

section \<open>When it is stuck\<close>

text \<open>Nothing can happen any more: both goroutines are done, or both wait for peers that do nothing.\<close>

lemma splice_stuck:
  assumes "splice_ok as bs s"
  shows "(\<nexists>s'. splice_step s s') \<longleftrightarrow> splice_done s \<or> blocked (a_to_b s) \<and> blocked (b_to_a s)"
proof (cases "once_of s")
  case Unused
  then have u: "a_closes s = 0" "b_closes s = 0" "\<not> a_done s" "\<not> b_done s"
    using assms by (simp_all add: splice_ok_def closing_ok_def)
  then have closes: "\<exists>s'. splice_step s s'" if "copied g s" for g
    using that splice_step.closing [OF that] by (cases g) (auto simp: closeAll_def Unused)
  have "(\<exists>q. copy_step True True (a_to_b s) q) \<or> (\<exists>q. copy_step True True (b_to_a s) q) \<or> returned (a_to_b s) \<or> returned (b_to_a s)"
    if "splice_step s s'" for s'
    using that
  proof (cases rule: splice_step.cases)
    case (closing g)
    then show ?thesis by (cases g) simp_all
  qed (use u in auto)
  then have "(\<exists>s'. splice_step s s') \<longleftrightarrow> (\<exists>q. copy_step True True (a_to_b s) q) \<or> (\<exists>q. copy_step True True (b_to_a s) q)
      \<or> returned (a_to_b s) \<or> returned (b_to_a s)"
    using u closes [of From_A] closes [of From_B] splice_step.forward [of s] splice_step.backward [of s]
    unfolding copied.simps by fastforce
  then show ?thesis
    using u unfolding copy_enabled_open by (auto simp: splice_done_def blocked_def)
next
  case (Running g)
  then have "copied g s" "\<not> is_done g s" "closeAll g s \<noteq> None" "\<not> splice_done s"
    "returned (a_to_b s) \<or> returned (b_to_a s)"
    using assms by (cases g; simp add: splice_ok_def closing_ok_def closeAll_def splice_done_def)+
  then show ?thesis
    using splice_step.closing by (auto simp: blocked_def)
next
  case Used
  then have u: "a_closes s = 1" "b_closes s = 1" "a_done s \<or> b_done s"
    "a_done s \<longrightarrow> returned (a_to_b s)" "b_done s \<longrightarrow> returned (b_to_a s)"
    using assms by (simp_all add: splice_ok_def closing_ok_def)
  have step: "\<exists>s'. splice_step s s'" if "\<not> is_done g s" for g
  proof (cases "copied g s")
    case True
    then show ?thesis
      using splice_step.closing [OF True that] by (auto simp: closeAll_def Used)
  next
    case False
    with u(1,2) show ?thesis
      using copy_enabled_closed splice_step.forward [of s] splice_step.backward [of s] by (cases g) fastforce+
  qed
  have "\<not> splice_step s s'" if "splice_done s" for s'
  proof
    assume "splice_step s s'"
    then show False
    proof (cases rule: splice_step.cases)
      case (closing g)
      with that show False by (cases g) (auto simp: splice_done_def)
    qed (use that u(4,5) copy_returned in \<open>auto simp: splice_done_def\<close>)
  qed
  moreover have "\<exists>s'. splice_step s s'" if "\<not> splice_done s"
    using that step [of From_A] step [of From_B] by (auto simp: splice_done_def)
  ultimately show ?thesis
    using u(3-5) by (auto simp: blocked_def)
qed

lemma returned_stays: "splice_step s s' \<Longrightarrow> returned (a_to_b s) \<or> returned (b_to_a s) \<Longrightarrow> returned (a_to_b s') \<or> returned (b_to_a s')"
  by (induction rule: splice_step.induct) (auto dest: copy_returned closeAll_pipes)

lemma splice_goes_on:
  "splice_ok as bs s \<Longrightarrow> returned (a_to_b s) \<or> returned (b_to_a s) \<Longrightarrow> \<exists>s'. splice_step\<^sup>*\<^sup>* s s' \<and> splice_done s'"
proof (induction "splice_measure s" arbitrary: s rule: less_induct)
  case less
  show ?case
  proof (cases "splice_done s")
    case False
    then obtain t where t: "splice_step s t"
      using less.prems splice_stuck [OF less.prems(1)] by (auto simp: blocked_def)
    from less.hyps [OF splice_less [OF t] splice_step_ok [OF t less.prems(1)] returned_stays [OF t less.prems(2)]]
    show ?thesis
      using t by (meson converse_rtranclp_into_rtranclp)
  qed auto
qed

section \<open>Properties\<close>

text \<open>C28. A splice neither alters nor reorders nor invents bytes: at every moment each side has received a
  prefix of what the other sent, and all of it once the copying in its direction ended
  without an error. Each of the two connections is closed at most once, not before one goroutine
  has finished copying, and both are closed when a goroutine is done: so both are closed once
  when the splice returns.\<close>

theorem splice_faithful:
  assumes "splice_step\<^sup>*\<^sup>* (new_splice a b) s"
  shows "prefix (delivered (a_to_b s)) (concat (peer_sends a)) \<and> prefix (delivered (b_to_a s)) (concat (peer_sends b))
    \<and> (returned (a_to_b s) \<and> \<not> failed (a_to_b s) \<longrightarrow> delivered (a_to_b s) = concat (peer_sends a))
    \<and> (returned (b_to_a s) \<and> \<not> failed (b_to_a s) \<longrightarrow> delivered (b_to_a s) = concat (peer_sends b))
    \<and> b_closes s = (if a_done s \<or> b_done s then 1 else 0) \<and> b_closes s \<le> a_closes s \<and> a_closes s \<le> 1
    \<and> (a_closes s = 1 \<longrightarrow> returned (a_to_b s) \<or> returned (b_to_a s))"
proof -
  have ok: "splice_ok (peer_sends a) (peer_sends b) s"
    by (rule splice_reach_ok [OF assms])
  have "closing_ok s"
    using ok by (simp add: splice_ok_def)
  moreover have "returned (a_to_b s) \<or> returned (b_to_a s)" if "copied g s" for g
    using that by (cases g) simp_all
  moreover have "a_done s \<or> b_done s \<longrightarrow> returned (a_to_b s) \<or> returned (b_to_a s)"
    using ok by (auto simp: splice_ok_def)
  ultimately have "b_closes s = (if a_done s \<or> b_done s then 1 else 0) \<and> b_closes s \<le> a_closes s \<and> a_closes s \<le> 1
      \<and> (a_closes s = 1 \<longrightarrow> returned (a_to_b s) \<or> returned (b_to_a s))"
    by (cases "once_of s") (auto simp: closing_ok_def)
  moreover have "pipe_ok (peer_sends a) (a_to_b s)" "pipe_ok (peer_sends b) (b_to_a s)"
    using ok by (simp_all add: splice_ok_def)
  ultimately show ?thesis
    using pipe_ok_prefix pipe_whole by blast
qed

abbreviation sample_client :: peer where
  "sample_client \<equiv> \<lparr>peer_sends = [[1]], peer_ends = Eof, peer_room = 1, peer_breaks = False\<rparr>"

abbreviation sample_server :: peer where
  "sample_server \<equiv> \<lparr>peer_sends = [], peer_ends = Silent, peer_room = 1, peer_breaks = False\<rparr>"

text \<open>The client has sent its byte and ended; the server, still silent, has received it.\<close>

definition sample_end :: splice where
  "sample_end =
     \<lparr>a_to_b = \<lparr>pending = [], ending_of = Eof, room = 0, breaks = False, held = None, delivered = [1], returned = True, failed = False\<rparr>,
      b_to_a = new_pipe sample_server sample_client, once_of = Used, a_closes = 1, b_closes = 1, a_done = True, b_done = False\<rparr>"

lemma sample_splice: "(splice_step ^^ 5) (new_splice sample_client sample_server) sample_end"
proof -
  let ?s0 = "new_splice sample_client sample_server"
  let ?s1 = "?s0\<lparr>a_to_b := (a_to_b ?s0)\<lparr>held := Some [1], pending := []\<rparr>\<rparr>"
  let ?s2 = "?s1\<lparr>a_to_b := (a_to_b ?s1)\<lparr>held := None, room := 0, delivered := [1]\<rparr>\<rparr>"
  let ?s3 = "?s2\<lparr>a_to_b := (a_to_b ?s2)\<lparr>returned := True\<rparr>\<rparr>"
  let ?s4 = "?s3\<lparr>once_of := Running From_A, a_closes := 1\<rparr>"
  have "splice_step ?s0 ?s1" "splice_step ?s1 ?s2" "splice_step ?s2 ?s3"
    by (rule splice_step.forward; simp add: copy_step_simps new_splice_def new_pipe_def)+
  moreover have "splice_step ?s3 ?s4" "splice_step ?s4 sample_end"
    by (rule splice_step.closing [of From_A]; simp add: closeAll_def new_splice_def new_pipe_def sample_end_def)+
  ultimately show ?thesis
    by (simp add: numeral_eq_Suc relcompp.simps) blast
qed

theorem splice_faithful_witness: "delivered (a_to_b sample_end) = [1] \<and> a_closes sample_end = 1 \<and> b_closes sample_end = 1"
  using splice_faithful [OF relpowp_imp_rtranclp [OF sample_splice]] by (simp add: sample_end_def)

text \<open>C29. A splice ends when either side ends. However the two goroutines interleave, it makes at most two
  steps for every chunk and five more. It cannot go on in two cases only: both goroutines are
  done, or neither has finished copying and each of them waits for a peer that does nothing (a
  read from one that is silent, a write to one that takes nothing). So once one of them has
  finished copying, whatever the other one waits for, the splice goes on until it is done.\<close>

theorem splice_terminates:
  assumes "(splice_step ^^ n) (new_splice a b) s"
  shows "n \<le> 2 * length (peer_sends a) + 2 * length (peer_sends b) + 5
    \<and> ((\<nexists>s'. splice_step s s') \<longleftrightarrow> splice_done s \<or> blocked (a_to_b s) \<and> blocked (b_to_a s))
    \<and> (returned (a_to_b s) \<or> returned (b_to_a s) \<longrightarrow> (\<exists>s'. splice_step\<^sup>*\<^sup>* s s' \<and> splice_done s'))"
proof (intro conjI impI)
  have "n + splice_measure t \<le> splice_measure s0" if "(splice_step ^^ n) s0 t" for n s0 t
    using that
  proof (induction n arbitrary: t)
    case (Suc n)
    then obtain u where "(splice_step ^^ n) s0 u" "splice_step u t"
      by (auto elim: relpowp_Suc_E)
    with Suc.IH [of u] splice_less [of u t] show ?case by simp
  qed simp
  from this [OF assms] show "n \<le> 2 * length (peer_sends a) + 2 * length (peer_sends b) + 5"
    by (simp add: splice_measure_def left_to_do_def new_splice_def new_pipe_def)
  have ok: "splice_ok (peer_sends a) (peer_sends b) s"
    using assms splice_reach_ok by (metis rtranclp_power)
  then show "(\<nexists>s'. splice_step s s') \<longleftrightarrow> splice_done s \<or> blocked (a_to_b s) \<and> blocked (b_to_a s)"
    by (rule splice_stuck)
  assume "returned (a_to_b s) \<or> returned (b_to_a s)"
  with ok show "\<exists>s'. splice_step\<^sup>*\<^sup>* s s' \<and> splice_done s'"
    by (rule splice_goes_on)
qed

theorem splice_terminates_witness: "\<exists>s'. splice_step\<^sup>*\<^sup>* sample_end s' \<and> splice_done s'"
  using splice_terminates [OF sample_splice] by (simp add: sample_end_def)

end
