(* ===== verification/Proxy_Peek.thy ===== *)
theory Proxy_Peek
imports Tls_Sni Splice_Conn
begin

text \<open>
  The buffered reader through which \<open>handleTLSConn\<close> of \<open>internal/proxy/proxy.go\<close> looks at the first
  bytes of a connection (\<open>bufio.NewReader\<close>), \<open>PeekSNI\<close> on it, and the \<open>peekConn\<close> that hands it on
  to the splice or to the TLS server. The connection gives its bytes in pieces of any size. The
  theorem says that the pieces do not matter and that nothing that was looked at is lost.
\<close>

section \<open>The buffered reader\<close>

text \<open>
  \<open>b_buf\<close> is what is buffered and not read yet, \<open>b_err\<close> an error kept for later, \<open>b_src\<close> what the
  next reads of the connection give; behind that every read ends with an error or the end
  of the stream.
\<close>

record breader =
  b_buf :: bytes
  b_err :: bool
  b_src :: "bytes list"

definition NewReader :: "bytes list \<Rightarrow> breader" where
  "NewReader src = \<lparr>b_buf = [], b_err = False, b_src = src\<rparr>"

text \<open>A read of at most \<open>n\<close> bytes from the connection.\<close>

fun conn_read :: "nat \<Rightarrow> bytes list \<Rightarrow> bytes \<times> bool \<times> bytes list" where
  "conn_read n [] = ([], True, [])"
| "conn_read n (c # cs) = (if length c \<le> n then (c, False, cs) else (take n c, False, drop n c # cs))"

definition b_fill :: "breader \<Rightarrow> breader" where
  "b_fill r =
     (case conn_read (buffer_size - length (b_buf r)) (b_src r) of
        (d, err, src) \<Rightarrow> \<lparr>b_buf = b_buf r @ d, b_err = err, b_src = src\<rparr>)"

definition src_size :: "bytes list \<Rightarrow> nat" where
  "src_size src = (\<Sum>c\<leftarrow>src. Suc (length c))"

lemma conn_read_less: "conn_read n src = (d, err, src') \<Longrightarrow> 0 < n \<Longrightarrow> \<not> err \<Longrightarrow>
    src_size src' < src_size src \<and> src_size src' + length d \<le> src_size src"
  by (cases src) (auto simp: src_size_def split: if_splits)

text \<open>\<open>Peek\<close> fills the buffer until it holds \<open>n\<close> bytes, is full, or an error came.\<close>

function b_fill_to :: "nat \<Rightarrow> breader \<Rightarrow> breader" where
  "b_fill_to n r =
     (if length (b_buf r) < n \<and> length (b_buf r) < buffer_size \<and> \<not> b_err r then b_fill_to n (b_fill r) else r)"
  by pat_completeness auto
termination
proof (relation "measure (\<lambda>(n, r). src_size (b_src r) + of_bool (\<not> b_err r))")
  fix n and r :: breader
  assume a: "length (b_buf r) < n \<and> length (b_buf r) < buffer_size \<and> \<not> b_err r"
  obtain d err src where c: "conn_read (buffer_size - length (b_buf r)) (b_src r) = (d, err, src)"
    by (cases "conn_read (buffer_size - length (b_buf r)) (b_src r)")
  have "src_size src + of_bool (\<not> err) < Suc (src_size (b_src r))"
    using conn_read_less [OF c] a c by (cases "b_src r") (auto simp: src_size_def split: if_splits)
  with a c show "((n, b_fill r), (n, r)) \<in> measure (\<lambda>(n, r). src_size (b_src r) + of_bool (\<not> b_err r))"
    by (simp add: b_fill_def)
qed simp

declare b_fill_to.simps [simp del]

definition b_Peek :: "nat \<Rightarrow> breader \<Rightarrow> bytes option \<times> breader" where
  "b_Peek n r0 =
     (let r = b_fill_to n r0
      in if n > buffer_size then (None, r)
         else if length (b_buf r) < n then (None, r\<lparr>b_err := False\<rparr>)
         else (Some (take n (b_buf r)), r))"

text \<open>
  \<open>Read\<close>, which is also that of a \<open>peekConn\<close>: from the buffer if there is something, else from the
  connection, directly when \<open>n\<close> bytes would fill the buffer.
\<close>

definition b_Read :: "nat \<Rightarrow> breader \<Rightarrow> bytes \<times> bool \<times> breader" where
  "b_Read n r =
     (if n = 0 then (if b_buf r \<noteq> [] then ([], False, r) else ([], b_err r, r\<lparr>b_err := False\<rparr>))
      else if b_buf r \<noteq> [] then (take n (b_buf r), False, r\<lparr>b_buf := drop n (b_buf r)\<rparr>)
      else if b_err r then ([], True, r\<lparr>b_err := False\<rparr>)
      else if buffer_size \<le> n then (case conn_read n (b_src r) of (d, err, src) \<Rightarrow> (d, err, r\<lparr>b_src := src\<rparr>))
      else (case conn_read buffer_size (b_src r) of
              (d, err, src) \<Rightarrow>
                if d = [] then ([], err, r\<lparr>b_src := src\<rparr>)
                else (take n d, False, r\<lparr>b_buf := drop n d, b_err := err, b_src := src\<rparr>)))"

text \<open>Reads one after the other, up to an error.\<close>

fun b_reads :: "nat list \<Rightarrow> breader \<Rightarrow> bytes list" where
  "b_reads [] r = []"
| "b_reads (n # ns) r = (case b_Read n r of (d, err, r') \<Rightarrow> if err then [d] else d # b_reads ns r')"

section \<open>What is not read yet\<close>

definition unread :: "breader \<Rightarrow> bytes" where
  "unread r = b_buf r @ concat (b_src r)"

definition reader_ok :: "breader \<Rightarrow> bool" where
  "reader_ok r \<longleftrightarrow> length (b_buf r) \<le> buffer_size \<and> (b_err r \<longrightarrow> b_src r = [])"

lemma conn_read_stream: "conn_read n src = (d, err, src') \<Longrightarrow> d @ concat src' = concat src"
  by (cases src) (auto simp flip: append_assoc split: if_splits)

lemma conn_read_err: "conn_read n src = (d, err, src') \<Longrightarrow> (err \<longleftrightarrow> src = []) \<and> length d \<le> n \<and> (err \<longrightarrow> d = [] \<and> src' = [])"
  by (cases src) (auto split: if_splits)

lemma NewReader_ok: "reader_ok (NewReader src)" "unread (NewReader src) = concat src"
  by (simp_all add: reader_ok_def unread_def NewReader_def)

lemma b_fill_ok:
  assumes "reader_ok r"
  shows "reader_ok (b_fill r) \<and> unread (b_fill r) = unread r"
proof -
  obtain d err src where c: "conn_read (buffer_size - length (b_buf r)) (b_src r) = (d, err, src)"
    by (cases "conn_read (buffer_size - length (b_buf r)) (b_src r)")
  with conn_read_stream [OF c] conn_read_err [OF c] assms show ?thesis
    by (auto simp: b_fill_def reader_ok_def unread_def)
qed

lemma b_fill_to_ok:
  "reader_ok r \<Longrightarrow> reader_ok (b_fill_to n r) \<and> unread (b_fill_to n r) = unread r
     \<and> (n \<le> length (b_buf (b_fill_to n r)) \<or> buffer_size \<le> length (b_buf (b_fill_to n r)) \<or> b_err (b_fill_to n r))"
proof (induction n r rule: b_fill_to.induct)
  case (1 n r)
  show ?case
  proof (cases "length (b_buf r) < n \<and> length (b_buf r) < buffer_size \<and> \<not> b_err r")
    case True
    with 1 b_fill_ok [of r] show ?thesis
      by (subst (1 2 3 4 5) b_fill_to.simps) simp
  next
    case False
    with 1 show ?thesis
      by (subst (1 2 3 4 5) b_fill_to.simps) auto
  qed
qed

text \<open>\<open>Peek\<close> answers as on the whole stream, whatever its pieces, and consumes nothing.\<close>

lemma b_Peek_ok:
  assumes "reader_ok r" and "b_Peek n r = (d, r')"
  shows "d = peek n (unread r) \<and> reader_ok r' \<and> unread r' = unread r"
proof -
  let ?r = "b_fill_to n r"
  note f = b_fill_to_ok [OF assms(1), of n]
  show ?thesis
  proof (cases "buffer_size < n")
    case True
    with assms(2) f show ?thesis by (auto simp: b_Peek_def Let_def peek_def)
  next
    case fits: False
    show ?thesis
    proof (cases "length (b_buf ?r) < n")
      case True
      with f fits have "b_src ?r = []"
        by (auto simp: reader_ok_def)
      with f have "unread r = b_buf ?r"
        by (simp add: unread_def)
      with True fits assms(2) f show ?thesis
        by (auto simp: b_Peek_def Let_def peek_def reader_ok_def unread_def)
    next
      case False
      from f have "unread r = b_buf ?r @ concat (b_src ?r)"
        by (simp add: unread_def)
      with False fits assms(2) f show ?thesis
        by (auto simp: b_Peek_def Let_def peek_def)
    qed
  qed
qed

lemma b_Read_ok:
  assumes "reader_ok r" and "b_Read n r = (d, err, r')"
  shows "reader_ok r' \<and> d @ unread r' = unread r \<and> (err \<longrightarrow> unread r = d)"
proof (cases "n = 0 \<or> b_buf r \<noteq> [] \<or> b_err r")
  case True
  with assms show ?thesis
    by (auto simp: b_Read_def reader_ok_def unread_def split: if_splits)
next
  case False
  then have r: "unread r = concat (b_src r)" "n \<noteq> 0" "b_buf r = []" "\<not> b_err r"
    by (simp_all add: unread_def)
  define m where "m = (if buffer_size \<le> n then n else buffer_size)"
  obtain d' e src where c: "conn_read m (b_src r) = (d', e, src)"
    by (cases "conn_read m (b_src r)")
  note s = conn_read_stream [OF c] conn_read_err [OF c]
  show ?thesis
  proof (cases "buffer_size \<le> n")
    case True
    with assms(2) r c s show ?thesis
      by (auto simp: m_def b_Read_def reader_ok_def unread_def)
  next
    case small: False
    show ?thesis
    proof (cases "d' = []")
      case True
      with small assms(2) r c s show ?thesis
        by (auto simp: m_def b_Read_def reader_ok_def unread_def)
    next
      case False
      with small assms(2) r c s show ?thesis
        by (auto simp: m_def b_Read_def reader_ok_def unread_def simp flip: append_assoc)
    qed
  qed
qed

lemma b_reads_prefix: "reader_ok r \<Longrightarrow> prefix (concat (b_reads ns r)) (unread r)"
proof (induction ns r rule: b_reads.induct)
  case (2 n ns r)
  obtain d err r' where b: "b_Read n r = (d, err, r')"
    by (cases "b_Read n r")
  note ok = b_Read_ok [OF "2.prems" b]
  show ?case
  proof (cases err)
    case True
    with b ok show ?thesis by simp
  next
    case False
    with "2.IH" [OF b [symmetric] refl] ok have "prefix (concat (b_reads ns r')) (unread r')"
      by simp
    then have "prefix (d @ concat (b_reads ns r')) (d @ unread r')"
      by simp
    moreover have "d @ unread r' = unread r"
      using ok by simp
    ultimately show ?thesis
      using False b by (simp only: b_reads.simps case_prod_conv if_False concat.simps)
  qed
qed simp

section \<open>Copying all of it\<close>

text \<open>\<open>io.Copy\<close> reads up to \<open>n\<close> bytes at a time, up to an error.\<close>

lemma b_Read_less:
  assumes "b_Read n r = (d, False, r')" and "0 < n"
  shows "src_size (b_src r') + length (b_buf r') < src_size (b_src r) + length (b_buf r)"
proof (cases "b_buf r = []")
  case False
  with assms show ?thesis by (auto simp: b_Read_def)
next
  case True
  define m where "m = (if buffer_size \<le> n then n else buffer_size)"
  obtain d' e src where c: "conn_read m (b_src r) = (d', e, src)"
    by (cases "conn_read m (b_src r)")
  have "0 < m"
    using assms(2) by (simp add: m_def buffer_size_def)
  note less = conn_read_less [OF c this] conn_read_err [OF c]
  from True assms c less show ?thesis
    by (cases "buffer_size \<le> n"; cases "d' = []") (auto simp: m_def b_Read_def split: if_splits)
qed

function copy_chunks :: "nat \<Rightarrow> breader \<Rightarrow> bytes list" where
  "copy_chunks n r =
     (case b_Read (Suc n) r of (d, err, r') \<Rightarrow> if err then (if d = [] then [] else [d]) else d # copy_chunks n r')"
  by pat_completeness auto
termination
  by (relation "measure (\<lambda>(n, r). src_size (b_src r) + length (b_buf r))") (auto dest!: b_Read_less [OF sym])

declare copy_chunks.simps [simp del]

lemma copy_chunks_all: "reader_ok r \<Longrightarrow> concat (copy_chunks n r) = unread r"
proof (induction n r rule: copy_chunks.induct)
  case (1 n r)
  obtain d err r' where b: "b_Read (Suc n) r = (d, err, r')"
    by (cases "b_Read (Suc n) r")
  note ok = b_Read_ok [OF "1.prems" b]
  show ?case
    using "1.IH" [OF b [symmetric] refl] b ok by (subst copy_chunks.simps) auto
qed

section \<open>Peeking and splicing\<close>

text \<open>\<open>PeekSNI\<close> on the reader; \<open>None\<close> would be a panic.\<close>

definition PeekSNI_on :: "breader \<Rightarrow> sni_result option \<times> breader" where
  "PeekSNI_on r =
     (case b_Peek 5 r of
        (None, r1) \<Rightarrow> (Some Sni_Error, r1)
      | (Some hdr, r1) \<Rightarrow>
     (case byte_at hdr 0 of
        None \<Rightarrow> (None, r1)
      | Some recType \<Rightarrow>
          if recType \<noteq> 0x16 then (Some (Sni []), r1)
          else
     (case be16 hdr 3 of
        None \<Rightarrow> (None, r1)
      | Some recLen \<Rightarrow>
          if recLen > 16384 then (Some (Sni []), r1)
          else
     (case b_Peek (5 + recLen) r1 of
        (None, r2) \<Rightarrow> (Some (Sni []), r2)
      | (Some data, r2) \<Rightarrow>
          if length data < 9 then (Some (Sni []), r2)
          else
     (case byte_at data 5 of
        None \<Rightarrow> (None, r2)
      | Some hsType \<Rightarrow>
          if hsType \<noteq> 0x01 then (Some (Sni []), r2) else (map_option Sni (parse_hello data), r2))))))"

lemma PeekSNI_on_ok:
  assumes "reader_ok r" and "PeekSNI_on r = (res, r')"
  shows "res = PeekSNI (unread r) \<and> reader_ok r' \<and> unread r' = unread r"
proof -
  obtain d1 r1 where p1: "b_Peek 5 r = (d1, r1)"
    by (cases "b_Peek 5 r")
  note k1 = b_Peek_ok [OF assms(1) p1]
  show ?thesis
  proof (cases "\<exists>hdr n. d1 = Some hdr \<and> byte_at hdr 0 = Some 0x16 \<and> be16 hdr 3 = Some n \<and> n \<le> 16384")
    case False
    with assms(2) p1 k1 show ?thesis
      by (cases d1) (auto simp: PeekSNI_on_def PeekSNI_def split: option.splits if_splits)
  next
    case True
    then obtain hdr n where h: "d1 = Some hdr" "byte_at hdr 0 = Some 0x16" "be16 hdr 3 = Some n" "n \<le> 16384"
      by blast
    obtain d2 r2 where p2: "b_Peek (5 + n) r1 = (d2, r2)"
      by (cases "b_Peek (5 + n) r1")
    with b_Peek_ok [OF _ p2] k1 have k2: "d2 = peek (5 + n) (unread r)" "reader_ok r2" "unread r2 = unread r"
      by simp_all
    have f: "peek 5 (unread r) = Some hdr"
      using k1 h(1) by simp
    show ?thesis
      using assms(2) p1 p2 h k2(2,3) f
      by (cases d2) (auto simp: PeekSNI_on_def PeekSNI_def k2(1) [symmetric] split: option.splits if_splits)
  qed
qed

text \<open>
  \<open>spliceTo\<close> with the reader in the place of the connection, so that what the client sends is
  what is read from it. \<open>io.Copy\<close> has a buffer of 32 KB.
\<close>

definition splice_conn :: "peer \<Rightarrow> breader \<Rightarrow> peer \<Rightarrow> splice" where
  "splice_conn client r upstream = new_splice (client\<lparr>peer_sends := copy_chunks (32 * 1024 - 1) r\<rparr>) upstream"

section \<open>Properties\<close>

text \<open>C24. Looking at the first bytes loses none of them. Whatever pieces the bytes of a client arrive in,
  \<open>PeekSNI\<close> reads the same server name from them; afterwards a TLS server that reads through
  the \<open>peekConn\<close> in portions of any size sees the stream of the client from its first byte, and
  so does the upstream of a splice: it gets a prefix of that stream, and all of it when the
  copying ends without an error.\<close>

theorem peeked_bytes_reach_upstream:
  assumes "PeekSNI_on (NewReader src) = (res, r)" and "splice_step\<^sup>*\<^sup>* (splice_conn client r upstream) s"
  shows "res = PeekSNI (concat src) \<and> (\<forall>ns. prefix (concat (b_reads ns r)) (concat src))
    \<and> prefix (delivered (a_to_b s)) (concat src)
    \<and> (returned (a_to_b s) \<and> \<not> failed (a_to_b s) \<longrightarrow> delivered (a_to_b s) = concat src)"
proof -
  have r: "res = PeekSNI (concat src)" "reader_ok r" "unread r = concat src"
    using PeekSNI_on_ok [OF NewReader_ok(1) assms(1)] by (simp_all add: NewReader_ok(2))
  have "pipe_ok (copy_chunks (32 * 1024 - 1) r) (a_to_b s)"
    using splice_reach_ok [of "client\<lparr>peer_sends := copy_chunks (32 * 1024 - 1) r\<rparr>" upstream s] assms(2)
    by (simp add: splice_conn_def splice_ok_def)
  moreover have "concat (copy_chunks (32 * 1024 - 1) r) = concat src"
    by (rule trans [OF copy_chunks_all [OF r(2)] r(3)])
  ultimately have "prefix (delivered (a_to_b s)) (concat src)
      \<and> (returned (a_to_b s) \<and> \<not> failed (a_to_b s) \<longrightarrow> delivered (a_to_b s) = concat src)"
    using pipe_ok_prefix [of "copy_chunks (32 * 1024 - 1) r" "a_to_b s"]
      pipe_whole [of "copy_chunks (32 * 1024 - 1) r" "a_to_b s"] by simp
  then show ?thesis
    using r(1,3) b_reads_prefix [OF r(2)] by auto
qed

text \<open>Five bytes that are no TLS record, in two pieces.\<close>

theorem peeked_bytes_reach_upstream_witness:
  "\<exists>r. PeekSNI_on (NewReader [[1, 2], [3, 4, 5, 6]]) = (Some (Sni []), r) \<and> prefix (concat (b_reads [1, 9] r)) [1, 2, 3, 4, 5, 6]"
proof -
  obtain res r where p: "PeekSNI_on (NewReader [[1, 2], [3, 4, 5, 6]]) = (res, r)"
    by (cases "PeekSNI_on (NewReader [[1, 2], [3, 4, 5, 6]])")
  have "PeekSNI [1, 2, 3, 4, 5, 6] = Some (Sni [])"
    by (simp add: PeekSNI_def peek_def buffer_size_def byte_at_def)
  moreover have "concat [[1, 2], [3, 4, 5, 6]] = [1, 2, 3, 4, 5, 6 :: byte]"
    by simp
  ultimately show ?thesis
    using peeked_bytes_reach_upstream [OF p rtranclp.rtrancl_refl [of _ "splice_conn sample_client r sample_server"]] p by metis
qed

end
