(* ===== verification/Proxy_Conn.thy ===== *)
theory Proxy_Conn
imports Proxy_Correct Tls_Sni
begin

text \<open>
  One intercepted connection (\<open>Serve\<close>, \<open>handleConn\<close>, \<open>handleTLSConn\<close> and \<open>spliceTo\<close> of
  \<open>internal/proxy/proxy.go\<close>). What the connection brings is data: the answer of the
  original-destination lookup, the peer's address, the first bytes, whether a TLS
  handshake succeeds, and the requests that \<open>http.ReadRequest\<close> reads one after the
  other until an error, each with the environment its handling runs in.
\<close>

section \<open>The definitions\<close>

record conn =
  c_origDst :: "(string \<times> uint16) option"
  c_peerIP :: "string option"
  c_bytes :: bytes
  c_splice_dial :: bool
  c_handshake :: bool
  c_requests :: "(http_env \<times> request) list"

text \<open>
  What a connection did: a splice to an address (or its failed dial), a failed
  handshake, or the effects of the requests handled, in order.
\<close>

datatype conn_result =
    Closed
  | Spliced string
  | Splice_failed string
  | Handshake_failed
  | Served "effect list list"

definition keepAlive :: "request \<Rightarrow> bool" where
  "keepAlive req \<longleftrightarrow> proto_at_least req 1 1 \<and> \<not> equal_fold (header_get (r_Header req) ''Connection'') ''close''"

text \<open>\<open>keepAlive\<close> is read before the handler runs, which overwrites the header.\<close>

fun serve_requests ::
  "(request \<Rightarrow> request) \<Rightarrow> string \<Rightarrow> uint16 \<Rightarrow> string \<Rightarrow> labels \<Rightarrow> (http_env \<times> request) list \<Rightarrow> proxy \<Rightarrow>
   proxy \<times> effect list list" where
  "serve_requests prep addr port ns ls [] p = (p, [])"
| "serve_requests prep addr port ns ls ((env, req0) # rs) p =
     (let req = prep req0;
          keep = keepAlive req;
          (p1, eff) = handleRequest env req addr port ns ls p
      in if \<not> keep then (p1, [eff])
         else case serve_requests prep addr port ns ls rs p1 of (p2, effs) \<Rightarrow> (p2, eff # effs))"

definition spliceTo :: "conn \<Rightarrow> string \<Rightarrow> conn_result" where
  "spliceTo c addr = (if c_splice_dial c then Spliced addr else Splice_failed addr)"

definition with_sni_host :: "string \<Rightarrow> request \<Rightarrow> request" where
  "with_sni_host sni req = (if r_Host req = [] then req\<lparr>r_Host := sni\<rparr> else req)"

text \<open>A panic of \<open>PeekSNI\<close> would end the connection.\<close>

definition handleTLSConn :: "conn \<Rightarrow> string \<Rightarrow> uint16 \<Rightarrow> string \<Rightarrow> labels \<Rightarrow> proxy \<Rightarrow> proxy \<times> conn_result" where
  "handleTLSConn c addr port ns ls p =
     (case PeekSNI (c_bytes c) of
        None \<Rightarrow> (p, Closed)
      | Some Sni_Error \<Rightarrow> (p, spliceTo c addr)
      | Some (Sni sni) \<Rightarrow>
          if \<not> px_has_ca p \<or> \<not> HasRuleForHostPort (px_policy p) sni port then (p, spliceTo c addr)
          else if \<not> c_handshake c then (p, Handshake_failed)
          else (case serve_requests (with_sni_host sni) addr port ns ls (c_requests c) p of
                  (p', effs) \<Rightarrow> (p', Served effs)))"

definition handleConn :: "(string \<Rightarrow> string \<times> labels) option \<Rightarrow> conn \<Rightarrow> proxy \<Rightarrow> proxy \<times> conn_result" where
  "handleConn nsFn c p =
     (case c_origDst c of
        None \<Rightarrow> (p, Closed)
      | Some (ip, port) \<Rightarrow>
          let (ns, ls) = (case nsFn of
                            None \<Rightarrow> ([], Map.empty)
                          | Some f \<Rightarrow> (case c_peerIP c of None \<Rightarrow> ([], Map.empty) | Some peer \<Rightarrow> f peer));
              addr = join_host_port ip (itoa (unat port))
          in if port = 443 then handleTLSConn c addr port ns ls p
             else (case serve_requests (\<lambda>r. r) addr port ns ls (c_requests c) p of (p', effs) \<Rightarrow> (p', Served effs)))"

text \<open>The accept loop: every connection counts and is handled.\<close>

fun Serve :: "(string \<Rightarrow> string \<times> labels) option \<Rightarrow> conn list \<Rightarrow> proxy \<Rightarrow> proxy \<times> conn_result list" where
  "Serve nsFn [] p = (p, [])"
| "Serve nsFn (c # cs) p =
     (let (p1, r) = handleConn nsFn c (observe BPFRedirect p);
          (p2, rs) = Serve nsFn cs p1
      in (p2, r # rs))"

text \<open>\<open>None\<close> when the address cannot be listened on. It only returns with an error.\<close>

definition ListenAndServe ::
  "(string \<Rightarrow> string \<times> labels) option \<Rightarrow> conn list option \<Rightarrow> proxy \<Rightarrow> proxy \<times> conn_result list" where
  "ListenAndServe nsFn accepts p = (case accepts of None \<Rightarrow> (p, []) | Some cs \<Rightarrow> Serve nsFn cs p)"

section \<open>Facts\<close>

text \<open>How many of the requests are handled: those up to and including the first that ends the connection.\<close>

fun handled :: "(request \<Rightarrow> request) \<Rightarrow> (http_env \<times> request) list \<Rightarrow> (http_env \<times> request) list" where
  "handled prep [] = []"
| "handled prep ((env, req) # rs) = (env, req) # (if keepAlive (prep req) then handled prep rs else [])"

lemma serve_length: "length (snd (serve_requests prep addr port ns ls rs p)) = length (handled prep rs)"
  by (induction prep addr port ns ls rs p rule: serve_requests.induct) (auto simp: Let_def split: prod.splits)

text \<open>The server name put in as the host does not decide where the handling ends.\<close>

lemma handled_with_sni: "handled (with_sni_host sni) rs = handled (\<lambda>r. r) rs"
proof -
  have "keepAlive (with_sni_host sni r) = keepAlive r" for r
    by (simp add: keepAlive_def proto_at_least_def with_sni_host_def)
  then show ?thesis
    by (induction "\<lambda>r :: request. r" rs rule: handled.induct) simp_all
qed

lemma same_config_trans: "same_config p q \<Longrightarrow> same_config q r \<Longrightarrow> same_config p r"
  by (simp add: same_config_def)

lemma handle_keeps_config: "same_config p (fst (handleRequest env req addr port ns ls p))"
proof (cases "match_for p req addr port ns ls = None \<or> too_large req p")
  case True
  then show ?thesis
  proof (rule handleRequest_unmatched [where env = env])
    fix p1
    assume p1: "handleRequest env req addr port ns ls p =
        handle_unmatched env (effective_host req addr) (prepared req p) (buffered req p) addr p1" "same_config p p1"
    show ?thesis
      using handle_unmatched_keeps(3) [OF surjective_pairing] p1 same_config_trans by metis
  qed
next
  case False
  then obtain r where r: "match_for p req addr port ns ls = Some r" "\<not> too_large req p"
    by auto
  show ?thesis
  proof (rule handleRequest_matched [OF r, where env = env])
    fix p1
    assume p1: "handleRequest env req addr port ns ls p =
        handle_matched env r (effective_host req addr) (prepared req p) (buffered req p) addr port p1" "same_config p p1"
    have "same_config p1 p'" if "handle_matched env r (effective_host req addr) (prepared req p) (buffered req p) addr port p1 = (p', eff)"
      for p' eff
      using that by (cases rule: handle_matched_cases)
    with p1 same_config_trans show ?thesis by (metis surjective_pairing)
  qed
qed

text \<open>The forms of an answer, whatever the cache held.\<close>

definition answered :: "string \<Rightarrow> effect list \<Rightarrow> bool" where
  "answered addr eff \<longleftrightarrow>
     (\<exists>resp. eff = [Wrote resp])
     \<or> eff = [Dialed addr, writeBadGateway]
     \<or> (\<exists>req. eff = [Dialed addr, Forwarded addr req, writeBadGateway])
     \<or> (\<exists>req resp. eff = [Dialed addr, Forwarded addr req, Wrote resp])"

lemma fetch_answered: "answered addr (f_effects (fetchUpstream env req body addr p) @ [writeBadGateway])"
  by (simp add: answered_def fetch_effects)

lemma fetch_answered_resp:
  "f_resp (fetchUpstream env req body addr p) \<noteq> None \<Longrightarrow>
     answered addr (f_effects (fetchUpstream env req body addr p) @ [Wrote resp])"
  using fetch_req by (auto simp: answered_def fetch_effects)

lemma handle_answered: "answered addr (snd (handleRequest env req addr port ns ls p))"
proof (cases "match_for p req addr port ns ls = None \<or> too_large req p")
  case True
  then show ?thesis
  proof (rule handleRequest_unmatched [where env = env])
    fix p1
    assume p1: "handleRequest env req addr port ns ls p =
        handle_unmatched env (effective_host req addr) (prepared req p) (buffered req p) addr p1"
    show ?thesis
      unfolding p1 by (auto simp: handle_unmatched_def Let_def fetch_answered fetch_answered_resp split: option.split)
  qed
next
  case False
  then obtain r where r: "match_for p req addr port ns ls = Some r" "\<not> too_large req p"
    by auto
  show ?thesis
  proof (rule handleRequest_matched [OF r, where env = env])
    fix p1
    assume p1: "handleRequest env req addr port ns ls p =
        handle_matched env r (effective_host req addr) (prepared req p) (buffered req p) addr port p1"
    have "answered addr eff" if "handle_matched env r (effective_host req addr) (prepared req p) (buffered req p) addr port p1 = (p', eff)"
      for p' eff
      using that
    proof (cases rule: handle_matched_cases)
      case (hit e)
      then show ?thesis by (simp add: answered_def replyWCachedEntry_def)
    next
      case (failed c)
      then show ?thesis by (simp add: fetch_answered)
    next
      case (passed c resp)
      then show ?thesis by (simp add: fetch_answered_resp)
    next
      case (stored c e resp)
      then show ?thesis by (simp add: fetch_answered_resp)
    qed
    with p1 show ?thesis by (metis surjective_pairing)
  qed
qed

lemma serve_answered: "list_all (answered addr) (snd (serve_requests prep addr port ns ls rs p))"
proof (induction prep addr port ns ls rs p rule: serve_requests.induct)
  case (2 prep addr port ns ls env req0 rs p)
  obtain p1 eff where h: "handleRequest env (prep req0) addr port ns ls p = (p1, eff)"
    by (cases "handleRequest env (prep req0) addr port ns ls p")
  have "answered addr eff"
    using handle_answered [of addr env "prep req0" port ns ls p] h by simp
  with 2 [OF refl refl h [symmetric] refl] h show ?case
    by (auto simp: Let_def split: prod.splits)
qed simp

text \<open>The proxy after a number of requests, each handled in the state the one before it left.\<close>

definition after_requests ::
  "(request \<Rightarrow> request) \<Rightarrow> string \<Rightarrow> uint16 \<Rightarrow> string \<Rightarrow> labels \<Rightarrow> (http_env \<times> request) list \<Rightarrow> proxy \<Rightarrow> proxy" where
  "after_requests prep addr port ns ls rs p = foldl (\<lambda>q (env, req). fst (handleRequest env (prep req) addr port ns ls q)) p rs"

lemma serve_state: "fst (serve_requests prep addr port ns ls rs p) = after_requests prep addr port ns ls (handled prep rs) p"
  by (induction prep addr port ns ls rs p rule: serve_requests.induct) (auto simp: after_requests_def Let_def split: prod.splits)

lemma serve_nth:
  "i < length (snd (serve_requests prep addr port ns ls rs p)) \<Longrightarrow>
     snd (serve_requests prep addr port ns ls rs p) ! i = snd (handleRequest (fst (rs ! i)) (prep (snd (rs ! i))) addr port ns ls
       (after_requests prep addr port ns ls (take i rs) p))"
proof (induction prep addr port ns ls rs p arbitrary: i rule: serve_requests.induct)
  case (2 prep addr port ns ls env req0 rs p)
  obtain p1 eff where h: "handleRequest env (prep req0) addr port ns ls p = (p1, eff)"
    by (cases "handleRequest env (prep req0) addr port ns ls p")
  show ?case
  proof (cases i)
    case 0
    with h show ?thesis by (simp add: after_requests_def Let_def split: prod.split)
  next
    case (Suc k)
    with 2(2) h have "k < length (snd (serve_requests prep addr port ns ls rs p1))" "keepAlive (prep req0)"
      by (auto simp: Let_def split: if_splits prod.splits)
    with 2(1) [OF refl refl h [symmetric] refl, of k] h Suc show ?thesis
      by (simp add: after_requests_def Let_def case_prod_beta)
  qed
qed simp

lemma handled_keep: "Suc i < length (handled prep rs) \<Longrightarrow> keepAlive (prep (snd (rs ! i)))"
  by (induction prep rs arbitrary: i rule: handled.induct) (auto simp: nth_Cons split: nat.split if_splits)

lemma handled_end:
  "length (handled prep rs) = length rs \<or> (\<exists>i. Suc i = length (handled prep rs) \<and> \<not> keepAlive (prep (snd (rs ! i))))"
proof (induction prep rs rule: handled.induct)
  case (2 prep env req rs)
  show ?case
  proof (cases "keepAlive (prep req)")
    case True
    from 2 [OF True] show ?thesis
    proof
      assume "length (handled prep rs) = length rs"
      with True show ?thesis by simp
    next
      assume "\<exists>i. Suc i = length (handled prep rs) \<and> \<not> keepAlive (prep (snd (rs ! i)))"
      then obtain i where i: "Suc i = length (handled prep rs)" "\<not> keepAlive (prep (snd (rs ! i)))"
        by blast
      have "Suc (Suc i) = length (handled prep ((env, req) # rs))"
        using i(1) True by simp
      moreover have "\<not> keepAlive (prep (snd (((env, req) # rs) ! Suc i)))"
        using i(2) by simp
      ultimately show ?thesis by blast
    qed
  next
    case False
    then show ?thesis by (auto intro: exI [of _ 0])
  qed
qed simp

section \<open>Properties\<close>

definition sample_conn :: "uint16 \<Rightarrow> bytes \<Rightarrow> request list \<Rightarrow> conn" where
  "sample_conn port bs reqs =
     \<lparr>c_origDst = Some (''10.0.0.1'', port), c_peerIP = Some ''10.0.0.7'', c_bytes = bs, c_splice_dial = True, c_handshake = True,
      c_requests = map (\<lambda>r. (sample_env (sample_response [] [1]), r)) reqs\<rparr>"

text \<open>C35. On a connection every request is answered exactly once and in order, up to and including the first
  that asks for the end of the connection (an HTTP/1.0 request, or \<open>Connection: close\<close> in
  any case): the answers are as many as the requests handled, and the \<open>i\<close>-th one is what the
  handler gives for the \<open>i\<close>-th request, in the state the requests before it left. Each has one of
  the forms of an answer, and the proxy ends in the state the last one left. The proxy overwrites the header for the upstream, but decides on
  what the client sent.\<close>

theorem connection_answers_each_request:
  assumes "serve_requests prep addr port ns ls rs p = (p', effs)"
  shows "p' = after_requests prep addr port ns ls (handled prep rs) p \<and> length effs = length (handled prep rs)
    \<and> (\<forall>i < length effs. effs ! i = snd (handleRequest (fst (rs ! i)) (prep (snd (rs ! i))) addr port ns ls
          (after_requests prep addr port ns ls (take i rs) p)) \<and> answered addr (effs ! i))
    \<and> (\<forall>i. Suc i < length effs \<longrightarrow> keepAlive (prep (snd (rs ! i))))
    \<and> (length effs = length rs \<or> (\<exists>i. Suc i = length effs \<and> \<not> keepAlive (prep (snd (rs ! i)))))"
proof -
  have "length effs = length (handled prep rs)"
    using serve_length [of prep addr port ns ls rs p] assms by simp
  with handled_keep [of _ prep rs] handled_end [of prep rs] serve_nth [of _ prep addr port ns ls rs p]
    serve_state [of prep addr port ns ls rs p] handle_answered assms
  show ?thesis by simp
qed

theorem connection_answers_each_request_witness:
  "length (snd (serve_requests (\<lambda>r. r) ''10.0.0.1:80'' 80 [] Map.empty
      [(sample_env (sample_response [] [1]), (sample_request ''/'' [])\<lparr>r_ProtoMinor := 0\<rparr>),
       (sample_env (sample_response [] [1]), sample_request ''/'' [])] (sample_proxy []))) = 1"
proof -
  have "\<not> keepAlive ((sample_request ''/'' [])\<lparr>r_ProtoMinor := 0\<rparr>)"
    by (simp add: keepAlive_def proto_at_least_def sample_request_def)
  then show ?thesis
    using connection_answers_each_request [OF surjective_pairing, of "\<lambda>r. r" "''10.0.0.1:80''" 80 "[]" Map.empty
        "[(sample_env (sample_response [] [1]), (sample_request ''/'' [])\<lparr>r_ProtoMinor := 0\<rparr>),
          (sample_env (sample_response [] [1]), sample_request ''/'' [])]" "sample_proxy []"]
    by (simp add: Let_def split: prod.splits)
qed

text \<open>C25. A connection to port 443 is intercepted exactly when its first bytes could be read, a CA is loaded and
  some rule is for the server name and port; otherwise the bytes go to the original
  destination and neither the cache nor anything else of the proxy changes.\<close>

theorem tls_interception_exact:
  assumes "c_origDst c = Some (ip, 443)"
  shows "if (\<exists>sni. PeekSNI (c_bytes c) = Some (Sni sni) \<and> HasRuleForHostPort (px_policy p) sni 443) \<and> px_has_ca p
    then snd (handleConn nsFn c p) = Handshake_failed \<and> \<not> c_handshake c
      \<or> (\<exists>effs. snd (handleConn nsFn c p) = Served effs \<and> list_all (answered (join_host_port ip (itoa 443))) effs) \<and> c_handshake c
    else handleConn nsFn c p = (p, spliceTo c (join_host_port ip (itoa 443)))"
proof -
  have unat: "unat (443 :: uint16) = 443"
    by simp
  obtain ns ls where h: "handleConn nsFn c p = handleTLSConn c (join_host_port ip (itoa 443)) 443 ns ls p"
    using assms by (cases "case nsFn of None \<Rightarrow> ([], Map.empty) | Some f \<Rightarrow> (case c_peerIP c of None \<Rightarrow> ([], Map.empty) | Some peer \<Rightarrow> f peer)")
      (auto simp: handleConn_def unat)
  obtain res where peek: "PeekSNI (c_bytes c) = Some res"
    using parse_hello_total peek_total by blast
  show ?thesis
  proof (cases res)
    case Sni_Error
    with peek h show ?thesis by (simp add: handleTLSConn_def)
  next
    case (Sni sni)
    have "list_all (answered (join_host_port ip (itoa 443))) (snd (serve_requests (with_sni_host sni) (join_host_port ip (itoa 443)) 443 ns ls (c_requests c) p))"
      by (rule serve_answered)
    with Sni peek h show ?thesis
      by (auto simp: handleTLSConn_def split: prod.splits)
  qed
qed

theorem tls_interception_exact_witness:
  "handleConn None (sample_conn 443 [1, 2, 3, 4, 5] []) (sample_proxy []) = (sample_proxy [], Spliced (join_host_port ''10.0.0.1'' (itoa 443)))"
  using tls_interception_exact [of "sample_conn 443 [1, 2, 3, 4, 5] []" "''10.0.0.1''" "sample_proxy []" None]
  by (simp add: sample_conn_def sample_proxy_def new_proxy_def spliceTo_def split: if_splits)

text \<open>No cacheable HTTPS request is lost to a splice: if a CA is loaded and a rule matches a request whose
  host is the connection's server name, the connection is not spliced. A connection whose
  original destination is unknown is closed without contact with anybody.\<close>

theorem tls_gate_complete:
  assumes "Match (px_policy p) ns ls sni 443 method path = Some r" and "px_has_ca p"
    and "PeekSNI (c_bytes c) = Some (Sni sni)"
  shows "(c_origDst c = Some (ip, 443) \<longrightarrow>
       snd (handleConn nsFn c p) \<notin> {Spliced a, Splice_failed a, Closed})
    \<and> (c_origDst c = None \<longrightarrow> handleConn nsFn c p = (p, Closed))"
proof -
  have "HasRuleForHostPort (px_policy p) sni 443"
    using ms.scan_mem assms(1) by (fastforce simp: Match_def HasRuleForHostPort_def has_rule_iff rule_matches_def)
  then show ?thesis
    using assms(2,3) by (auto simp: handleConn_def handleTLSConn_def Let_def split: prod.splits)
qed

theorem tls_gate_complete_witness:
  "handleConn None ((sample_conn 443 (encode_record sample_hello) [])\<lparr>c_origDst := None\<rparr>)
     ((sample_proxy [open_rule])\<lparr>px_has_ca := True\<rparr>) = ((sample_proxy [open_rule])\<lparr>px_has_ca := True\<rparr>, Closed)"
proof -
  have "PeekSNI (encode_record sample_hello) = Some (Sni ''api'')"
    using sample_hello_sni [of "[]"] by simp
  then show ?thesis
    using tls_gate_complete [of "(sample_proxy [open_rule])\<lparr>px_has_ca := True\<rparr>" "[]" Map.empty "''api''" "[]" "[]" open_rule
        "(sample_conn 443 (encode_record sample_hello) [])\<lparr>c_origDst := None\<rparr>"]
    by (simp add: match_open_rule sample_conn_def)
qed

end
