(* ===== verification/Proxy_Stream.thy ===== *)
theory Proxy_Stream
imports Proxy_Conn Proxy_Caching
begin

text \<open>
  The request loop of \<open>handleConn\<close> and \<open>handleTLSConn\<close> of \<open>internal/proxy/proxy.go\<close> on the bytes
  of the connection. \<open>http.ReadRequest\<close> is a parameter: from the bytes that are left it makes a
  request, whose body is read from the connection only when the handler reads it. What the
  handler leaves unread is where the next request is looked for. The theorems say when every
  request is read where the client put it, and what happens when one is not.
\<close>

section \<open>How much of a body is read\<close>

text \<open>
  \<open>read_request inp\<close> is \<open>None\<close> for an error, else the request, the length of the whole message
  and, for a number of bytes of its body, the position in \<open>inp\<close> behind these.
\<close>

type_synonym read_request = "bytes \<Rightarrow> (request \<times> nat \<times> (nat \<Rightarrow> nat)) option"

definition forwarded :: "effect list \<Rightarrow> bool" where
  "forwarded eff = list_ex (\<lambda>e. case e of Forwarded a r \<Rightarrow> True | _ \<Rightarrow> False) eff"

definition write_failed :: "http_env \<Rightarrow> effect list \<Rightarrow> bool" where
  "write_failed env eff =
     list_ex (\<lambda>e. case e of Forwarded a r \<Rightarrow> (case up_exchange env a r of Write_Error \<Rightarrow> True | _ \<Rightarrow> False) | _ \<Rightarrow> False) eff"

text \<open>
  How many bytes of the body of \<open>req\<close> are read while it is handled with the effects \<open>eff\<close>;
  \<open>None\<close> when all of it is. A body that fits the limit is read and closed, and closing the
  body of a request that was read from a connection reads the rest of it. A larger one is
  wrapped in a \<open>NopCloser\<close>: beyond the limit it is read by \<open>Request.Write\<close>, up to a place
  \<open>wr\<close> when that fails. Without a limit the body itself is handed to \<open>Request.Write\<close>, which
  closes it; when nothing is dialled it stays unread.
\<close>

definition body_read :: "http_env \<Rightarrow> nat \<Rightarrow> request \<Rightarrow> effect list \<Rightarrow> proxy \<Rightarrow> nat option" where
  "body_read env wr req eff p =
     (case r_Body req of
        None \<Rightarrow> None
      | Some s \<Rightarrow>
          if 0 < sint (px_maxBodyBytes p) then
            let lr = read_all_limited (px_maxBodyBytes p + 1) s
            in if lr_N lr \<noteq> 0 then None
               else if \<not> forwarded eff then Some (length (lr_data lr))
               else if write_failed env eff then Some (max (length (lr_data lr)) wr)
               else None
          else if forwarded eff then None else Some 0)"

definition next_input :: "nat \<Rightarrow> (nat \<Rightarrow> nat) \<Rightarrow> nat option \<Rightarrow> bytes \<Rightarrow> bytes" where
  "next_input len pos k inp = drop (case k of None \<Rightarrow> len | Some n \<Rightarrow> pos n) inp"

text \<open>
  The loop: each turn takes an environment and the \<open>wr\<close> above; it ends with an error of
  \<open>ReadRequest\<close> or a request that is not kept alive.
\<close>

fun serve_stream ::
  "read_request \<Rightarrow> (request \<Rightarrow> request) \<Rightarrow> string \<Rightarrow> uint16 \<Rightarrow> string \<Rightarrow> labels \<Rightarrow> (http_env \<times> nat) list \<Rightarrow> bytes \<Rightarrow> proxy \<Rightarrow>
   proxy \<times> effect list list" where
  "serve_stream read_request prep addr port ns ls [] inp p = (p, [])"
| "serve_stream read_request prep addr port ns ls ((env, wr) # es) inp p =
     (case read_request inp of
        None \<Rightarrow> (p, [])
      | Some (req0, len, pos) \<Rightarrow>
          let req = prep req0;
              keep = keepAlive req;
              (p1, eff) = handleRequest env req addr port ns ls p;
              inp1 = next_input len pos (body_read env wr req eff p) inp
          in if \<not> keep then (p1, [eff])
             else case serve_stream read_request prep addr port ns ls es inp1 p1 of (p2, effs) \<Rightarrow> (p2, eff # effs))"

section \<open>When all of a body is read\<close>

lemma too_large_limited:
  assumes "r_Body req = Some s" and "0 < sint (px_maxBodyBytes p)"
  shows "too_large req p \<longleftrightarrow> lr_N (read_all_limited (px_maxBodyBytes p + 1) s) = 0"
  using assms by (simp add: too_large_def buffer_body_def Let_def)

lemma read_all_length:
  assumes "lr_N (read_all_limited n s) = 0"
  shows "length (lr_data (read_all_limited n s)) = nat (sint n)"
proof (cases "0 < sint n")
  case True
  with assms have "sint n \<le> int (length (s_data s))"
    using read_all_N_zero by blast
  with True show ?thesis by (simp add: read_all_limited_def)
qed (simp add: read_all_limited_def)

text \<open>
  A request without a body, or one whose body is read to its end. With a limit it fits, or
  it reaches an upstream which takes it. Without one the upstream is reached, which it is unless a cached
  response is found: there is none for a request that no rule is for, and none at all in an empty cache.
\<close>

definition taken :: "http_env \<Rightarrow> string \<Rightarrow> uint16 \<Rightarrow> string \<Rightarrow> labels \<Rightarrow> request \<Rightarrow> proxy \<Rightarrow> bool" where
  "taken env addr port ns ls req p \<longleftrightarrow> r_Body req = None
     \<or> (if 0 < sint (px_maxBodyBytes p)
        then too_large req p \<longrightarrow> up_dial env addr \<and> (\<forall>r. up_exchange env addr r \<noteq> Write_Error)
        else up_dial env addr
          \<and> (match_for p req addr port ns ls = None \<or> px_maxBodyBytes p = 0 \<and> entries (px_cache p) = []))"

lemma passed_effects:
  assumes "match_for p req addr port ns ls = None \<or> too_large req p"
  shows "forwarded (snd (handleRequest env req addr port ns ls p)) \<longleftrightarrow> up_dial env addr"
    and "write_failed env (snd (handleRequest env req addr port ns ls p)) \<longrightarrow> (\<exists>r. up_exchange env addr r = Write_Error)"
    and "\<not> up_dial env addr \<Longrightarrow> snd (handleRequest env req addr port ns ls p) = [Dialed addr, writeBadGateway]"
proof -
  obtain p1 where h: "handleRequest env req addr port ns ls p =
      handle_unmatched env (effective_host req addr) (prepared req p) (buffered req p) addr p1"
    using handleRequest_unmatched [OF assms, where env = env] by blast
  have dial: "f_resp (fetchUpstream env r b addr q) = None" if "\<not> up_dial env addr" for r b q
    using that by (simp add: fetchUpstream_def)
  show "forwarded (snd (handleRequest env req addr port ns ls p)) \<longleftrightarrow> up_dial env addr"
    unfolding h handle_unmatched_def forwarded_def writeBadGateway_def
    by (simp add: Let_def fetch_effects split: option.split)
  show "write_failed env (snd (handleRequest env req addr port ns ls p)) \<longrightarrow> (\<exists>r. up_exchange env addr r = Write_Error)"
    unfolding h handle_unmatched_def write_failed_def writeBadGateway_def
    by (auto simp: Let_def fetch_effects split: option.splits exchange.splits if_splits)
  show "snd (handleRequest env req addr port ns ls p) = [Dialed addr, writeBadGateway]" if "\<not> up_dial env addr"
    unfolding h handle_unmatched_def by (simp add: Let_def fetch_effects dial [OF that] that)
qed

lemma empty_forwards:
  assumes "entries (px_cache p) = []" and "up_dial env addr"
  shows "forwarded (snd (handleRequest env req addr port ns ls p))"
proof (cases "match_for p req addr port ns ls = None \<or> too_large req p")
  case True
  with assms(2) passed_effects(1) show ?thesis by blast
next
  case False
  then obtain r where "match_for p req addr port ns ls = Some r" "\<not> too_large req p"
    by auto
  then obtain p1 where h: "handleRequest env req addr port ns ls p =
      handle_matched env r (effective_host req addr) (prepared req p) (buffered req p) addr port p1" "px_cache p1 = px_cache p"
    by (rule handleRequest_matched)
  obtain p2 eff where m: "handle_matched env r (effective_host req addr) (prepared req p) (buffered req p) addr port p1 = (p2, eff)"
    by fastforce
  from m have "forwarded eff"
  proof (cases rule: handle_matched_cases)
    case (hit e)
    then show ?thesis
      using lookup_cached_hit(2) [OF hit(1)] h(2) assms(1) by (simp add: cache_view_def)
  qed (simp_all add: forwarded_def fetch_effects assms(2))
  with h(1) m show ?thesis by simp
qed

lemma taken_read:
  assumes "taken env addr port ns ls req p"
  shows "body_read env wr req (snd (handleRequest env req addr port ns ls p)) p = None"
proof (cases "r_Body req")
  case (Some s)
  show ?thesis
  proof (cases "0 < sint (px_maxBodyBytes p)")
    case m: True
    note tl = too_large_limited [OF Some m]
    show ?thesis
    proof (cases "too_large req p")
      case True
      with assms Some m have "up_dial env addr" "\<forall>r. up_exchange env addr r \<noteq> Write_Error"
        by (simp_all add: taken_def)
      with passed_effects(1,2) [OF disjI2 [OF True], of env addr port ns ls] Some m show ?thesis
        by (auto simp: body_read_def Let_def)
    next
      case False
      with Some m tl show ?thesis by (simp add: body_read_def Let_def)
    qed
  next
    case False
    with assms Some have "up_dial env addr" "match_for p req addr port ns ls = None \<or> entries (px_cache p) = []"
      by (auto simp: taken_def)
    then have "forwarded (snd (handleRequest env req addr port ns ls p))"
      using passed_effects(1) empty_forwards by blast
    with Some False show ?thesis by (simp add: body_read_def)
  qed
qed (simp add: body_read_def)

lemma empty_stays:
  assumes "px_maxBodyBytes p = 0" and "entries (px_cache p) = []"
  shows "entries (px_cache (fst (handleRequest env req addr port ns ls p))) = []"
proof -
  have sane: "sane_limit p"
    using assms(1) by (simp add: sane_limit_def)
  show ?thesis
  proof (rule handle_effect_on_cache [OF surjective_pairing sane, of env req addr port ns ls])
  qed (use assms in \<open>auto simp: cache_delete_def removeLocked_def may_store_def\<close>)
qed

lemma taken_stays:
  assumes "taken env addr port ns ls req p"
  shows "taken env addr port ns ls req (fst (handleRequest env' req' addr port ns ls p))"
proof -
  let ?q = "fst (handleRequest env' req' addr port ns ls p)"
  have c: "px_maxBodyBytes ?q = px_maxBodyBytes p" "px_policy ?q = px_policy p"
    using handle_keeps_config [of p env' req' addr port ns ls] by (simp_all add: same_config_def)
  then have "too_large req ?q = too_large req p"
    by (simp add: too_large_def buffer_body_def Let_def split: option.split)
  moreover have "match_for ?q req addr port ns ls = match_for p req addr port ns ls"
    by (simp add: c)
  ultimately show ?thesis
    using assms empty_stays [of p env' req' addr port ns ls] by (auto simp: taken_def c)
qed

section \<open>Properties\<close>

text \<open>C34. Requests are read where the client put them. For a client that sends messages one after the other,
  each of which \<open>http.ReadRequest\<close> recognises whatever follows it, the loop on the bytes does
  exactly what the loop over the requests does, provided that every body is read to its end. With a
  positive \<open>maxBodyBytes\<close> one is when it fits the limit, or when the upstream can be dialled and takes
  it. Otherwise the bodies are not read ahead and the upstream has to be dialled: it must be there, and
  either no rule is for the request or the limit is 0 (where nothing is ever stored) and the cache empty.\<close>

theorem stream_in_sync:
  assumes "\<forall>(m, req) \<in> set msgs. \<forall>rest. \<exists>pos. read_request (m @ rest) = Some (req, length m, pos)"
    and "read_request [] = None" and "length es = length msgs"
    and "\<forall>((env, wr), (m, req)) \<in> set (zip es msgs). taken env addr port ns ls (prep req) p"
  shows "serve_stream read_request prep addr port ns ls es (concat (map fst msgs)) p
    = serve_requests prep addr port ns ls (zip (map fst es) (map snd msgs)) p"
  using assms(3,1,4)
proof (induction es msgs arbitrary: p rule: list_induct2)
  case (Cons e es msg msgs)
  obtain env wr m req where e: "e = (env, wr)" "msg = (m, req)"
    by (cases e; cases msg)
  obtain pos where r: "read_request (m @ concat (map fst msgs)) = Some (req, length m, pos)"
    using Cons.prems(1) e(2) by fastforce
  obtain p1 eff where h: "handleRequest env (prep req) addr port ns ls p = (p1, eff)"
    by (cases "handleRequest env (prep req) addr port ns ls p")
  have "body_read env wr (prep req) eff p = None"
    using taken_read [of env addr port ns ls "prep req" p wr] Cons.prems(2) e h by simp
  then have "next_input (length m) pos (body_read env wr (prep req) eff p) (m @ concat (map fst msgs)) = concat (map fst msgs)"
    by (simp add: next_input_def)
  moreover have "p1 = fst (handleRequest env (prep req) addr port ns ls p)"
    using h by simp
  then have "\<forall>((env, wr), (m, req)) \<in> set (zip es msgs). taken env addr port ns ls (prep req) p1"
    using Cons.prems(2) taken_stays by (auto simp: case_prod_beta)
  with Cons.IH [of p1] Cons.prems(1)
  have "serve_stream read_request prep addr port ns ls es (concat (map fst msgs)) p1
      = serve_requests prep addr port ns ls (zip (map fst es) (map snd msgs)) p1"
    by simp
  ultimately show ?case
    by (simp add: e r h Let_def)
qed simp

text \<open>Two kinds of messages: a byte 1 and four bytes of body, or any other byte.\<close>

definition sample_read :: read_request where
  "sample_read inp =
     (case inp of
        [] \<Rightarrow> None
      | b # rest \<Rightarrow>
          if b = 1 then Some ((sample_request ''/'' [])\<lparr>r_Body := Some (bytes_reader (take 4 rest))\<rparr>, 5, Suc)
          else Some (sample_request ''/other'' [], 1, Suc))"

abbreviation sample_post :: request where
  "sample_post \<equiv> (sample_request ''/'' [])\<lparr>r_Body := Some (bytes_reader [9, 9, 9, 2])\<rparr>"

theorem stream_in_sync_witness:
  "serve_stream sample_read (\<lambda>r. r) ''a'' 80 [] Map.empty [(sample_env (sample_response [] [1]), 0)] [1, 9, 9, 9, 2] (sample_proxy [])
     = serve_requests (\<lambda>r. r) ''a'' 80 [] Map.empty [(sample_env (sample_response [] [1]), sample_post)] (sample_proxy [])
   \<and> serve_stream sample_read (\<lambda>r. r) ''a'' 80 [] Map.empty [(sample_env (sample_response [] [1]), 0)] [1, 9, 9, 9, 2]
       ((sample_proxy [open_rule])\<lparr>px_maxBodyBytes := 0\<rparr>)
     = serve_requests (\<lambda>r. r) ''a'' 80 [] Map.empty [(sample_env (sample_response [] [1]), sample_post)]
         ((sample_proxy [open_rule])\<lparr>px_maxBodyBytes := 0\<rparr>)"
proof -
  have "taken (sample_env (sample_response [] [1])) ''a'' 80 [] Map.empty sample_post p"
    if "p = sample_proxy [] \<or> p = (sample_proxy [open_rule])\<lparr>px_maxBodyBytes := 0\<rparr>" for p
    using that by (auto simp: taken_def sample_env_def sample_proxy_def new_proxy_def new_store_def)
  then show ?thesis
    using stream_in_sync [of "[([1, 9, 9, 9, 2], sample_post)]" sample_read "[(sample_env (sample_response [] [1]), 0)]" "''a''" 80 "[]" Map.empty "\<lambda>r. r"]
    by (simp add: sample_read_def)
qed

text \<open>C6. The rest of a body becomes a request. When a body is larger than the limit and the upstream cannot be
  dialled, the client is told so with a 502, but the connection is kept and the bytes of
  the body behind the limit are read as the next request and handled with the pod's rules.\<close>

theorem unread_body_becomes_request:
  assumes "read_request inp = Some (req0, len, pos)" and "keepAlive (prep req0)" and "too_large (prep req0) p"
    and "\<not> up_dial env addr"
  shows "\<exists>p1. same_config p p1
    \<and> snd (serve_stream read_request prep addr port ns ls ((env, wr) # es) inp p) = [Dialed addr, writeBadGateway]
        # snd (serve_stream read_request prep addr port ns ls es (drop (pos (nat (sint (px_maxBodyBytes p + 1)))) inp) p1)"
proof -
  obtain p1 eff where h: "handleRequest env (prep req0) addr port ns ls p = (p1, eff)"
    by (cases "handleRequest env (prep req0) addr port ns ls p")
  have eff: "eff = [Dialed addr, writeBadGateway]" "\<not> forwarded eff"
    using passed_effects(1,3) [OF disjI2 [OF assms(3)], of env addr port ns ls] assms(4) h by simp_all
  obtain s where s: "r_Body (prep req0) = Some s" "0 < sint (px_maxBodyBytes p)"
    using assms(3) by (auto simp: too_large_def buffer_body_def split: option.splits if_splits)
  have z: "lr_N (read_all_limited (px_maxBodyBytes p + 1) s) = 0"
    using too_large_limited [OF s] assms(3) by simp
  note read_all_length [OF this]
  then have "body_read env wr (prep req0) eff p = Some (nat (sint (px_maxBodyBytes p + 1)))"
    using s z eff(2) by (simp add: body_read_def Let_def)
  then have "snd (serve_stream read_request prep addr port ns ls ((env, wr) # es) inp p) = [Dialed addr, writeBadGateway]
      # snd (serve_stream read_request prep addr port ns ls es (drop (pos (nat (sint (px_maxBodyBytes p + 1)))) inp) p1)"
    using assms(1,2) h eff(1) by (simp add: Let_def next_input_def split: prod.split)
  moreover have "same_config p p1"
    using handle_keeps_config [of p env "prep req0" addr port ns ls] h by simp
  ultimately show ?thesis by blast
qed

theorem unread_body_becomes_request_witness:
  "\<exists>eff. snd (serve_stream sample_read (\<lambda>r. r) ''a'' 80 [] Map.empty
      [((sample_env (sample_response [] [1]))\<lparr>up_dial := \<lambda>_. False\<rparr>, 0), (sample_env (sample_response [] [1]), 0)] [1, 9, 9, 9, 2]
      ((sample_proxy [])\<lparr>px_maxBodyBytes := 2\<rparr>)) = [[Dialed ''a'', writeBadGateway], eff]"
proof -
  let ?p = "(sample_proxy [])\<lparr>px_maxBodyBytes := 2\<rparr>"
  have large: "too_large sample_post ?p"
    by (simp add: too_large_def buffer_body_def sample_request_def read_all_limited_def bytes_reader_def)
  have "fold_case [] \<noteq> fold_case ''close''"
    by code_simp
  then have keep: "keepAlive sample_post" "keepAlive (sample_request ''/other'' [])"
    by (simp_all add: keepAlive_def proto_at_least_def sample_request_def header_get_def equal_fold_def)
  have read: "sample_read [1, 9, 9, 9, 2] = Some (sample_post, 5, Suc)" "sample_read [2] = Some (sample_request ''/other'' [], 1, Suc)"
    by (simp_all add: sample_read_def)
  from unread_body_becomes_request [where read_request = sample_read and prep = "\<lambda>r. r" and p = ?p, OF read(1) keep(1) large, where addr = "''a''"
      and env = "(sample_env (sample_response [] [1]))\<lparr>up_dial := \<lambda>_. False\<rparr>" and wr = 0 and port = 80 and ns = "[]" and ls = Map.empty
      and es = "[(sample_env (sample_response [] [1]), 0)]"]
  show ?thesis
    by (auto simp: read keep Let_def split: prod.split)
qed

end
