(* ===== verification/Settings.thy ===== *)
theory Settings
imports Go_Text Cache_Store
begin

text \<open>
  What the program is set up with: the exit codes (\<open>internal/constants\<close>), the settings
  from the environment (\<open>internal/config\<close>), the log level (\<open>internal/logging\<close>), and the
  names, labels and gauges that the metrics are exported under (\<open>internal/metrics\<close>; the
  observations themselves are made by the components).
\<close>

section \<open>Exit codes\<close>

definition ExitSuccess :: int where "ExitSuccess = 0"
definition ExitEbpfLoadError :: int where "ExitEbpfLoadError = 1"
definition ExitInitProxyError :: int where "ExitInitProxyError = 2"
definition ExitInitConfigError :: int where "ExitInitConfigError = 3"
definition ExitInitK8SWatcherError :: int where "ExitInitK8SWatcherError = 4"

section \<open>Settings\<close>

record config =
  cfg_LogLevel :: string
  cfg_ProxyAddr :: string
  cfg_MetricsAddr :: string
  cfg_MaxCacheBytes :: int64
  cfg_MaxBodyBytes :: int64
  cfg_TlsCaDir :: string
  cfg_ProcRoot :: string

text \<open>
  \<open>env.Parse\<close> belongs to another module: \<open>setting key default\<close> is the text it finds for a
  variable, \<open>int_of\<close> its reading of an \<open>int64\<close>. The variables and defaults are those of the
  tags of \<open>Config\<close>.
\<close>

definition config_New :: "(string \<Rightarrow> string \<Rightarrow> string) \<Rightarrow> (string \<Rightarrow> int64 option) \<Rightarrow> int + config" where
  "config_New setting int_of =
     (case int_of (setting ''MAX_CACHE_BYTES'' ''268435456'') of
        None \<Rightarrow> Inl ExitInitConfigError
      | Some cacheBytes \<Rightarrow>
          (case int_of (setting ''MAX_BODY_BYTES'' ''1048576'') of
             None \<Rightarrow> Inl ExitInitConfigError
           | Some bodyBytes \<Rightarrow>
               Inr \<lparr>cfg_LogLevel = setting ''LOG_LEVEL'' ''info'', cfg_ProxyAddr = setting ''PROXY_ADDR'' ''0.0.0.0:8080'',
                 cfg_MetricsAddr = setting ''METRICS_ADDR'' ''0.0.0.0:9090'', cfg_MaxCacheBytes = cacheBytes,
                 cfg_MaxBodyBytes = bodyBytes, cfg_TlsCaDir = setting ''TLS_CA_DIR'' [], cfg_ProcRoot = setting ''PROC_ROOT'' ''/proc''\<rparr>))"

section \<open>Log levels\<close>

datatype log_level = LevelDebug | LevelInfo | LevelWarn | LevelError

fun level_number :: "log_level \<Rightarrow> int" where
  "level_number LevelDebug = - 4"
| "level_number LevelInfo = 0"
| "level_number LevelWarn = 4"
| "level_number LevelError = 8"

lemma level_number_inject [simp]: "level_number a = level_number b \<longleftrightarrow> a = b"
  by (cases a; cases b) simp_all

instantiation log_level :: linorder
begin

definition less_eq_log_level :: "log_level \<Rightarrow> log_level \<Rightarrow> bool" where
  "less_eq_log_level a b \<longleftrightarrow> level_number a \<le> level_number b"

definition less_log_level :: "log_level \<Rightarrow> log_level \<Rightarrow> bool" where
  "less_log_level a b \<longleftrightarrow> level_number a < level_number b"

instance
  by standard (auto simp: less_eq_log_level_def less_log_level_def)

end

definition parseLogLevel :: "string \<Rightarrow> log_level" where
  "parseLogLevel s =
     (let l = to_lower s
      in if l = ''debug'' then LevelDebug
         else if l = ''warn'' \<or> l = ''warning'' then LevelWarn
         else if l = ''error'' then LevelError
         else LevelInfo)"

text \<open>Whether the handler made by \<open>New\<close> writes a record: its level is at least the minimum.\<close>

definition logged :: "string \<Rightarrow> log_level \<Rightarrow> bool" where
  "logged setting level \<longleftrightarrow> parseLogLevel setting \<le> level"

section \<open>Gauges\<close>

text \<open>The two gauges read the counters of the cache when they are scraped.\<close>

definition cache_gauges :: "store \<Rightarrow> (string \<times> int) list" where
  "cache_gauges s =
     [(''latch_cache_entries_total'', sint (cache_len s)), (''latch_cache_size_bytes'', sint (cache_size_bytes s))]"

section \<open>Properties\<close>

text \<open>The log level is read without regard to case: for the five words, in any mixture of upper and lower
  case, it is the level they name, and for any other ASCII text it is \<open>info\<close>; whatever
  the setting, errors are written, and debug records only when it says \<open>debug\<close>.\<close>

theorem log_level_exact:
  assumes "ascii s"
  shows "parseLogLevel s =
      (if map lower_char s = ''debug'' then LevelDebug
       else if map lower_char s \<in> {''warn'', ''warning''} then LevelWarn
       else if map lower_char s = ''error'' then LevelError else LevelInfo)
    \<and> logged s LevelError \<and> (logged s LevelDebug \<longleftrightarrow> map lower_char s = ''debug'')"
  by (simp add: parseLogLevel_def logged_def to_lower_ascii [OF assms] Let_def less_eq_log_level_def)

theorem log_level_exact_witness: "parseLogLevel ''WaRning'' = LevelWarn \<and> \<not> logged ''WaRning'' LevelInfo"
proof -
  have "ascii ''WaRning''" and l: "map lower_char ''WaRning'' = ''warning''"
    by code_simp+
  with log_level_exact [of "''WaRning''"] show ?thesis
    by (simp add: logged_def less_eq_log_level_def)
qed

end
