(* ===== verification/Proxy_Metrics.thy ===== *)
theory Proxy_Metrics
imports Proxy_Correct Settings
begin

text \<open>
  The exported metrics of \<open>internal/metrics/metrics.go\<close>: the name and the labels of each
  observation, the buckets of the size histograms, and what the request counter says
  about the requests handled.
\<close>

section \<open>Names, labels, buckets\<close>

fun metric_name :: "metric \<Rightarrow> string" where
  "metric_name (Requests h m c p) = ''latch_requests_total''"
| "metric_name (ResponseSize h m p n) = ''latch_response_size_bytes''"
| "metric_name (RequestSize h m n) = ''latch_request_size_bytes''"
| "metric_name (UpstreamLatency h p) = ''latch_upstream_latency_seconds''"
| "metric_name (HitLatency h p) = ''latch_hit_latency_seconds''"
| "metric_name BPFRedirect = ''latch_bpf_redirects_total''"
| "metric_name (SkipBodyTooLarge h) = ''latch_cache_skip_body_too_large_total''"
| "metric_name (SkipRequestBodyTooLarge h) = ''latch_cache_skip_request_body_too_large_total''"

fun metric_labels :: "metric \<Rightarrow> (string \<times> string) list" where
  "metric_labels (Requests h m c p) = [(''host'', h), (''method'', m), (''cache'', c), (''path'', p)]"
| "metric_labels (ResponseSize h m p n) = [(''host'', h), (''method'', m), (''path'', p)]"
| "metric_labels (RequestSize h m n) = [(''host'', h), (''method'', m)]"
| "metric_labels (UpstreamLatency h p) = [(''host'', h), (''path'', p)]"
| "metric_labels (HitLatency h p) = [(''host'', h), (''path'', p)]"
| "metric_labels BPFRedirect = []"
| "metric_labels (SkipBodyTooLarge h) = [(''host'', h)]"
| "metric_labels (SkipRequestBodyTooLarge h) = [(''host'', h)]"

text \<open>\<open>ExponentialBuckets(256, 4, 10)\<close>\<close>

definition size_buckets :: "nat list" where
  "size_buckets = map (\<lambda>i. 256 * 4 ^ i) [0 ..< 10]"

text \<open>A counter with given label values: how many observations it has counted.\<close>

definition counter_value :: "string \<Rightarrow> (string \<times> string) list \<Rightarrow> metric list \<Rightarrow> nat" where
  "counter_value name ls ms = length (filter (\<lambda>m. metric_name m = name \<and> metric_labels m = ls) ms)"

section \<open>The request counter\<close>

fun is_request :: "metric \<Rightarrow> bool" where
  "is_request (Requests h m c p) = True"
| "is_request _ = False"

definition counted_requests :: "proxy \<Rightarrow> metric list" where
  "counted_requests p = filter is_request (px_metrics p)"

lemma counted_observe [simp]:
  "counted_requests (observe m p) = counted_requests p @ (if is_request m then [m] else [])"
  by (simp add: counted_requests_def)

lemma counted_update [simp]:
  "counted_requests (p\<lparr>px_cache := c\<rparr>) = counted_requests p"
  "counted_requests (storeVaryIndex b hs p) = counted_requests p"
  by (simp_all add: counted_requests_def storeVaryIndex_def)

lemma counted_fetch [simp]: "counted_requests (f_proxy (fetchUpstream env req body addr p)) = counted_requests p"
  by (simp add: fetchUpstream_def Let_def split: exchange.splits)

lemma counted_buffer:
  assumes "buffer_body host req p = (b, l, req1, p1)"
  shows "counted_requests p1 = counted_requests p"
  using assms by (cases rule: buffer_body_cases [of host req p]) auto

lemma counted_size [simp]: "counted_requests (observe_request_size host req b p) = counted_requests p"
  by (simp add: observe_request_size_def split: option.split)

text \<open>What the label \<open>cache\<close> of the counter says about the effects of the request.\<close>

definition label_fits :: "string \<Rightarrow> effect list \<Rightarrow> bool" where
  "label_fits lbl eff \<longleftrightarrow>
     (if \<forall>addr. Dialed addr \<notin> set eff then lbl = ''hit''
      else if writeBadGateway \<in> set eff then lbl = ''error''
      else lbl = ''miss'' \<or> lbl = ''bypass'')"

lemma label_fits_intros:
  "label_fits ''hit'' [replyWCachedEntry e]"
  "label_fits ''error'' (f_effects (fetchUpstream env req body addr p) @ [writeBadGateway])"
  "label_fits ''bypass'' (f_effects (fetchUpstream env req body addr p) @ [Wrote resp])"
  "label_fits ''miss'' (f_effects (fetchUpstream env req body addr p) @ [Wrote resp])"
  by (auto simp: label_fits_def replyWCachedEntry_def fetch_effects writeBadGateway_def Let_def)

lemma counted_unmatched:
  assumes "handle_unmatched env host req body addr p = (p', eff)"
  shows "\<exists>lbl. counted_requests p' = counted_requests p @ [Requests host (r_Method req) lbl (url_path req)] \<and> label_fits lbl eff"
  using assms label_fits_intros(2,3) by (auto simp: handle_unmatched_def Let_def split: option.splits)

lemma counted_store:
  assumes "store_response env r host req body port ns b key e resp p = (p', eff)"
  shows "\<exists>lbl resp'. counted_requests p' = counted_requests p @ [Requests host (r_Method req) lbl (url_path req)]
    \<and> eff = [Wrote resp'] \<and> (lbl = ''bypass'' \<or> lbl = ''miss'')"
  using assms by (auto simp: store_response_def Let_def split: if_splits)

lemma counted_matched:
  assumes "handle_matched env r host req body addr port p = (p', eff)"
  shows "\<exists>lbl. counted_requests p' = counted_requests p @ [Requests host (r_Method req) lbl (url_path req)] \<and> label_fits lbl eff"
proof -
  obtain h c where l: "lookup_cached env req (lookup_key env r req body port p) p = (h, c)"
    by (cases "lookup_cached env req (lookup_key env r req body port p) p")
  let ?f = "fetchUpstream env req body addr (p\<lparr>px_cache := c\<rparr>)"
  consider (hit) e where "h = Some e" | (failed) "h = None" "f_resp ?f = None"
    | (passed) resp where "h = None" "f_resp ?f = Some resp" "f_entry ?f = None"
    | (entry) resp e where "h = None" "f_resp ?f = Some resp" "f_entry ?f = Some e"
    by (metis option.exhaust)
  then show ?thesis
  proof cases
    case entry
    obtain p1 eff1 where s: "store_response env r host (f_req ?f) body port (req_directive req ccNoStore) (base_key req port)
        (lookup_key env r req body port p) e resp (f_proxy ?f) = (p1, eff1)"
      by (cases "store_response env r host (f_req ?f) body port (req_directive req ccNoStore) (base_key req port)
        (lookup_key env r req body port p) e resp (f_proxy ?f)")
    have "p' = p1" "eff = f_effects ?f @ eff1"
      using assms l entry s by (simp_all add: handle_matched_def Let_def)
    moreover have "r_Method (f_req ?f) = r_Method req" "url_path (f_req ?f) = url_path req"
      using fetch_req [of env req body addr "p\<lparr>px_cache := c\<rparr>"] entry(2) by simp_all
    ultimately show ?thesis
      using counted_store [OF s] label_fits_intros(3,4) by fastforce
  qed (use assms l label_fits_intros in \<open>force simp: handle_matched_def Let_def\<close>)+
qed

section \<open>Properties\<close>

text \<open>The request counter is exact: every request handled adds one to it, under its host, method and path, and
  the label \<open>cache\<close> is \<open>hit\<close> exactly when the upstream was not contacted, \<open>error\<close> exactly
  when it was and the answer is the 502, and \<open>miss\<close> or \<open>bypass\<close> otherwise.\<close>

theorem requests_counted_once:
  assumes "handleRequest env req addr port ns ls p = (p', eff)"
  shows "\<exists>lbl. counted_requests p' = counted_requests p
      @ [Requests (effective_host req addr) (r_Method req) lbl (url_path req)] \<and> label_fits lbl eff"
proof -
  let ?h = "effective_host req addr"
  obtain b l req1 p1 where b: "buffer_body ?h req p = (b, l, req1, p1)"
    by (cases "buffer_body ?h req p")
  let ?p2 = "observe_request_size ?h req1 b p1"
  have same: "r_Method req1 = r_Method req" "url_path req1 = url_path req"
    using buffer_body_keeps(4,6) [OF b] by (simp_all add: url_path_def)
  have "(\<exists>r. handle_matched env r ?h req1 b addr port ?p2 = (p', eff)) \<or> handle_unmatched env ?h req1 b addr ?p2 = (p', eff)"
    using assms b by (auto simp: handleRequest_def Let_def split: option.splits if_splits)
  then show ?thesis
    using counted_matched [of env _ ?h req1 b addr port ?p2 p' eff] counted_unmatched [of env ?h req1 b addr ?p2 p' eff]
      counted_buffer [OF b] same by auto
qed

theorem requests_counted_once_witness:
  "\<exists>lbl. counted_requests (fst (handleRequest (sample_env (sample_response [] [1])) (sample_request ''/'' []) ''a'' 80 [] Map.empty
       (sample_proxy []))) = counted_requests (sample_proxy [])
         @ [Requests (effective_host (sample_request ''/'' []) ''a'') (r_Method (sample_request ''/'' [])) lbl (url_path (sample_request ''/'' []))]"
  using requests_counted_once [OF prod.collapse [symmetric]] by blast

text \<open>The gauges tell the truth: in every state the cache can reach they read the number of entries it holds
  and the sum of their sizes, as long as these fit in 63 bits.\<close>

theorem gauges_exact:
  assumes "cache_reach P maxb cb c" and "length (entries (cstore c)) < 2 ^ 63" and "stored_bytes (cstore c) < 2 ^ 63"
  shows "cache_gauges (cstore c) =
    [(''latch_cache_entries_total'', int (length (entries (cstore c)))), (''latch_cache_size_bytes'', int (stored_bytes (cstore c)))]"
  using cache_reach_ok [OF assms(1)] assms(2,3)
  by (simp add: cache_gauges_def store_ok_def cache_len_def cache_size_bytes_def sint_word_of_nat64)

theorem gauges_exact_witness:
  "cache_gauges (cstore \<lparr>cstore = new_store 100 True, pending = []\<rparr>)
     = [(''latch_cache_entries_total'', 0), (''latch_cache_size_bytes'', 0)]"
  using gauges_exact [OF cache_reach.start, of 100 True] by (simp add: new_store_def bytes_in_def)

end
