(* ===== verification/Net_Addr.thy ===== *)
theory Net_Addr
imports Go_Text
begin

text \<open>
  Addresses as the package \<open>net\<close> handles them, and the byte orders in which the BPF
  programs and the Go code exchange them: \<open>net.ParseIP\<close>, \<open>IP.To4\<close> and \<open>IP.String\<close>,
  \<open>strconv.ParseUint\<close>, and 16- and 32-bit integers in network order, in the order of
  the host, and converted between the two.
\<close>

section \<open>Byte orders\<close>

unbundle bit_operations_syntax

datatype endian = Little | Big

definition get16 :: "bytes \<Rightarrow> uint16" where
  "get16 b = push_bit 8 (ucast (b ! 0)) OR ucast (b ! 1)"

definition put16 :: "uint16 \<Rightarrow> bytes" where
  "put16 w = [ucast (drop_bit 8 w), ucast w]"

text \<open>\<open>binary.BigEndian.Uint32\<close> and \<open>PutUint32\<close>\<close>

definition get32 :: "bytes \<Rightarrow> uint32" where
  "get32 b = push_bit 24 (ucast (b ! 0)) OR push_bit 16 (ucast (b ! 1)) OR push_bit 8 (ucast (b ! 2)) OR ucast (b ! 3)"

definition put32 :: "uint32 \<Rightarrow> bytes" where
  "put32 w = [ucast (drop_bit 24 w), ucast (drop_bit 16 w), ucast (drop_bit 8 w), ucast w]"

text \<open>An integer of a host in memory, and \<open>bpf_ntohs\<close>, \<open>bpf_ntohl\<close> with their inverses.\<close>

definition native :: "endian \<Rightarrow> bytes \<Rightarrow> bytes" where
  "native e b = (case e of Big \<Rightarrow> b | Little \<Rightarrow> rev b)"

definition load16 :: "endian \<Rightarrow> bytes \<Rightarrow> uint16" where
  "load16 e b = get16 (native e (take 2 b))"

definition load32 :: "endian \<Rightarrow> bytes \<Rightarrow> uint32" where
  "load32 e b = get32 (native e (take 4 b))"

definition ntohs :: "endian \<Rightarrow> uint16 \<Rightarrow> uint16" where
  "ntohs e w = get16 (native e (put16 w))"

definition ntohl :: "endian \<Rightarrow> uint32 \<Rightarrow> uint32" where
  "ntohl e w = get32 (native e (put32 w))"

definition mem16 :: "endian \<Rightarrow> uint16 \<Rightarrow> bytes" where
  "mem16 e w = native e (put16 w)"

definition mem32 :: "endian \<Rightarrow> uint32 \<Rightarrow> bytes" where
  "mem32 e w = native e (put32 w)"

section \<open>Addresses\<close>

text \<open>\<open>IP.To4\<close>: four bytes, or sixteen that hold an IPv4-mapped address.\<close>

definition to4 :: "bytes \<Rightarrow> bytes option" where
  "to4 ip =
     (if length ip = 4 then Some ip
      else if length ip = 16 \<and> take 12 ip = replicate 10 0 @ [0xFF, 0xFF] then Some (drop 12 ip)
      else None)"

definition ipv4_mapped :: "bytes \<Rightarrow> bytes" where
  "ipv4_mapped ip = replicate 10 0 @ [0xFF, 0xFF] @ ip"

text \<open>\<open>IP.String\<close> of an address of four bytes\<close>

fun ipv4_string :: "bytes \<Rightarrow> string" where
  "ipv4_string [] = []"
| "ipv4_string [b] = itoa (unat b)"
| "ipv4_string (b # c # r) = itoa (unat b) @ ''.'' @ ipv4_string (c # r)"

definition digits_value :: "string \<Rightarrow> nat option" where
  "digits_value s = (if s = [] \<or> \<not> list_all digit_char s then None else Some (nat (decimal_value s)))"

text \<open>\<open>strconv.ParseUint(s, 10, 16)\<close>\<close>

definition parse_uint16 :: "string \<Rightarrow> uint16 option" where
  "parse_uint16 s =
     (case digits_value s of None \<Rightarrow> None | Some n \<Rightarrow> if n < 2 ^ 16 then Some (word_of_nat n) else None)"

text \<open>One field of a dotted address: no leading zero, at most 255.\<close>

definition parse_octet :: "string \<Rightarrow> byte option" where
  "parse_octet s =
     (case digits_value s of
        None \<Rightarrow> None
      | Some n \<Rightarrow> if 1 < length s \<and> hd s = CHR ''0'' then None else if 255 < n then None else Some (word_of_nat n))"

fun parse_octets :: "string list \<Rightarrow> bytes option" where
  "parse_octets [] = Some []"
| "parse_octets (s # ss) =
     (case parse_octet s of
        None \<Rightarrow> None
      | Some b \<Rightarrow> (case parse_octets ss of None \<Rightarrow> None | Some bs \<Rightarrow> Some (b # bs)))"

definition parse_ipv4 :: "string \<Rightarrow> bytes option" where
  "parse_ipv4 s = (let parts = go_split (CHR ''.'') s in if length parts = 4 then parse_octets parts else None)"

definition hex_value :: "char \<Rightarrow> nat option" where
  "hex_value c =
     (let n = of_char c :: nat
      in if 48 \<le> n \<and> n \<le> 57 then Some (n - 48)
         else if 97 \<le> n \<and> n \<le> 102 then Some (n - 87)
         else if 65 \<le> n \<and> n \<le> 70 then Some (n - 55)
         else None)"

definition hex_number :: "string \<Rightarrow> nat" where
  "hex_number s = foldl (\<lambda>n c. 16 * n + the (hex_value c)) 0 s"

text \<open>
  The groups of an IPv6 address: the bytes read, where the ellipsis stands, and the
  text left when the address is full.
\<close>

function ipv6_groups :: "nat option \<Rightarrow> bytes \<Rightarrow> string \<Rightarrow> (bytes \<times> nat option \<times> string) option" where
  "ipv6_groups ell ip s =
     (if 16 \<le> length ip then Some (ip, ell, s)
      else
        let ds = takeWhile (\<lambda>c. hex_value c \<noteq> None) s;
            r = dropWhile (\<lambda>c. hex_value c \<noteq> None) s
        in if ds = [] \<or> 4 < length ds then None
           else if r \<noteq> [] \<and> hd r = CHR ''.'' then
             (if ell = None \<and> length ip \<noteq> 12 \<or> 16 < length ip + 4 then None
              else case parse_ipv4 s of None \<Rightarrow> None | Some b \<Rightarrow> Some (ip @ b, ell, []))
           else
             let ip' = ip @ put16 (word_of_nat (hex_number ds))
             in if r = [] then Some (ip', ell, [])
                else if hd r \<noteq> CHR '':'' \<or> length r = 1 then None
                else if hd (tl r) = CHR '':'' then
                  (if ell \<noteq> None then None
                   else if length r = 2 then Some (ip', Some (length ip'), [])
                   else ipv6_groups (Some (length ip')) ip' (drop 2 r))
                else ipv6_groups ell ip' (tl r))"
  by pat_completeness auto
termination
proof (relation "measure (\<lambda>(ell, ip, s). length s)", goal_cases)
  case 1
  show ?case by simp
next
  case (2 ell ip s ds r ip')
  have "length r \<le> length s"
    using 2(3) by (simp add: length_dropWhile_le)
  moreover have "r \<noteq> []"
    using 2 by blast
  ultimately show ?case by (cases r) auto
next
  case (3 ell ip s ds r ip')
  have "length r \<le> length s"
    using 3(3) by (simp add: length_dropWhile_le)
  moreover have "r \<noteq> []"
    using 3 by blast
  ultimately show ?case by (cases r) auto
qed

declare ipv6_groups.simps [simp del]

definition parse_ipv6 :: "string \<Rightarrow> bytes option" where
  "parse_ipv6 s =
     (if CHR ''%'' \<in> set s then None
      else
        let lead = (take 2 s = ''::'')
        in if lead \<and> length s = 2 then Some (replicate 16 0)
           else case ipv6_groups (if lead then Some 0 else None) [] (if lead then drop 2 s else s) of
                  None \<Rightarrow> None
                | Some (ip, ell, rest) \<Rightarrow>
                    if rest \<noteq> [] then None
                    else if length ip < 16 then
                      (case ell of
                         None \<Rightarrow> None
                       | Some e \<Rightarrow> Some (take e ip @ replicate (16 - length ip) 0 @ drop e ip))
                    else if ell \<noteq> None then None
                    else Some ip)"

text \<open>\<open>net.ParseIP\<close>: the first of the characters that decide says which form is meant.\<close>

definition ParseIP :: "string \<Rightarrow> bytes option" where
  "ParseIP s =
     (case filter (\<lambda>c. c \<in> set ''.:%'') s of
        [] \<Rightarrow> None
      | c # cs \<Rightarrow>
          if c = CHR ''.'' then map_option ipv4_mapped (parse_ipv4 s)
          else if c = CHR '':'' then parse_ipv6 s
          else None)"

section \<open>Byte orders agree\<close>

lemma length_put [simp]: "length (put16 w) = 2" "length (put32 v) = 4"
  by (simp_all add: put16_def put32_def)

lemma length_native [simp]: "length (native e b) = length b"
  by (simp add: native_def split: endian.split)

lemma native_native [simp]: "native e (native e b) = b"
  by (simp add: native_def split: endian.split)

lemma length_mem [simp]: "length (mem16 e w) = 2" "length (mem32 e v) = 4"
  by (simp_all add: mem16_def mem32_def)

lemma two_bytes: "length b = 2 \<Longrightarrow> b = [b ! 0, b ! 1]"
  by (auto simp: numeral_2_eq_2 length_Suc_conv)

lemma four_bytes: "length b = 4 \<Longrightarrow> b = [b ! 0, b ! 1, b ! 2, b ! 3]"
  by (auto simp: numeral_eq_Suc length_Suc_conv)

lemma get16_put16 [simp]: "get16 (put16 w) = w"
  by (rule bit_word_eqI) (auto simp: get16_def put16_def bit_simps)

lemma get32_put32 [simp]: "get32 (put32 w) = w"
  proof (rule bit_word_eqI)
  fix n :: nat
  assume "n < LENGTH(32)"
  then consider "n < 8" | "8 \<le> n" "n < 16" | "16 \<le> n" "n < 24" | "24 \<le> n" "n < 32"
    by fastforce
  then show "bit (get32 (put32 w)) n = bit w n"
    by cases (auto simp: get32_def put32_def bit_simps)
qed

lemma byte_bit: "bit (b :: byte) (k + n) \<Longrightarrow> k + n < 8"
  using bit_imp_le_length [of b "k + n"] by simp

lemma byte_le: "unat (b :: byte) \<le> 255"
proof -
  have "unat b < 2 ^ LENGTH(8)"
    by (rule unsigned_less)
  then show ?thesis by simp
qed

lemma put16_get16 [simp]: "length b = 2 \<Longrightarrow> put16 (get16 b) = b"
proof -
  assume b: "length b = 2"
  have "put16 (get16 b) = [b ! 0, b ! 1]"
    by (auto simp: get16_def put16_def bit_simps intro!: bit_word_eqI dest!: byte_bit)
  with two_bytes [OF b] show ?thesis by simp
qed

lemma put32_get32 [simp]: "length b = 4 \<Longrightarrow> put32 (get32 b) = b"
proof -
  assume b: "length b = 4"
  have "put32 (get32 b) = [b ! 0, b ! 1, b ! 2, b ! 3]"
    by (auto simp: get32_def put32_def bit_simps intro!: bit_word_eqI dest!: byte_bit)
  with four_bytes [OF b] show ?thesis by simp
qed

text \<open>Reading in the host's order and converting is reading in network order, on every host.\<close>

lemma ntohs_load16 [simp]: "2 \<le> length b \<Longrightarrow> ntohs e (load16 e b) = get16 (take 2 b)"
  by (simp add: ntohs_def load16_def)

lemma ntohl_load32 [simp]: "4 \<le> length b \<Longrightarrow> ntohl e (load32 e b) = get32 (take 4 b)"
  by (simp add: ntohl_def load32_def)

lemma mem16_ntohs [simp]: "mem16 e (ntohs e w) = put16 w"
  by (simp add: mem16_def ntohs_def)

lemma mem32_ntohl [simp]: "mem32 e (ntohl e w) = put32 w"
  by (simp add: mem32_def ntohl_def)

lemma ntohs_inject: "ntohs e v = ntohs e w \<longleftrightarrow> v = w"
  by (metis mem16_ntohs get16_put16)

lemma load16_eq_ntohs: "2 \<le> length b \<Longrightarrow> load16 e b = ntohs e w \<longleftrightarrow> get16 (take 2 b) = w"
  by (metis mem16_ntohs get16_put16 ntohs_load16 ntohs_inject ntohs_def native_native put16_get16 load16_def length_native length_take min_absorb2)

section \<open>Dotted addresses\<close>

lemma digits_value_itoa [simp]: "digits_value (itoa n) = Some n"
  by (simp add: digits_value_def itoa_digits)

lemma parse_uint16_itoa: "parse_uint16 (itoa n) = (if n < 2 ^ 16 then Some (word_of_nat n) else None)"
  by (simp add: parse_uint16_def)

lemma itoa_leading: "0 < n \<Longrightarrow> hd (itoa n) \<noteq> CHR ''0''"
proof (induction n rule: itoa.induct)
  case (1 n)
  show ?case
  proof (cases "n < 10")
    case True
    with 1 show ?thesis
      by (subst itoa.simps) (auto simp: char_eq_iff_nat take_bit_nat_eq_self)
  next
    case False
    with 1 show ?thesis
      by (subst itoa.simps) simp
  qed
qed

lemma parse_octet_itoa [simp]: "parse_octet (itoa (unat b)) = Some b"
proof (cases "b = 0")
  case True
  then show ?thesis
    using digits_value_itoa [of 0] by (simp add: parse_octet_def itoa.simps)
next
  case False
  with itoa_leading [of "unat b"] byte_le [of b] show ?thesis
    by (auto simp: parse_octet_def unat_gt_0)
qed

text \<open>The string of an IPv4 address parses back to its IPv4-mapped form, and \<open>To4\<close> gives the four bytes.\<close>

lemma dot_notin_itoa [simp]: "CHR ''.'' \<notin> set (itoa n)" "CHR '':'' \<notin> set (itoa n)" "CHR ''%'' \<notin> set (itoa n)"
  using itoa_digits [of n] by (auto simp: list_all_iff digit_char_def)

lemma parse_octets_itoa [simp]: "parse_octets (map (\<lambda>b. itoa (unat b)) bs) = Some bs"
  by (induction bs) simp_all

lemma split_ipv4_string: "bs \<noteq> [] \<Longrightarrow> go_split (CHR ''.'') (ipv4_string bs) = map (\<lambda>b. itoa (unat b)) bs"
proof (induction bs rule: ipv4_string.induct)
  case (3 b c r)
  then show ?case
    using go_split_append [of "CHR ''.''" "itoa (unat b)" "ipv4_string (c # r)"] by simp
qed (simp_all add: go_split_absent)

lemma parse_ipv4_string: "length ip = 4 \<Longrightarrow> parse_ipv4 (ipv4_string ip) = Some ip"
  using split_ipv4_string [of ip] by (cases ip) (simp_all add: parse_ipv4_def)

lemma filter_itoa: "filter (\<lambda>c. c \<in> set ''.:%'') (itoa n) = []"
  by (auto simp: filter_empty_conv)

lemma filter_ipv4_string:
  "filter (\<lambda>c. c \<in> set ''.:%'') (ipv4_string bs) = replicate (length bs - 1) (CHR ''.'')"
  by (induction bs rule: ipv4_string.induct) (use filter_itoa in \<open>simp_all\<close>)

lemma ParseIP_ipv4: "length ip = 4 \<Longrightarrow> ParseIP (ipv4_string ip) = Some (ipv4_mapped ip)"
  using filter_ipv4_string [of ip] by (simp add: ParseIP_def parse_ipv4_string numeral_3_eq_3)

lemma to4_mapped [simp]: "length ip = 4 \<Longrightarrow> to4 (ipv4_mapped ip) = Some ip"
  by (simp add: to4_def ipv4_mapped_def)

lemma to4_plain [simp]: "length ip = 4 \<Longrightarrow> to4 ip = Some ip"
  by (simp add: to4_def)

end
