(* ===== verification/Bpf_Redirect.thy ===== *)
theory Bpf_Redirect
imports Net_Addr Settings
begin

text \<open>
  The path of a connection through the kernel: \<open>bpf/latch.c\<close> (the two TC programs),
  \<open>bpf/latch.go\<close> (where packets are sent) and \<open>internal/origdst/origdst.go\<close> (where they
  were meant to go). A packet is the list of its bytes from the Ethernet header on. The
  helpers of the kernel (checksum updates, writes into the packet, updates of the LRU
  map) are a record of functions; \<open>helpers_ok\<close> states what their documentation
  promises. Everything is done for either byte order of the host.
\<close>

section \<open>The maps and the helpers\<close>

record conn_key =
  src_ip :: uint32
  src_port :: uint16

record conn_val =
  orig_dst_ip :: uint32
  orig_dst_port :: uint16

record proxy_tgt =
  tgt_ip :: uint32
  tgt_port :: uint16

type_synonym conn_map = "conn_key \<rightharpoonup> conn_val"

text \<open>
  \<open>l3_csum_replace off from to\<close>, \<open>l4_csum_replace off from to pseudo size\<close> and
  \<open>skb_store_bytes off bytes\<close> work on the packet, \<open>map_update\<close> on the map of original
  destinations, which may evict other entries.
\<close>

record helpers =
  l3_csum_replace :: "nat \<Rightarrow> uint32 \<Rightarrow> uint32 \<Rightarrow> bytes \<Rightarrow> bytes"
  l4_csum_replace :: "nat \<Rightarrow> uint32 \<Rightarrow> uint32 \<Rightarrow> bool \<Rightarrow> nat \<Rightarrow> bytes \<Rightarrow> bytes"
  skb_store_bytes :: "nat \<Rightarrow> bytes \<Rightarrow> bytes \<Rightarrow> bytes"
  map_update :: "conn_key \<Rightarrow> conn_val \<Rightarrow> conn_map \<Rightarrow> conn_map"

section \<open>The TC programs\<close>

definition ip_hdrlen :: "byte \<Rightarrow> nat" where
  "ip_hdrlen b = (let len = (unat b mod 16) * 4 in if len < 20 \<or> 60 < len then 0 else len)"

text \<open>
  The checks both programs begin with: the length of the IP header of a packet that is
  TCP over IPv4 and long enough; \<open>None\<close> when the program lets the packet pass.
\<close>

definition tcp_packet :: "endian \<Rightarrow> bytes \<Rightarrow> nat option" where
  "tcp_packet e pkt =
     (if length pkt < 14 then None
      else if load16 e (drop 12 pkt) \<noteq> ntohs e 0x0800 then None
      else if length pkt < 14 + 20 then None
      else if pkt ! 23 \<noteq> 6 then None
      else let ihl = ip_hdrlen (pkt ! 14)
           in if ihl = 0 then None else if length pkt < 14 + ihl + 20 then None else Some ihl)"

definition tc_ingress :: "helpers \<Rightarrow> endian \<Rightarrow> proxy_tgt option \<Rightarrow> bytes \<times> conn_map \<Rightarrow> bytes \<times> conn_map" where
  "tc_ingress h e tgt_entry = (\<lambda>(pkt, m).
     case tcp_packet e pkt of
       None \<Rightarrow> (pkt, m)
     | Some ihl \<Rightarrow>
         let dst_port = ntohs e (load16 e (drop (14 + ihl + 2) pkt))
         in if dst_port \<noteq> 80 \<and> dst_port \<noteq> 443 then (pkt, m)
            else (case tgt_entry of
                    None \<Rightarrow> (pkt, m)
                  | Some tgt \<Rightarrow>
                      if tgt_ip tgt = 0 then (pkt, m)
                      else
                        let src_ip_h = ntohl e (load32 e (drop 26 pkt));
                            old_dst_ip = load32 e (drop 30 pkt);
                            old_dst_pt = load16 e (drop (14 + ihl + 2) pkt);
                            new_dst_ip = ntohl e (tgt_ip tgt);
                            new_dst_pt = ntohs e (tgt_port tgt);
                            ck = \<lparr>src_ip = src_ip_h, src_port = ntohs e (load16 e (drop (14 + ihl) pkt))\<rparr>;
                            cv = \<lparr>orig_dst_ip = ntohl e (load32 e (drop 30 pkt)),
                                  orig_dst_port = ntohs e (load16 e (drop (14 + ihl + 2) pkt))\<rparr>;
                            m' = map_update h ck cv m;
                            pkt1 = l3_csum_replace h (14 + 10) old_dst_ip new_dst_ip pkt;
                            pkt2 = l4_csum_replace h (14 + ihl + 16) old_dst_ip new_dst_ip True 4 pkt1;
                            pkt3 = l4_csum_replace h (14 + ihl + 16) (ucast old_dst_pt) (ucast new_dst_pt) False 2 pkt2;
                            pkt4 = skb_store_bytes h (14 + 16) (mem32 e new_dst_ip) pkt3;
                            pkt5 = skb_store_bytes h (14 + ihl + 2) (mem16 e new_dst_pt) pkt4
                        in (pkt5, m')))"

definition tc_egress :: "helpers \<Rightarrow> endian \<Rightarrow> conn_map \<Rightarrow> bytes \<Rightarrow> bytes" where
  "tc_egress h e m pkt =
     (case tcp_packet e pkt of
        None \<Rightarrow> pkt
      | Some ihl \<Rightarrow>
          let pod_ip_h = ntohl e (load32 e (drop 30 pkt));
              pod_port_h = ntohs e (load16 e (drop (14 + ihl + 2) pkt));
              old_src_ip = load32 e (drop 26 pkt);
              old_src_pt = load16 e (drop (14 + ihl) pkt)
          in case m \<lparr>src_ip = pod_ip_h, src_port = pod_port_h\<rparr> of
               None \<Rightarrow> pkt
             | Some cv \<Rightarrow>
                 let new_src_ip = ntohl e (orig_dst_ip cv);
                     new_src_pt = ntohs e (orig_dst_port cv);
                     pkt1 = l3_csum_replace h (14 + 10) old_src_ip new_src_ip pkt;
                     pkt2 = l4_csum_replace h (14 + ihl + 16) old_src_ip new_src_ip True 4 pkt1;
                     pkt3 = l4_csum_replace h (14 + ihl + 16) (ucast old_src_pt) (ucast new_src_pt) False 2 pkt2;
                     pkt4 = skb_store_bytes h (14 + 12) (mem32 e new_src_ip) pkt3
                 in skb_store_bytes h (14 + ihl) (mem16 e new_src_pt) pkt4)"

section \<open>The Go side\<close>

text \<open>\<open>Load\<close> of \<open>bpf/latch.go\<close>: the target the programs are given, or the exit code.\<close>

definition Load :: "bool \<Rightarrow> string \<Rightarrow> string \<Rightarrow> bool \<Rightarrow> int + proxy_tgt" where
  "Load loaded node_ip proxyAddr put_ok =
     (if \<not> loaded then Inl ExitEbpfLoadError
      else
        let redirectIP = (case Option.bind (ParseIP node_ip) to4 of None \<Rightarrow> [127, 0, 0, 1] | Some ip \<Rightarrow> ip)
        in case split_host_port proxyAddr of
             None \<Rightarrow> Inl ExitEbpfLoadError
           | Some (host, portStr) \<Rightarrow>
               (case parse_uint16 portStr of
                  None \<Rightarrow> Inl ExitEbpfLoadError
                | Some redirectPort \<Rightarrow>
                    if put_ok then Inr \<lparr>tgt_ip = get32 redirectIP, tgt_port = redirectPort\<rparr>
                    else Inl ExitEbpfLoadError))"

text \<open>\<open>Lookup\<close> of \<open>internal/origdst/origdst.go\<close>. The port of a \<open>TCPAddr\<close> is an \<open>int\<close>.\<close>

record tcp_addr =
  ta_IP :: bytes
  ta_Port :: int64

datatype lookup_error = Not_IPv4 | No_entry

definition Lookup :: "conn_map \<Rightarrow> tcp_addr \<Rightarrow> lookup_error + (bytes \<times> uint16)" where
  "Lookup m peer =
     (case to4 (ta_IP peer) of
        None \<Rightarrow> Inl Not_IPv4
      | Some srcIP \<Rightarrow>
          (case m \<lparr>src_ip = get32 srcIP, src_port = ucast (ta_Port peer)\<rparr> of
             None \<Rightarrow> Inl No_entry
           | Some v \<Rightarrow> Inr (put32 (orig_dst_ip v), orig_dst_port v)))"

section \<open>Fields of a packet\<close>

definition field16 :: "nat \<Rightarrow> bytes \<Rightarrow> uint16" where
  "field16 off pkt = get16 (take 2 (drop off pkt))"

definition field32 :: "nat \<Rightarrow> bytes \<Rightarrow> uint32" where
  "field32 off pkt = get32 (take 4 (drop off pkt))"

text \<open>Address and port of the sender and of the receiver, for an IP header of \<open>ihl\<close> bytes.\<close>

definition sender :: "nat \<Rightarrow> bytes \<Rightarrow> uint32 \<times> uint16" where
  "sender ihl pkt = (field32 26 pkt, field16 (14 + ihl) pkt)"

definition receiver :: "nat \<Rightarrow> bytes \<Rightarrow> uint32 \<times> uint16" where
  "receiver ihl pkt = (field32 30 pkt, field16 (14 + ihl + 2) pkt)"

text \<open>The packet \<open>q\<close> is \<open>p\<close> with other bytes at the offsets \<open>D\<close> at most.\<close>

definition changed_within :: "nat set \<Rightarrow> bytes \<Rightarrow> bytes \<Rightarrow> bool" where
  "changed_within D p q \<longleftrightarrow> length q = length p \<and> (\<forall>i < length p. i \<notin> D \<longrightarrow> q ! i = p ! i)"

text \<open>
  What the helpers promise: a checksum update changes no other byte than the two of the
  checksum, a store writes its bytes and no other, an update of the LRU map makes the
  entry and may evict others.
\<close>

definition helpers_ok :: "helpers \<Rightarrow> bool" where
  "helpers_ok h \<longleftrightarrow>
     (\<forall>off a b p. changed_within {off ..< off + 2} p (l3_csum_replace h off a b p))
     \<and> (\<forall>off a b ps n p. changed_within {off ..< off + 2} p (l4_csum_replace h off a b ps n p))
     \<and> (\<forall>off bs p. off + length bs \<le> length p \<longrightarrow>
          skb_store_bytes h off bs p = take off p @ bs @ drop (off + length bs) p)
     \<and> (\<forall>k v m. map_update h k v m k = Some v)
     \<and> (\<forall>k v m k'. k' \<noteq> k \<longrightarrow> map_update h k v m k' = None \<or> map_update h k v m k' = m k')"

named_theorems packet_simps \<open>reading the fields of a packet after bytes were changed\<close>

lemma changed_length: "changed_within D p q \<Longrightarrow> length q = length p"
  by (simp add: changed_within_def)

lemma changed_trans: "changed_within D p q \<Longrightarrow> changed_within E q r \<Longrightarrow> changed_within (D \<union> E) p r"
  by (simp add: changed_within_def)

lemma changed_nth: "changed_within D p q \<Longrightarrow> i < length p \<Longrightarrow> i \<notin> D \<Longrightarrow> q ! i = p ! i"
  by (simp add: changed_within_def)

lemma changed_part:
  "changed_within D p q \<Longrightarrow> D \<inter> {off ..< off + n} = {} \<Longrightarrow> take n (drop off q) = take n (drop off p)"
proof (rule nth_equalityI)
  fix i assume "changed_within D p q" "D \<inter> {off ..< off + n} = {}" "i < length (take n (drop off q))"
  moreover from this have "off + i \<in> {off ..< off + n}"
    by simp
  ultimately have "q ! (off + i) = p ! (off + i)"
    using changed_nth [of D p q "off + i"] changed_length [of D p q] by force
  then show "take n (drop off q) ! i = take n (drop off p) ! i"
    using \<open>i < _\<close> changed_length [OF \<open>changed_within D p q\<close>] by (auto simp: nth_drop)
qed (simp add: changed_length)

lemma changed_drop: "changed_within D p q \<Longrightarrow> D \<subseteq> {..< off} \<Longrightarrow> drop off q = drop off p"
proof (rule nth_equalityI)
  fix i assume "changed_within D p q" "D \<subseteq> {..< off}" "i < length (drop off q)"
  moreover from this have "off + i \<notin> D"
    by auto
  ultimately show "drop off q ! i = drop off p ! i"
    using changed_nth [of D p q "off + i"] changed_length [of D p q] by auto
qed (simp add: changed_length)

lemma store_bytes:
  assumes "helpers_ok h" and "off + length bs \<le> length p"
  shows "changed_within {off ..< off + length bs} p (skb_store_bytes h off bs p)"
    "take (length bs) (drop off (skb_store_bytes h off bs p)) = bs"
  using assms by (auto simp: helpers_ok_def changed_within_def nth_append)

lemma csum_changes:
  assumes "helpers_ok h"
  shows "changed_within {off ..< off + 2} p (l3_csum_replace h off a b p)"
    "changed_within {off ..< off + 2} p (l4_csum_replace h off a b ps n p)"
  using assms unfolding helpers_ok_def by blast+

lemma update_entry: "helpers_ok h \<Longrightarrow> map_update h k v m k = Some v"
  by (simp add: helpers_ok_def)

lemma tcp_packet_bounds:
  assumes "tcp_packet e pkt = Some ihl"
  shows "20 \<le> ihl" "ihl \<le> 60" "34 + ihl \<le> length pkt"
  using assms by (auto simp: tcp_packet_def ip_hdrlen_def Let_def split: if_splits)

text \<open>The header fields the checks look at lie outside what is rewritten.\<close>

lemma tcp_packet_changed:
  assumes "changed_within D p q" and "D \<inter> {12 ..< 15} = {}" and "23 \<notin> D"
  shows "tcp_packet e q = tcp_packet e p"
proof (cases "length p < 34")
  case True
  with changed_length [OF assms(1)] show ?thesis by (simp add: tcp_packet_def)
next
  case False
  have "take 2 (drop 12 q) = take 2 (drop 12 p)"
    by (rule changed_part [OF assms(1)]) (use assms(2) in auto)
  then have "load16 e (drop 12 q) = load16 e (drop 12 p)"
    by (simp add: load16_def)
  moreover have "14 \<notin> D"
    using assms(2) by (auto simp: disjoint_iff)
  then have "q ! 14 = p ! 14" "q ! 23 = p ! 23"
    using changed_nth [OF assms(1)] assms(3) False by simp_all
  ultimately show ?thesis
    by (simp add: tcp_packet_def changed_length [OF assms(1)] Let_def)
qed

text \<open>
  The five calls that rewrite an address at \<open>ao\<close> and a port at \<open>po\<close>, with the two
  checksums, as both programs make them.
\<close>

lemma rewrite_spec:
  fixes ihl :: nat
  assumes h: "helpers_ok h" and len: "34 + ihl \<le> length pkt" "20 \<le> ihl"
    and ao: "ao = 26 \<or> ao = 30" and po: "po = 14 + ihl \<or> po = 14 + ihl + 2"
    and q: "q = skb_store_bytes h po (put16 port) (skb_store_bytes h ao (put32 ip)
      (l4_csum_replace h (14 + ihl + 16) c d False 2 (l4_csum_replace h (14 + ihl + 16) a b True 4
        (l3_csum_replace h (14 + 10) a b pkt))))"
  shows "changed_within ({24, 25} \<union> {ao ..< ao + 4} \<union> {po ..< po + 2} \<union> {30 + ihl, 31 + ihl}) pkt q"
    and "field32 ao q = ip" and "field16 po q = port"
proof -
  let ?p1 = "l3_csum_replace h (14 + 10) a b pkt"
  let ?p2 = "l4_csum_replace h (14 + ihl + 16) a b True 4 ?p1"
  let ?p3 = "l4_csum_replace h (14 + ihl + 16) c d False 2 ?p2"
  let ?p4 = "skb_store_bytes h ao (put32 ip) ?p3"
  have "changed_within {24 ..< 26} pkt ?p1"
    using csum_changes(1) [OF h, of "14 + 10" pkt a b] by simp
  moreover have "changed_within {30 + ihl ..< 32 + ihl} ?p1 ?p2"
    using csum_changes(2) [OF h, of "14 + ihl + 16" ?p1 a b True 4] by (simp add: add.commute)
  moreover have "changed_within {30 + ihl ..< 32 + ihl} ?p2 ?p3"
    using csum_changes(2) [OF h, of "14 + ihl + 16" ?p2 c d False 2] by (simp add: add.commute)
  ultimately have c3: "changed_within ({24 ..< 26} \<union> {30 + ihl ..< 32 + ihl} \<union> {30 + ihl ..< 32 + ihl}) pkt ?p3"
    using changed_trans by blast
  then have l3: "length ?p3 = length pkt"
    by (rule changed_length)
  have s4: "changed_within {ao ..< ao + 4} ?p3 ?p4" "take 4 (drop ao ?p4) = put32 ip"
    using store_bytes [OF h, of ao "put32 ip" ?p3] ao len l3 by auto
  have s5: "changed_within {po ..< po + 2} ?p4 q" "take 2 (drop po q) = put16 port"
    using store_bytes [OF h, of po "put16 port" ?p4] po len l3 changed_length [OF s4(1)] q by auto
  have "changed_within (({24 ..< 26} \<union> {30 + ihl ..< 32 + ihl} \<union> {30 + ihl ..< 32 + ihl}) \<union> {ao ..< ao + 4} \<union> {po ..< po + 2}) pkt q"
    using changed_trans [OF changed_trans [OF c3 s4(1)] s5(1)] .
  moreover have "({24 ..< 26} \<union> {30 + ihl ..< 32 + ihl} \<union> {30 + ihl ..< 32 + ihl}) \<union> {ao ..< ao + 4} \<union> {po ..< po + 2}
      = {24, 25} \<union> {ao ..< ao + 4} \<union> {po ..< po + 2} \<union> {30 + ihl, 31 + ihl}"
    by auto
  ultimately show "changed_within ({24, 25} \<union> {ao ..< ao + 4} \<union> {po ..< po + 2} \<union> {30 + ihl, 31 + ihl}) pkt q"
    by simp
  show "field16 po q = port"
    using s5(2) by (simp add: field16_def)
  have "take 4 (drop ao q) = take 4 (drop ao ?p4)"
    by (rule changed_part [OF s5(1)]) (use ao po len in auto)
  with s4(2) show "field32 ao q = ip"
    by (simp add: field32_def)
qed

section \<open>What the programs do\<close>

lemma ingress_pass:
  assumes "tcp_packet e pkt = None \<or> tgt = None \<or> (\<exists>ihl. tcp_packet e pkt = Some ihl \<and> snd (receiver ihl pkt) \<notin> {80, 443})"
  shows "tc_ingress h e tgt (pkt, m) = (pkt, m)"
proof (cases "tcp_packet e pkt")
  case (Some ihl)
  have "2 \<le> length (drop (14 + ihl + 2) pkt)"
    using tcp_packet_bounds [OF Some] by simp
  from ntohs_load16 [OF this] assms Some show ?thesis
    by (auto simp: tc_ingress_def Let_def receiver_def field16_def split: option.split)
qed (simp add: tc_ingress_def)

lemma ingress_rewrites:
  assumes "helpers_ok h" and "tcp_packet e pkt = Some ihl" and "snd (receiver ihl pkt) \<in> {80, 443}" and "tgt_ip t \<noteq> 0"
    and "tc_ingress h e (Some t) (pkt, m) = (pkt', m')"
  shows "m' = map_update h \<lparr>src_ip = fst (sender ihl pkt), src_port = snd (sender ihl pkt)\<rparr>
      \<lparr>orig_dst_ip = fst (receiver ihl pkt), orig_dst_port = snd (receiver ihl pkt)\<rparr> m"
    and "changed_within ({24, 25} \<union> {30 ..< 34} \<union> {16 + ihl ..< 18 + ihl} \<union> {30 + ihl, 31 + ihl}) pkt pkt'"
    and "receiver ihl pkt' = (tgt_ip t, tgt_port t)"
proof -
  note b = tcp_packet_bounds [OF assms(2)]
  define old new oldp newp where "old = load32 e (drop 30 pkt)" and "new = ntohl e (tgt_ip t)"
    and "oldp = (ucast (load16 e (drop (14 + ihl + 2) pkt)) :: uint32)" and "newp = (ucast (ntohs e (tgt_port t)) :: uint32)"
  have run: "pkt' = skb_store_bytes h (14 + ihl + 2) (put16 (tgt_port t)) (skb_store_bytes h 30 (put32 (tgt_ip t))
      (l4_csum_replace h (14 + ihl + 16) oldp newp False 2 (l4_csum_replace h (14 + ihl + 16) old new True 4
        (l3_csum_replace h (14 + 10) old new pkt))))"
    "m' = map_update h \<lparr>src_ip = fst (sender ihl pkt), src_port = snd (sender ihl pkt)\<rparr>
      \<lparr>orig_dst_ip = fst (receiver ihl pkt), orig_dst_port = snd (receiver ihl pkt)\<rparr> m"
    using assms b
    by (auto simp: tc_ingress_def Let_def receiver_def sender_def field16_def field32_def old_def new_def oldp_def newp_def)
  then show "m' = map_update h \<lparr>src_ip = fst (sender ihl pkt), src_port = snd (sender ihl pkt)\<rparr>
      \<lparr>orig_dst_ip = fst (receiver ihl pkt), orig_dst_port = snd (receiver ihl pkt)\<rparr> m"
    by blast
  note r = rewrite_spec [OF assms(1) b(3,1), of 30 "14 + ihl + 2", OF _ _ run(1)]
  from r(1) show "changed_within ({24, 25} \<union> {30 ..< 34} \<union> {16 + ihl ..< 18 + ihl} \<union> {30 + ihl, 31 + ihl}) pkt pkt'"
    by (simp add: add.commute)
  from r(2,3) show "receiver ihl pkt' = (tgt_ip t, tgt_port t)"
    by (simp add: receiver_def)
qed

lemma egress_rewrites:
  assumes "helpers_ok h" and "tcp_packet e pkt = Some ihl"
    and "m \<lparr>src_ip = fst (receiver ihl pkt), src_port = snd (receiver ihl pkt)\<rparr> = Some cv"
  shows "changed_within ({24, 25} \<union> {26 ..< 30} \<union> {14 + ihl ..< 16 + ihl} \<union> {30 + ihl, 31 + ihl}) pkt (tc_egress h e m pkt)"
    and "sender ihl (tc_egress h e m pkt) = (orig_dst_ip cv, orig_dst_port cv)"
proof -
  note b = tcp_packet_bounds [OF assms(2)]
  define old new oldp newp where "old = load32 e (drop 26 pkt)" and "new = ntohl e (orig_dst_ip cv)"
    and "oldp = (ucast (load16 e (drop (14 + ihl) pkt)) :: uint32)" and "newp = (ucast (ntohs e (orig_dst_port cv)) :: uint32)"
  have run: "tc_egress h e m pkt = skb_store_bytes h (14 + ihl) (put16 (orig_dst_port cv)) (skb_store_bytes h 26 (put32 (orig_dst_ip cv))
      (l4_csum_replace h (14 + ihl + 16) oldp newp False 2 (l4_csum_replace h (14 + ihl + 16) old new True 4
        (l3_csum_replace h (14 + 10) old new pkt))))"
    using assms b
    by (auto simp: tc_egress_def Let_def receiver_def field16_def field32_def old_def new_def oldp_def newp_def)
  note r = rewrite_spec [OF assms(1) b(3,1), of 26 "14 + ihl", OF _ _ run]
  from r(1) show "changed_within ({24, 25} \<union> {26 ..< 30} \<union> {14 + ihl ..< 16 + ihl} \<union> {30 + ihl, 31 + ihl}) pkt (tc_egress h e m pkt)"
    by (simp add: add.commute)
  from r(2,3) show "sender ihl (tc_egress h e m pkt) = (orig_dst_ip cv, orig_dst_port cv)"
    by (simp add: sender_def)
qed

text \<open>What a rewriting of one end of the connection leaves alone.\<close>

lemma sender_kept:
  assumes "changed_within ({24, 25} \<union> {30 ..< 34} \<union> {16 + ihl ..< 18 + ihl} \<union> {30 + ihl, 31 + ihl}) p q" and "20 \<le> ihl"
  shows "sender ihl q = sender ihl p" "tcp_packet e q = tcp_packet e p" "drop (34 + ihl) q = drop (34 + ihl) p"
proof -
  have "take 4 (drop 26 q) = take 4 (drop 26 p)" "take 2 (drop (14 + ihl) q) = take 2 (drop (14 + ihl) p)"
    by (rule changed_part [OF assms(1)]; use assms(2) in auto)+
  then show "sender ihl q = sender ihl p"
    by (simp add: sender_def field16_def field32_def)
  show "tcp_packet e q = tcp_packet e p"
    by (rule tcp_packet_changed [OF assms(1)]) (use assms(2) in auto)
  show "drop (34 + ihl) q = drop (34 + ihl) p"
    by (rule changed_drop [OF assms(1)]) (use assms(2) in auto)
qed

lemma receiver_kept:
  assumes "changed_within ({24, 25} \<union> {26 ..< 30} \<union> {14 + ihl ..< 16 + ihl} \<union> {30 + ihl, 31 + ihl}) p q" and "20 \<le> ihl"
  shows "receiver ihl q = receiver ihl p" "tcp_packet e q = tcp_packet e p" "drop (34 + ihl) q = drop (34 + ihl) p"
proof -
  have "take 4 (drop 30 q) = take 4 (drop 30 p)" "take 2 (drop (14 + ihl + 2) q) = take 2 (drop (14 + ihl + 2) p)"
    by (rule changed_part [OF assms(1)]; use assms(2) in auto)+
  then show "receiver ihl q = receiver ihl p"
    by (simp add: receiver_def field16_def field32_def)
  show "tcp_packet e q = tcp_packet e p"
    by (rule tcp_packet_changed [OF assms(1)]) (use assms(2) in auto)
  show "drop (34 + ihl) q = drop (34 + ihl) p"
    by (rule changed_drop [OF assms(1)]) (use assms(2) in auto)
qed

text \<open>The address of the peer of a connection, as the Go code sees it.\<close>

definition peer_of :: "uint32 \<times> uint16 \<Rightarrow> tcp_addr \<Rightarrow> bool" where
  "peer_of a peer \<longleftrightarrow> to4 (ta_IP peer) = Some (put32 (fst a)) \<and> ta_Port peer = ucast (snd a)"

lemma Lookup_entry:
  assumes "m \<lparr>src_ip = fst a, src_port = snd a\<rparr> = Some v" and "peer_of a peer"
  shows "Lookup m peer = Inr (put32 (orig_dst_ip v), orig_dst_port v)"
proof -
  have "(ucast (ucast (snd a) :: int64) :: uint16) = snd a"
    by (rule bit_word_eqI) (simp add: bit_simps)
  with assms show ?thesis by (simp add: Lookup_def peer_of_def)
qed

lemma redirected:
  assumes "helpers_ok h" and "tcp_packet e pkt = Some ihl" and "snd (receiver ihl pkt) \<in> {80, 443}" and "tgt_ip t \<noteq> 0"
    and "tc_ingress h e (Some t) (pkt, m) = (pkt', m')" and "peer_of (sender ihl pkt') peer"
  shows "tcp_packet e pkt' = Some ihl \<and> receiver ihl pkt' = (tgt_ip t, tgt_port t) \<and> sender ihl pkt' = sender ihl pkt
    \<and> drop (14 + ihl + 20) pkt' = drop (14 + ihl + 20) pkt
    \<and> Lookup m' peer = Inr (put32 (fst (receiver ihl pkt)), snd (receiver ihl pkt))"
proof -
  note b = tcp_packet_bounds [OF assms(2)]
  note r = ingress_rewrites [OF assms(1-5)]
  note k = sender_kept [OF r(2) b(1)]
  have "m' \<lparr>src_ip = fst (sender ihl pkt'), src_port = snd (sender ihl pkt')\<rparr>
      = Some \<lparr>orig_dst_ip = fst (receiver ihl pkt), orig_dst_port = snd (receiver ihl pkt)\<rparr>"
    by (simp add: r(1) k(1) update_entry [OF assms(1)])
  then have "Lookup m' peer = Inr (put32 (fst (receiver ihl pkt)), snd (receiver ihl pkt))"
    using Lookup_entry [where a = "sender ihl pkt'"] assms(6) by simp
  with r(3) k assms(2) show ?thesis
    by (simp add: add.commute)
qed

section \<open>Properties\<close>

text \<open>C13. The proxy learns where an intercepted packet was going. A TCP packet to port 80 or 443 leaves the
  ingress program addressed to the configured target, with its sender and everything
  behind the TCP header untouched, and the lookup of the Go code for that sender returns
  the address and port the packet was sent to, on a host of either byte order and
  whatever other entries the LRU map evicts.\<close>

theorem redirect_roundtrip:
  assumes "helpers_ok h" and "tcp_packet e pkt = Some ihl" and "snd (receiver ihl pkt) \<in> {80, 443}" and "tgt_ip t \<noteq> 0"
    and "tc_ingress h e (Some t) (pkt, m) = (pkt', m')" and "peer_of (sender ihl pkt') peer"
  shows "tcp_packet e pkt' = Some ihl \<and> receiver ihl pkt' = (tgt_ip t, tgt_port t) \<and> sender ihl pkt' = sender ihl pkt
    \<and> drop (14 + ihl + 20) pkt' = drop (14 + ihl + 20) pkt
    \<and> Lookup m' peer = Inr (put32 (fst (receiver ihl pkt)), snd (receiver ihl pkt))"
  using assms by (rule redirected)

text \<open>Helpers that leave the checksums as they are, and a packet from 10.0.0.5:40000 to 10.0.0.9:80.\<close>

definition plain_helpers :: helpers where
  "plain_helpers =
     \<lparr>l3_csum_replace = \<lambda>off a b p. p, l4_csum_replace = \<lambda>off a b ps n p. p,
      skb_store_bytes = \<lambda>off bs p. take off p @ bs @ drop (off + length bs) p,
      map_update = \<lambda>k v m. m(k \<mapsto> v)\<rparr>"

definition sample_packet :: "bytes \<Rightarrow> bytes \<Rightarrow> bytes" where
  "sample_packet from to =
     replicate 12 0 @ [0x08, 0x00] @ [0x45, 0, 0, 40, 0, 0, 0, 0, 64, 6, 0, 0] @ take 4 from @ take 4 to
     @ drop 4 from @ drop 4 to @ replicate 16 0"

abbreviation "pod_end \<equiv> [10, 0, 0, 5, 0x9C, 0x40 :: byte]"
abbreviation "web_end \<equiv> [10, 0, 0, 9, 0, 80 :: byte]"

lemma plain_helpers_ok: "helpers_ok plain_helpers"
  by (simp add: helpers_ok_def plain_helpers_def changed_within_def)

lemma sample_packets:
  "tcp_packet Little (sample_packet pod_end web_end) = Some 20" "tcp_packet Little (sample_packet web_end pod_end) = Some 20"
  "sender 20 (sample_packet pod_end web_end) = (0x0A000005, 40000)" "receiver 20 (sample_packet pod_end web_end) = (0x0A000009, 80)"
  "sender 20 (sample_packet web_end pod_end) = (0x0A000009, 80)" "receiver 20 (sample_packet web_end pod_end) = (0x0A000005, 40000)"
  by code_simp+

theorem redirect_roundtrip_witness:
  "Lookup (snd (tc_ingress plain_helpers Little (Some \<lparr>tgt_ip = 0x7F000001, tgt_port = 8080\<rparr>)
      (sample_packet pod_end web_end, Map.empty))) \<lparr>ta_IP = [10, 0, 0, 5], ta_Port = 40000\<rparr> = Inr ([10, 0, 0, 9], 80)"
proof -
  let ?t = "\<lparr>tgt_ip = 0x7F000001, tgt_port = 8080\<rparr>"
  let ?r = "tc_ingress plain_helpers Little (Some ?t) (sample_packet pod_end web_end, Map.empty)"
  have p: "peer_of (0x0A000005, 40000) \<lparr>ta_IP = [10, 0, 0, 5], ta_Port = 40000\<rparr>"
    by code_simp
  have s: "sender 20 (fst ?r) = (0x0A000005, 40000)"
    by code_simp
  have "put32 0x0A000009 = [10, 0, 0, 9]"
    by code_simp
  with redirect_roundtrip [OF plain_helpers_ok sample_packets(1), of ?t Map.empty "fst ?r" "snd ?r"] p s show ?thesis
    by (simp add: sample_packets)
qed

text \<open>C27. The pod sees answers from whom it called. A reply of the proxy to the sender of an intercepted packet
  leaves the egress program with the address and port the packet was sent to as its
  sender; its receiver and its payload are untouched.\<close>

theorem reply_restored:
  assumes "helpers_ok h" and "tcp_packet e pkt = Some ihl" and "snd (receiver ihl pkt) \<in> {80, 443}" and "tgt_ip t \<noteq> 0"
    and "tc_ingress h e (Some t) (pkt, m) = (pkt', m')"
    and "tcp_packet e reply = Some ihl'" and "receiver ihl' reply = sender ihl pkt"
  shows "tcp_packet e (tc_egress h e m' reply) = Some ihl' \<and> sender ihl' (tc_egress h e m' reply) = receiver ihl pkt
    \<and> receiver ihl' (tc_egress h e m' reply) = receiver ihl' reply
    \<and> drop (14 + ihl' + 20) (tc_egress h e m' reply) = drop (14 + ihl' + 20) reply"
proof -
  note b = tcp_packet_bounds [OF assms(6)]
  have "m' \<lparr>src_ip = fst (receiver ihl' reply), src_port = snd (receiver ihl' reply)\<rparr>
      = Some \<lparr>orig_dst_ip = fst (receiver ihl pkt), orig_dst_port = snd (receiver ihl pkt)\<rparr>"
    by (simp add: ingress_rewrites(1) [OF assms(1-5)] assms(7) update_entry [OF assms(1)])
  note r = egress_rewrites [OF assms(1,6), where m = m' and cv = "\<lparr>orig_dst_ip = fst (receiver ihl pkt), orig_dst_port = snd (receiver ihl pkt)\<rparr>", OF this]
  note k = receiver_kept [OF r(1) b(1)]
  from r(2) k assms(6) show ?thesis
    by (simp add: add.commute)
qed

theorem reply_restored_witness:
  "sender 20 (tc_egress plain_helpers Little
      (snd (tc_ingress plain_helpers Little (Some \<lparr>tgt_ip = 0x7F000001, tgt_port = 8080\<rparr>) (sample_packet pod_end web_end, Map.empty)))
      (sample_packet [127, 0, 0, 1, 31, 144] pod_end)) = (0x0A000009, 80)"
proof -
  have "tcp_packet Little (sample_packet [127, 0, 0, 1, 31, 144] pod_end) = Some 20"
    "receiver 20 (sample_packet [127, 0, 0, 1, 31, 144] pod_end) = (0x0A000005, 40000)"
    by code_simp+
  then show ?thesis
    using reply_restored [OF plain_helpers_ok sample_packets(1), of "\<lparr>tgt_ip = 0x7F000001, tgt_port = 8080\<rparr>" Map.empty,
        OF _ _ prod.collapse [symmetric], of "sample_packet [127, 0, 0, 1, 31, 144] pod_end" 20]
    by (simp add: sample_packets)
qed

text \<open>Only connections to ports 80 and 443 are redirected, and none before a target is configured: every
  other packet, of whatever protocol or length, passes the ingress program unchanged and
  leaves the map of original destinations alone.\<close>

theorem redirect_only_web:
  "(tc_ingress h e tgt (pkt, m) = (pkt, m))
   \<or> (\<exists>ihl t. tcp_packet e pkt = Some ihl \<and> snd (receiver ihl pkt) \<in> {80, 443} \<and> tgt = Some t \<and> tgt_ip t \<noteq> 0)"
proof (cases "tcp_packet e pkt")
  case (Some ihl)
  show ?thesis
  proof (cases tgt)
    case None
    then show ?thesis by (simp add: ingress_pass)
  next
    case (Some t)
    have "tc_ingress h e (Some t) (pkt, m) = (pkt, m)" if "tgt_ip t = 0"
      using that by (simp add: tc_ingress_def Let_def split: option.split)
    with Some \<open>tcp_packet e pkt = Some ihl\<close> ingress_pass show ?thesis by metis
  qed
qed (simp add: ingress_pass)

text \<open>C38. The egress program goes by the receiver alone. When a pod reuses the port of an earlier intercepted
  connection for a connection to another port, the entry of the earlier one is still
  there: the ingress program lets the new connection pass, and the egress program gives
  the replies of its server another sender, so that the pod does not recognise them.\<close>

theorem stale_entry_breaks_connection:
  assumes "helpers_ok h" and "tcp_packet e pkt = Some ihl" and "snd (receiver ihl pkt) \<notin> {80, 443}"
    and "m \<lparr>src_ip = fst (sender ihl pkt), src_port = snd (sender ihl pkt)\<rparr> = Some old"
    and "orig_dst_port old \<in> {80, 443}"
    and "tcp_packet e reply = Some ihl'" and "sender ihl' reply = receiver ihl pkt" and "receiver ihl' reply = sender ihl pkt"
  shows "tc_ingress h e tgt (pkt, m) = (pkt, m) \<and> sender ihl' (tc_egress h e m reply) \<noteq> receiver ihl pkt"
proof
  show "tc_ingress h e tgt (pkt, m) = (pkt, m)"
    using assms(2,3) ingress_pass by blast
  have "sender ihl' (tc_egress h e m reply) = (orig_dst_ip old, orig_dst_port old)"
    by (rule egress_rewrites(2) [OF assms(1,6)]) (simp add: assms(4,8))
  with assms(3,5) show "sender ihl' (tc_egress h e m reply) \<noteq> receiver ihl pkt"
    by (metis snd_conv)
qed

abbreviation "db_end \<equiv> [10, 0, 0, 7, 21, 56 :: byte]"

theorem stale_entry_breaks_connection_witness:
  "sender 20 (tc_egress plain_helpers Little
      [\<lparr>src_ip = 0x0A000005, src_port = 40000\<rparr> \<mapsto> \<lparr>orig_dst_ip = 0x0A000009, orig_dst_port = 80\<rparr>]
      (sample_packet db_end pod_end)) \<noteq> (0x0A000007, 5432)"
proof -
  have db: "tcp_packet Little (sample_packet pod_end db_end) = Some 20" "tcp_packet Little (sample_packet db_end pod_end) = Some 20"
    "sender 20 (sample_packet pod_end db_end) = (0x0A000005, 40000)" "receiver 20 (sample_packet pod_end db_end) = (0x0A000007, 5432)"
    "sender 20 (sample_packet db_end pod_end) = (0x0A000007, 5432)" "receiver 20 (sample_packet db_end pod_end) = (0x0A000005, 40000)"
    by code_simp+
  show ?thesis
    using stale_entry_breaks_connection [OF plain_helpers_ok db(1), where m =
        "[\<lparr>src_ip = 0x0A000005, src_port = 40000\<rparr> \<mapsto> \<lparr>orig_dst_ip = 0x0A000009, orig_dst_port = 80\<rparr>]"
        and reply = "sample_packet db_end pod_end" and ihl' = 20]
    by (simp add: db)
qed

lemma load_target:
  assumes "set host \<inter> {CHR '':'', CHR ''['', CHR '']''} = {}"
    and "(\<exists>ip. length ip = 4 \<and> node_ip = ipv4_string ip \<and> t = get32 ip)
      \<or> Option.bind (ParseIP node_ip) to4 = None \<and> t = 0x7F000001"
  shows "Load True node_ip (join_host_port host (itoa n)) True =
    (if n < 2 ^ 16 then Inr \<lparr>tgt_ip = t, tgt_port = word_of_nat n\<rparr> else Inl ExitEbpfLoadError)"
proof -
  have "set (itoa n) \<inter> {CHR '':'', CHR ''['', CHR '']''} = {}"
    using itoa_digits [of n] by (auto simp: list_all_iff digit_char_def)
  note split = split_join_host_port [OF assms(1) this]
  have "get32 (case Option.bind (ParseIP node_ip) to4 of None \<Rightarrow> [127, 0, 0, 1] | Some ip \<Rightarrow> ip) = t"
    using assms(2)
  proof
    assume "\<exists>ip. length ip = 4 \<and> node_ip = ipv4_string ip \<and> t = get32 ip"
    then show ?thesis by (auto simp: ParseIP_ipv4)
  next
    assume "Option.bind (ParseIP node_ip) to4 = None \<and> t = 0x7F000001"
    moreover have "get32 [127, 0, 0, 1] = 0x7F000001"
      by code_simp
    ultimately show ?thesis by simp
  qed
  with split show ?thesis
    by (simp add: Load_def parse_uint16_itoa)
qed

text \<open>Loading configures the redirection from the environment: with a dotted address in \<open>NODE_IP\<close> and the
  proxy listening on \<open>host:port\<close> the target is that address and port, with any \<open>NODE_IP\<close>
  that is no IPv4 address it is the loopback address; a listening address whose port is
  no number below 65536 ends the program with the code for a failed load.\<close>

theorem load_exact:
  assumes "set host \<inter> {CHR '':'', CHR ''['', CHR '']''} = {}"
    and "(\<exists>ip. length ip = 4 \<and> node_ip = ipv4_string ip \<and> t = get32 ip)
      \<or> Option.bind (ParseIP node_ip) to4 = None \<and> t = 0x7F000001"
  shows "Load True node_ip (join_host_port host (itoa n)) True =
    (if n < 2 ^ 16 then Inr \<lparr>tgt_ip = t, tgt_port = word_of_nat n\<rparr> else Inl ExitEbpfLoadError)"
  using assms by (rule load_target)

theorem load_exact_witness:
  "Load True ''10.0.0.9'' ''0.0.0.0:8080'' True = Inr \<lparr>tgt_ip = 0x0A000009, tgt_port = 8080\<rparr>"
proof -
  have digits: "itoa 0 = ''0''" "itoa 9 = ''9''" "itoa 10 = ''10''" "itoa 8080 = ''8080''"
    by (simp_all add: itoa.simps char_of_def bit_0)
  have addr: "''0.0.0.0:8080'' = join_host_port ''0.0.0.0'' (itoa 8080)" "''10.0.0.9'' = ipv4_string [10, 0, 0, 9]"
    by (simp_all add: digits join_host_port_def)
  have ip: "\<exists>ip. length ip = 4 \<and> ipv4_string [10, 0, 0, 9] = ipv4_string ip \<and> get32 [10, 0, 0, 9] = get32 ip"
    by (rule exI [of _ "[10, 0, 0, 9]"]) simp
  have t: "get32 [10, 0, 0, 9] = 0x0A000009"
    by code_simp
  show ?thesis
    unfolding addr using load_exact [of "''0.0.0.0''" _ "get32 [10, 0, 0, 9]" 8080, OF _ disjI1 [OF ip]] by (simp add: t)
qed

end
