(* ===== verification/Tls_Ca.thy ===== *)
theory Tls_Ca
imports Go_Http
begin

text \<open>
  \<open>internal/tlsmitm/ca.go\<close>: loading the signing CA, and the leaf certificates issued and
  cached for the names clients ask for. Keys, parsing and signing are the business of
  \<open>crypto\<close>, \<open>crypto/x509\<close> and \<open>encoding/pem\<close>: what those answer is data of the
  environment (\<open>pki\<close>, \<open>gen_env\<close>), and what the code does with the answers is modelled.
  Public keys are of type \<open>'p\<close>, private keys of type \<open>'k\<close>.
\<close>

section \<open>State\<close>

record 'p x509_cert =
  xc_Raw :: bytes
  xc_NotAfter :: instant
  xc_IsCA :: bool
  xc_PublicKey :: 'p

record 'k tls_cert =
  tc_Certificate :: "bytes list"
  tc_PrivateKey :: 'k

record 'k cached_cert =
  cc_tlsCert :: "'k tls_cert"
  cc_expiresAt :: instant

record ('p, 'k) ca =
  ca_cert :: "'p x509_cert"
  ca_key :: 'k
  ca_cache :: "string \<rightharpoonup> 'k cached_cert"

section \<open>Loading\<close>

record ('p, 'k) pki =
  ReadFile :: "string \<Rightarrow> bytes option"
  pem_Decode :: "bytes \<Rightarrow> bytes option"
  ParseCertificate :: "bytes \<Rightarrow> 'p x509_cert option"
  ParsePKCS8 :: "bytes \<Rightarrow> 'k option"
  ParseEC :: "bytes \<Rightarrow> 'k option"
  ParsePKCS1 :: "bytes \<Rightarrow> 'k option"
  signer_Public :: "'k \<Rightarrow> 'p option"
  MarshalPKIX :: "'p \<Rightarrow> bytes option"

datatype ca_error =
    Read_cert | Read_key | Cert_no_pem | Cert_unparsable | Cert_not_ca | Key_no_pem | Key_format
  | Key_no_signer | Cert_marshal | Key_marshal | Key_mismatch

text \<open>The three formats of a key, tried in order.\<close>

definition parse_key :: "('p, 'k) pki \<Rightarrow> bytes \<Rightarrow> 'k option" where
  "parse_key x der =
     (case ParsePKCS8 x der of
        Some k \<Rightarrow> Some k
      | None \<Rightarrow> (case ParseEC x der of Some k \<Rightarrow> Some k | None \<Rightarrow> ParsePKCS1 x der))"

text \<open>\<open>ReadFile\<close> is given the name of the file in the directory.\<close>

definition LoadCA :: "('p, 'k) pki \<Rightarrow> ca_error + ('p, 'k) ca" where
  "LoadCA x =
     (case ReadFile x ''tls.crt'' of
        None \<Rightarrow> Inl Read_cert
      | Some certPEM \<Rightarrow>
     (case ReadFile x ''tls.key'' of
        None \<Rightarrow> Inl Read_key
      | Some keyPEM \<Rightarrow>
     (case pem_Decode x certPEM of
        None \<Rightarrow> Inl Cert_no_pem
      | Some block \<Rightarrow>
     (case ParseCertificate x block of
        None \<Rightarrow> Inl Cert_unparsable
      | Some cert \<Rightarrow>
          if \<not> xc_IsCA cert then Inl Cert_not_ca
          else
     (case pem_Decode x keyPEM of
        None \<Rightarrow> Inl Key_no_pem
      | Some keyBlock \<Rightarrow>
     (case parse_key x keyBlock of
        None \<Rightarrow> Inl Key_format
      | Some k \<Rightarrow>
     (case signer_Public x k of
        None \<Rightarrow> Inl Key_no_signer
      | Some pub \<Rightarrow>
     (case MarshalPKIX x (xc_PublicKey cert) of
        None \<Rightarrow> Inl Cert_marshal
      | Some certPubDER \<Rightarrow>
     (case MarshalPKIX x pub of
        None \<Rightarrow> Inl Key_marshal
      | Some keyPubDER \<Rightarrow>
          if certPubDER \<noteq> keyPubDER then Inl Key_mismatch
          else Inr \<lparr>ca_cert = cert, ca_key = k, ca_cache = Map.empty\<rparr>)))))))))"

text \<open>The roots for upstream connections: the system's, or none when they cannot be read, and the CA.\<close>

definition CertPool :: "'p x509_cert set option \<Rightarrow> ('p, 'k) ca \<Rightarrow> 'p x509_cert set" where
  "CertPool system ca = insert (ca_cert ca) (case system of None \<Rightarrow> {} | Some pool \<Rightarrow> pool)"

section \<open>Issuing\<close>

definition minute :: int where
  "minute = 60 * 10 ^ 9"

definition hour :: int where
  "hour = 60 * minute"

text \<open>What a leaf may be used for: the constants of \<open>crypto/x509\<close> that the code names, a bit and an enumeration.\<close>

definition KeyUsageDigitalSignature :: int where
  "KeyUsageDigitalSignature = 1"

definition ExtKeyUsageServerAuth :: int where
  "ExtKeyUsageServerAuth = 1"

record template =
  tp_SerialNumber :: nat
  tp_CommonName :: string
  tp_DNSNames :: "string list"
  tp_NotBefore :: instant
  tp_NotAfter :: instant
  tp_KeyUsage :: int
  tp_ExtKeyUsage :: "int list"

text \<open>
  \<open>x509.CreateCertificate\<close>: from random bytes, the template, the parent, the key the
  certificate is for and the key that signs it.
\<close>

type_synonym ('p, 'k) create = "nat \<Rightarrow> template \<Rightarrow> 'p x509_cert \<Rightarrow> 'k \<Rightarrow> 'k \<Rightarrow> bytes option"

text \<open>
  One generation: the clock at its four readings, the key made and the serial number
  drawn, when that succeeds, and the random bytes of the signature.
\<close>

record 'k gen_env =
  t_lookup :: instant
  t_recheck :: instant
  t_after :: instant
  t_before :: instant
  gen_key :: "'k option"
  gen_serial :: "nat option"
  gen_rand :: nat

definition server_sni :: "string \<Rightarrow> string" where
  "server_sni name = (if name = [] then ''unknown'' else name)"

definition leaf_not_after :: "instant \<Rightarrow> ('p, 'k) ca \<Rightarrow> instant" where
  "leaf_not_after now ca =
     (let notAfter = now + 24 * hour in if xc_NotAfter (ca_cert ca) < notAfter then xc_NotAfter (ca_cert ca) else notAfter)"

definition leaf_template :: "'k gen_env \<Rightarrow> nat \<Rightarrow> string \<Rightarrow> ('p, 'k) ca \<Rightarrow> template" where
  "leaf_template env serial sni ca =
     \<lparr>tp_SerialNumber = serial, tp_CommonName = sni, tp_DNSNames = [sni],
      tp_NotBefore = t_before env - minute, tp_NotAfter = leaf_not_after (t_after env) ca,
      tp_KeyUsage = KeyUsageDigitalSignature, tp_ExtKeyUsage = [ExtKeyUsageServerAuth]\<rparr>"

text \<open>The entry of a name that has not expired.\<close>

definition live_leaf :: "instant \<Rightarrow> string \<Rightarrow> ('p, 'k) ca \<Rightarrow> 'k tls_cert option" where
  "live_leaf now sni ca =
     (case ca_cache ca sni of
        None \<Rightarrow> None
      | Some e \<Rightarrow> if now < cc_expiresAt e then Some (cc_tlsCert e) else None)"

text \<open>The function given to the single flight of a name; \<open>None\<close> is an error.\<close>

definition issue :: "('p, 'k) create \<Rightarrow> 'k gen_env \<Rightarrow> string \<Rightarrow> ('p, 'k) ca \<Rightarrow> 'k tls_cert option \<times> ('p, 'k) ca" where
  "issue create env sni ca =
     (case live_leaf (t_recheck env) sni ca of
        Some c \<Rightarrow> (Some c, ca)
      | None \<Rightarrow>
     (case gen_key env of
        None \<Rightarrow> (None, ca)
      | Some leafKey \<Rightarrow>
     (case gen_serial env of
        None \<Rightarrow> (None, ca)
      | Some serial \<Rightarrow>
          let tmpl = leaf_template env serial sni ca
          in case create (gen_rand env) tmpl (ca_cert ca) leafKey (ca_key ca) of
               None \<Rightarrow> (None, ca)
             | Some der \<Rightarrow>
                 let c = \<lparr>tc_Certificate = [der, xc_Raw (ca_cert ca)], tc_PrivateKey = leafKey\<rparr>;
                     e = \<lparr>cc_tlsCert = c, cc_expiresAt = tp_NotAfter tmpl - 5 * minute\<rparr>
                 in (Some c, ca\<lparr>ca_cache := (ca_cache ca)(sni \<mapsto> e)\<rparr>))))"

text \<open>
  \<open>GetCertificate\<close>. \<open>flight.Do\<close> runs the function, or waits for a run of it for the same
  name that is under way and gives its result: that is \<open>shared\<close>.
\<close>

definition GetCertificate ::
  "('p, 'k) create \<Rightarrow> 'k gen_env \<Rightarrow> 'k tls_cert option option \<Rightarrow> string \<Rightarrow> ('p, 'k) ca \<Rightarrow> 'k tls_cert option \<times> ('p, 'k) ca" where
  "GetCertificate create env shared name ca =
     (let sni = server_sni name
      in case live_leaf (t_lookup env) sni ca of
           Some c \<Rightarrow> (Some c, ca)
         | None \<Rightarrow> (case shared of Some r \<Rightarrow> (r, ca) | None \<Rightarrow> issue create env sni ca))"

section \<open>The certificates issued so far\<close>

text \<open>
  The steps of a CA that serves many connections at once. A run of \<open>issue\<close> reads and
  writes the entry of its own name only, and the flight group keeps two runs for one
  name apart, so a run is one step. The log holds the result of every run; a call that
  shares a run takes its result from there.
\<close>

type_synonym ('p, 'k) ca_state = "('p, 'k) ca \<times> (string \<times> 'k tls_cert option) list"

inductive ca_call :: "('p, 'k) create \<Rightarrow> string \<Rightarrow> 'k tls_cert option \<Rightarrow> ('p, 'k) ca_state \<Rightarrow> ('p, 'k) ca_state \<Rightarrow> bool"
  for create where
  own: "GetCertificate create env None name ca = (r, ca') \<Longrightarrow> ca_call create name r (ca, log) (ca', log @ [(server_sni name, r)])"
| shared: "(server_sni name, q) \<in> set log \<Longrightarrow> GetCertificate create env (Some q) name ca = (r, ca') \<Longrightarrow>
     ca_call create name r (ca, log) (ca', log)"

inductive_cases ca_callE: "ca_call create name r (ca, log) s"

definition ca_step :: "('p, 'k) create \<Rightarrow> ('p, 'k) ca_state \<Rightarrow> ('p, 'k) ca_state \<Rightarrow> bool" where
  "ca_step create s s' \<longleftrightarrow> (\<exists>name r. ca_call create name r s s')"

text \<open>A certificate issued for a name: made from the template, for a fresh key, with the CA behind it.\<close>

definition issued :: "('p, 'k) create \<Rightarrow> ('p, 'k) ca \<Rightarrow> string \<Rightarrow> 'k tls_cert \<Rightarrow> instant \<Rightarrow> bool" where
  "issued create ca sni c notAfter \<longleftrightarrow>
     (\<exists>env serial k der. gen_key env = Some k \<and> gen_serial env = Some serial
        \<and> create (gen_rand env) (leaf_template env serial sni ca) (ca_cert ca) k (ca_key ca) = Some der
        \<and> c = \<lparr>tc_Certificate = [der, xc_Raw (ca_cert ca)], tc_PrivateKey = k\<rparr>
        \<and> notAfter = leaf_not_after (t_after env) ca)"

definition ca_ok :: "('p, 'k) create \<Rightarrow> ('p, 'k) ca_state \<Rightarrow> bool" where
  "ca_ok create s \<longleftrightarrow>
     (\<forall>sni e. ca_cache (fst s) sni = Some e \<longrightarrow> issued create (fst s) sni (cc_tlsCert e) (cc_expiresAt e + 5 * minute))
     \<and> (\<forall>(sni, r) \<in> set (snd s). \<forall>c. r = Some c \<longrightarrow> (\<exists>t. issued create (fst s) sni c t))"

text \<open>The signing certificate and key never change, so \<open>issued\<close> speaks of one CA throughout.\<close>

definition same_ca :: "('p, 'k) ca \<Rightarrow> ('p, 'k) ca \<Rightarrow> bool" where
  "same_ca ca ca' \<longleftrightarrow> ca_cert ca' = ca_cert ca \<and> ca_key ca' = ca_key ca"

lemma issued_cong: "same_ca ca ca' \<Longrightarrow> issued create ca' sni c t = issued create ca sni c t"
  by (simp add: issued_def same_ca_def leaf_template_def leaf_not_after_def Let_def)

lemma issued_upd [simp]: "issued create (ca\<lparr>ca_cache := x\<rparr>) = issued create ca"
  by (intro ext issued_cong) (simp add: same_ca_def)

lemma live_leafD:
  assumes "live_leaf now sni ca = Some c"
  obtains e where "ca_cache ca sni = Some e" and "cc_tlsCert e = c" and "now < cc_expiresAt e"
  using assms by (auto simp: live_leaf_def split: option.splits if_splits)

lemma issue_cases:
  assumes "issue create env sni ca = (r, ca')"
  obtains (live) c where "live_leaf (t_recheck env) sni ca = Some c" and "r = Some c" and "ca' = ca"
  | (failed) "r = None" and "ca' = ca" and "live_leaf (t_recheck env) sni ca = None"
  | (fresh) c where "live_leaf (t_recheck env) sni ca = None" and "r = Some c"
      and "issued create ca sni c (leaf_not_after (t_after env) ca)"
      and "ca' = ca\<lparr>ca_cache := (ca_cache ca)(sni \<mapsto>
            \<lparr>cc_tlsCert = c, cc_expiresAt = leaf_not_after (t_after env) ca - 5 * minute\<rparr>)\<rparr>"
proof (cases "live_leaf (t_recheck env) sni ca")
  case (Some c)
  show ?thesis
    by (rule live [OF Some]) (use assms Some in \<open>simp_all add: issue_def\<close>)
next
  case None
  show ?thesis
  proof (cases "r")
    case rn: None
    with assms None have "ca' = ca"
      by (simp add: issue_def Let_def split: option.splits)
    from failed [OF rn this None] show ?thesis .
  next
    case (Some c)
    with assms None obtain k serial where key: "gen_key env = Some k" "gen_serial env = Some serial"
      by (cases "gen_key env"; cases "gen_serial env") (simp_all add: issue_def)
    let ?t = "leaf_template env serial sni ca"
    from assms None Some key obtain der where der: "create (gen_rand env) ?t (ca_cert ca) k (ca_key ca) = Some der"
      by (cases "create (gen_rand env) ?t (ca_cert ca) k (ca_key ca)") (simp_all add: issue_def Let_def)
    let ?c = "\<lparr>tc_Certificate = [der, xc_Raw (ca_cert ca)], tc_PrivateKey = k\<rparr>"
    have c: "c = ?c" and ca': "ca' = ca\<lparr>ca_cache := (ca_cache ca)(sni \<mapsto>
            \<lparr>cc_tlsCert = ?c, cc_expiresAt = tp_NotAfter ?t - 5 * minute\<rparr>)\<rparr>"
      using assms None Some key der by (auto simp: issue_def Let_def)
    have "issued create ca sni c (leaf_not_after (t_after env) ca)"
      unfolding issued_def using key der c by blast
    from fresh [OF None Some this] ca' c show ?thesis by (simp add: leaf_template_def)
  qed
qed

text \<open>What a call does, in terms of the certificates issued.\<close>

lemma call_ok:
  assumes "ca_call create name r s s'" and "ca_ok create s"
  shows "ca_ok create s' \<and> same_ca (fst s) (fst s')
    \<and> (\<forall>c. r = Some c \<longrightarrow> (\<exists>t. issued create (fst s) (server_sni name) c t))"
  using assms
proof (induction rule: ca_call.induct)
  case (own env name ca r ca' log)
  let ?sni = "server_sni name"
  have cached: "issued create ca sni (cc_tlsCert e) (cc_expiresAt e + 5 * minute)" if "ca_cache ca sni = Some e" for sni e
    using own.prems that by (simp add: ca_ok_def)
  have answered: "\<exists>t. issued create ca ?sni c t" if "live_leaf now ?sni ca = Some c" for now c
    using that cached by (auto elim!: live_leafD)
  show ?case
  proof (cases "live_leaf (t_lookup env) ?sni ca")
    case (Some c)
    with own answered show ?thesis
      by (auto simp: GetCertificate_def Let_def same_ca_def ca_ok_def)
  next
    case None
    with own.hyps have "issue create env ?sni ca = (r, ca')"
      by (simp add: GetCertificate_def Let_def)
    then show ?thesis
    proof (cases rule: issue_cases)
      case (live c)
      with own.prems answered show ?thesis
        by (auto simp: same_ca_def ca_ok_def)
    next
      case failed
      with own.prems show ?thesis
        by (auto simp: same_ca_def ca_ok_def)
    next
      case (fresh c)
      then have "same_ca ca ca'"
        by (simp add: same_ca_def)
      have "ca_ok create (ca', log @ [(?sni, r)])"
        using own.prems fresh(2-4) cached unfolding ca_ok_def by auto
      with fresh(2,3) \<open>same_ca ca ca'\<close> show ?thesis by auto
    qed
  qed
next
  case (shared name q log env ca r ca')
  have "ca' = ca" "r = q \<or> (\<exists>now. live_leaf now (server_sni name) ca = r \<and> r \<noteq> None)"
    using shared.hyps(2)
    by (cases "live_leaf (t_lookup env) (server_sni name) ca"; force simp: GetCertificate_def Let_def)+
  then show ?case
    using shared.hyps(1) shared.prems by (auto simp: ca_ok_def same_ca_def elim!: live_leafD)
qed

lemma reach_ok:
  assumes "(ca_step create)\<^sup>*\<^sup>* (ca, []) s" and "ca_cache ca = Map.empty"
  shows "ca_ok create s \<and> same_ca ca (fst s)"
  using assms(1)
proof (induction rule: rtranclp_induct)
  case base
  then show ?case using assms(2) by (simp add: ca_ok_def same_ca_def)
next
  case (step s s')
  then obtain name r where "ca_call create name r s s'"
    by (auto simp: ca_step_def)
  with call_ok [OF this] step.IH show ?case
    by (simp add: same_ca_def)
qed

section \<open>Properties\<close>

text \<open>C15. A client is only ever given a certificate for the name it asked for. Whatever calls run at the same
  time, the certificate a call returns was signed by the CA over a template whose common
  name and only DNS name are the name in the hello (\<open>unknown\<close> without one), that is for signatures
  of a server only and that ends no later than the CA; it carries the CA's certificate behind it and the private key it
  was made for.\<close>

theorem leaf_for_its_name:
  assumes "(ca_step create)\<^sup>*\<^sup>* (ca, []) s" and "ca_cache ca = Map.empty" and "ca_call create name (Some c) s s'"
  shows "\<exists>der tmpl k rand. create rand tmpl (ca_cert ca) k (ca_key ca) = Some der
    \<and> c = \<lparr>tc_Certificate = [der, xc_Raw (ca_cert ca)], tc_PrivateKey = k\<rparr>
    \<and> tp_CommonName tmpl = server_sni name \<and> tp_DNSNames tmpl = [server_sni name]
    \<and> tp_KeyUsage tmpl = KeyUsageDigitalSignature \<and> tp_ExtKeyUsage tmpl = [ExtKeyUsageServerAuth]
    \<and> tp_NotAfter tmpl \<le> xc_NotAfter (ca_cert ca)"
proof -
  note r = reach_ok [OF assms(1,2)]
  then have "\<exists>t. issued create (fst s) (server_sni name) c t"
    using call_ok [OF assms(3)] by blast
  then obtain t where "issued create ca (server_sni name) c t"
    using r by (auto simp: issued_cong)
  then obtain env serial k der where i:
    "create (gen_rand env) (leaf_template env serial (server_sni name) ca) (ca_cert ca) k (ca_key ca) = Some der"
    "c = \<lparr>tc_Certificate = [der, xc_Raw (ca_cert ca)], tc_PrivateKey = k\<rparr>"
    by (auto simp: issued_def)
  show ?thesis
    by (intro exI conjI) (rule i, rule i, auto simp: leaf_template_def leaf_not_after_def Let_def)
qed

definition sample_create :: "(nat, nat) create" where
  "sample_create rand tmpl parent k ck = Some (bytes_of (tp_CommonName tmpl))"

definition sample_ca :: "(nat, nat) ca" where
  "sample_ca = \<lparr>ca_cert = \<lparr>xc_Raw = [1], xc_NotAfter = 1000 * hour, xc_IsCA = True, xc_PublicKey = 7\<rparr>, ca_key = 7,
     ca_cache = Map.empty\<rparr>"

definition sample_gen :: "instant \<Rightarrow> nat gen_env" where
  "sample_gen now = \<lparr>t_lookup = now, t_recheck = now, t_after = now, t_before = now, gen_key = Some 3,
     gen_serial = Some 11, gen_rand = 5\<rparr>"

lemma sample_issue:
  "GetCertificate sample_create (sample_gen now) None ''a'' sample_ca =
     (Some \<lparr>tc_Certificate = [bytes_of ''a'', [1]], tc_PrivateKey = 3\<rparr>,
      sample_ca\<lparr>ca_cache := [''a'' \<mapsto> \<lparr>cc_tlsCert = \<lparr>tc_Certificate = [bytes_of ''a'', [1]], tc_PrivateKey = 3\<rparr>,
        cc_expiresAt = leaf_not_after now sample_ca - 5 * minute\<rparr>]\<rparr>)"
  by (simp add: GetCertificate_def live_leaf_def issue_def sample_create_def sample_ca_def sample_gen_def server_sni_def
      leaf_template_def leaf_not_after_def Let_def)

theorem leaf_for_its_name_witness:
  "\<exists>der tmpl k rand. sample_create rand tmpl (ca_cert sample_ca) k 7 = Some der
    \<and> \<lparr>tc_Certificate = [bytes_of ''a'', [1]], tc_PrivateKey = 3\<rparr>
        = \<lparr>tc_Certificate = [der, xc_Raw (ca_cert sample_ca)], tc_PrivateKey = k\<rparr>
    \<and> tp_CommonName tmpl = ''a'' \<and> tp_DNSNames tmpl = [''a''] \<and> tp_KeyUsage tmpl = KeyUsageDigitalSignature
    \<and> tp_ExtKeyUsage tmpl = [ExtKeyUsageServerAuth] \<and> tp_NotAfter tmpl \<le> 1000 * hour"
  using leaf_for_its_name [OF rtranclp.rtrancl_refl _ ca_call.own [OF sample_issue [of 0], of "[]"]]
  by (simp add: sample_ca_def server_sni_def)

text \<open>C33. A leaf is issued once and used until five minutes before its end. After a call that generated a
  certificate at a time \<open>t\<close>, every call for the name before the earlier of \<open>t\<close> plus 23
  hours and 55 minutes and the end of the CA minus five minutes returns that very
  certificate and leaves the cache as it is; a call at or after that time does not return
  it from the cache but generates anew.\<close>

theorem leaf_reused_until_expiry:
  assumes "live_leaf (t_recheck env) (server_sni name) ca = None" and "issue create env (server_sni name) ca = (Some c, ca')"
  shows "(if t_lookup env' < min (t_after env + 24 * hour) (xc_NotAfter (ca_cert ca)) - 5 * minute
    then GetCertificate create env' q name ca' = (Some c, ca')
    else GetCertificate create env' None name ca' = issue create env' (server_sni name) ca')"
  using assms(2)
proof (cases rule: issue_cases)
  case (fresh c')
  have "leaf_not_after (t_after env) ca = min (t_after env + 24 * hour) (xc_NotAfter (ca_cert ca))"
    by (auto simp: leaf_not_after_def Let_def)
  with fresh show ?thesis
    by (auto simp: GetCertificate_def live_leaf_def Let_def)
qed (use assms(1) in auto)

theorem leaf_reused_until_expiry_witness:
  "GetCertificate sample_create (sample_gen (23 * hour)) None ''a'' (snd (issue sample_create (sample_gen 0) ''a'' sample_ca))
     = (Some \<lparr>tc_Certificate = [bytes_of ''a'', [1]], tc_PrivateKey = 3\<rparr>, snd (issue sample_create (sample_gen 0) ''a'' sample_ca))"
proof -
  have i: "issue sample_create (sample_gen 0) (server_sni ''a'') sample_ca
      = (Some \<lparr>tc_Certificate = [bytes_of ''a'', [1]], tc_PrivateKey = 3\<rparr>, snd (issue sample_create (sample_gen 0) ''a'' sample_ca))"
    by (simp add: issue_def live_leaf_def sample_create_def sample_ca_def sample_gen_def leaf_template_def Let_def server_sni_def)
  have "live_leaf (t_recheck (sample_gen 0)) (server_sni ''a'') sample_ca = None"
    by (simp add: live_leaf_def sample_ca_def)
  from leaf_reused_until_expiry [OF this i, of "sample_gen (23 * hour)" None] show ?thesis
    by (simp add: sample_gen_def sample_ca_def hour_def minute_def server_sni_def split: if_splits)
qed

lemma parse_key_iff:
  "parse_key x kb = Some k \<longleftrightarrow>
     ParsePKCS8 x kb = Some k \<or> ParsePKCS8 x kb = None \<and> ParseEC x kb = Some k
     \<or> ParsePKCS8 x kb = None \<and> ParseEC x kb = None \<and> ParsePKCS1 x kb = Some k"
  by (simp add: parse_key_def split: option.split)

text \<open>A CA is loaded exactly when both files are there, the certificate parses and says it is a CA, the key
  is in one of the three formats (tried in the order PKCS 8, EC, PKCS 1) and can sign, and
  its public key is the certificate's; then nothing is cached yet. In every other case
  the result is an error, so that interception stays off.\<close>

theorem load_ca_exact:
  "LoadCA x = Inr ca \<longleftrightarrow>
     (\<exists>certPEM keyPEM cb kb pub der. ReadFile x ''tls.crt'' = Some certPEM \<and> ReadFile x ''tls.key'' = Some keyPEM
        \<and> pem_Decode x certPEM = Some cb \<and> pem_Decode x keyPEM = Some kb
        \<and> ParseCertificate x cb = Some (ca_cert ca) \<and> xc_IsCA (ca_cert ca)
        \<and> (ParsePKCS8 x kb = Some (ca_key ca)
            \<or> ParsePKCS8 x kb = None \<and> ParseEC x kb = Some (ca_key ca)
            \<or> ParsePKCS8 x kb = None \<and> ParseEC x kb = None \<and> ParsePKCS1 x kb = Some (ca_key ca))
        \<and> signer_Public x (ca_key ca) = Some pub
        \<and> MarshalPKIX x (xc_PublicKey (ca_cert ca)) = Some der \<and> MarshalPKIX x pub = Some der)
     \<and> ca_cache ca = Map.empty"
  (is "_ \<longleftrightarrow> ?rhs")
proof
  assume "LoadCA x = Inr ca"
  then show ?rhs
    by (auto simp: LoadCA_def parse_key_iff split: option.splits if_splits)
next
  assume ?rhs
  then show "LoadCA x = Inr ca"
    by (auto simp: LoadCA_def parse_key_def)
qed

end
