(* ===== verification/Attach_Contract.thy ===== *)
theory Attach_Contract
imports Latch_Prelude
begin

text \<open>
  The contract of the interface \<open>Attacher\<close> of \<open>internal/podveth/enforce.go\<close>: applying a
  desired set of interfaces leaves no other interface attached, and attaches every
  desired one whose attachment does not fail. \<open>can\<close> says for which interfaces an
  environment lets the attachment succeed.
\<close>

locale attacher =
  fixes attached :: "'s \<Rightarrow> 'i set"
    and ok :: "'s \<Rightarrow> bool"
    and can :: "'x \<Rightarrow> 'i \<Rightarrow> bool"
    and reconcile :: "'x \<Rightarrow> 'i list \<Rightarrow> 's \<Rightarrow> 's"
  assumes reconcile_upper: "ok s \<Longrightarrow> attached (reconcile x d s) \<subseteq> set d"
    and reconcile_keeps: "ok s \<Longrightarrow> attached s \<inter> set d \<subseteq> attached (reconcile x d s)"
    and reconcile_adds: "ok s \<Longrightarrow> i \<in> set d \<Longrightarrow> can x i \<Longrightarrow> i \<in> attached (reconcile x d s)"
    and reconcile_ok: "ok s \<Longrightarrow> ok (reconcile x d s)"
begin

lemma reconcile_all:
  assumes "ok s" and "\<forall>i \<in> set d. can x i"
  shows "attached (reconcile x d s) = set d"
  using reconcile_upper [OF assms(1)] reconcile_adds [OF assms(1)] assms(2) by blast

lemma reconcile_set:
  assumes "ok s" and "attached s = {}"
  shows "{i \<in> set d. can x i} \<subseteq> attached (reconcile x d s)"
  using reconcile_adds [OF assms(1)] by blast

lemma rounds_ok: "ok s \<Longrightarrow> ok (foldl (\<lambda>s (x, d). reconcile x d s) s rounds)"
  by (induction rounds arbitrary: s) (auto simp: reconcile_ok split: prod.splits)

text \<open>After any number of rounds only the last desired set counts.\<close>

lemma last_round:
  assumes "ok s" and "\<forall>i \<in> set d. can x i"
  shows "attached (foldl (\<lambda>s (x, d). reconcile x d s) s (rounds @ [(x, d)])) = set d"
  using reconcile_all [OF rounds_ok [OF assms(1)] assms(2)] by simp

end

end
