(* ===== verification/Iface_Manager.thy ===== *)
theory Iface_Manager
imports Attach_Contract
begin

text \<open>
  \<open>internal/iface/iface.go\<close>: the manager of the TC programs on the host ends of the
  pods' veth pairs. Attaching a program is a call of the kernel: \<open>tcx\<close> answers it for
  an interface and a direction with a link or an error. Besides the manager's map
  the state keeps the multiset of links that are open, so that a leaked link shows.
\<close>

section \<open>The definitions\<close>

datatype direction = Ingress | Egress

record 'l manager =
  links :: "(int \<times> 'l list) list"
  open_links :: "'l multiset"

definition new_manager :: "'l manager" where
  "new_manager = \<lparr>links = [], open_links = {#}\<rparr>"

type_synonym 'l tcx = "int \<Rightarrow> direction \<Rightarrow> 'l option"

definition open_link :: "'l \<Rightarrow> 'l manager \<Rightarrow> 'l manager" where
  "open_link l m = m\<lparr>open_links := add_mset l (open_links m)\<rparr>"

definition close_link :: "'l \<Rightarrow> 'l manager \<Rightarrow> 'l manager" where
  "close_link l m = m\<lparr>open_links := open_links m - {#l#}\<rparr>"

text \<open>Both programs or none: when the second attachment fails the first link is closed.\<close>

definition attachTCX :: "'l tcx \<Rightarrow> int \<Rightarrow> 'l manager \<Rightarrow> ('l \<times> 'l) option \<times> 'l manager" where
  "attachTCX tcx idx m =
     (case tcx idx Ingress of
        None \<Rightarrow> (None, m)
      | Some ing \<Rightarrow>
          let m1 = open_link ing m
          in case tcx idx Egress of
               None \<Rightarrow> (None, close_link ing m1)
             | Some egr \<Rightarrow> (Some (ing, egr), open_link egr m1))"

definition detach :: "int \<Rightarrow> 'l manager \<Rightarrow> 'l manager" where
  "detach idx m =
     (case map_of (links m) idx of
        None \<Rightarrow> m
      | Some ls \<Rightarrow> foldl (\<lambda>m l. close_link l m) (m\<lparr>links := AList.delete idx (links m)\<rparr>) ls)"

text \<open>The truth value says that no error came back.\<close>

definition attachIndex :: "'l tcx \<Rightarrow> int \<Rightarrow> 'l manager \<Rightarrow> bool \<times> 'l manager" where
  "attachIndex tcx idx m =
     (case map_of (links m) idx of
        Some ls \<Rightarrow> (True, m)
      | None \<Rightarrow>
          (case attachTCX tcx idx m of
             (None, m1) \<Rightarrow> (False, m1)
           | (Some (ing, egr), m1) \<Rightarrow> (True, m1\<lparr>links := AList.update idx [ing, egr] (links m1)\<rparr>)))"

fun attach_loop :: "'l tcx \<Rightarrow> int list \<Rightarrow> int list \<Rightarrow> 'l manager \<Rightarrow> 'l manager" where
  "attach_loop tcx current [] m = m"
| "attach_loop tcx current (idx # is) m =
     (if idx \<in> set current then attach_loop tcx current is m
      else attach_loop tcx current is (snd (attachIndex tcx idx m)))"

fun detach_loop :: "int list \<Rightarrow> int list \<Rightarrow> 'l manager \<Rightarrow> 'l manager" where
  "detach_loop desired [] m = m"
| "detach_loop desired (idx # is) m =
     (if idx \<in> set desired then detach_loop desired is m else detach_loop desired is (detach idx m))"

text \<open>\<open>desired\<close> is a set, given as a list without duplicates; both sets are walked in some order.\<close>

record 'l reconcile_env =
  re_tcx :: "'l tcx"
  re_desired_order :: "int order"
  re_current_order :: "int order"

definition Reconcile :: "'l reconcile_env \<Rightarrow> int list \<Rightarrow> 'l manager \<Rightarrow> 'l manager" where
  "Reconcile x desired m =
     (let current = keys (links m);
          m1 = attach_loop (re_tcx x) current (go_range (re_desired_order x) desired) m
      in detach_loop desired (go_range (re_current_order x) current) m1)"

text \<open>A deleted interface, as \<open>Watch\<close> receives it; other link updates are ignored.\<close>

definition watch_update :: "bool \<Rightarrow> int \<Rightarrow> 'l manager \<Rightarrow> 'l manager" where
  "watch_update is_dellink idx m = (if is_dellink then detach idx m else m)"

text \<open>
  The loop of \<open>Watch\<close>, over what its \<open>select\<close> receives; nothing happens when the
  subscription fails.
\<close>

datatype watch_event = Ctx_Done | Chan_Closed | Link_Update bool int

fun watch_loop :: "watch_event list \<Rightarrow> 'l manager \<Rightarrow> 'l manager" where
  "watch_loop [] m = m"
| "watch_loop (Ctx_Done # evs) m = m"
| "watch_loop (Chan_Closed # evs) m = m"
| "watch_loop (Link_Update is_dellink idx # evs) m = watch_loop evs (watch_update is_dellink idx m)"

definition Watch :: "bool \<Rightarrow> watch_event list \<Rightarrow> 'l manager \<Rightarrow> 'l manager" where
  "Watch subscribed evs m = (if subscribed then watch_loop evs m else m)"

text \<open>
  \<open>attachIndex\<close> gives up the lock while the kernel attaches the programs. \<open>attach_begin\<close>
  is its part up to there, \<open>attach_commit\<close> the entry made afterwards.
\<close>

definition attach_begin :: "'l tcx \<Rightarrow> int \<Rightarrow> 'l manager \<Rightarrow> ('l \<times> 'l) option \<times> 'l manager" where
  "attach_begin tcx idx m = (case map_of (links m) idx of Some ls \<Rightarrow> (None, m) | None \<Rightarrow> attachTCX tcx idx m)"

definition attach_commit :: "int \<Rightarrow> 'l \<times> 'l \<Rightarrow> 'l manager \<Rightarrow> 'l manager" where
  "attach_commit idx p m = m\<lparr>links := AList.update idx [fst p, snd p] (links m)\<rparr>"

section \<open>The invariant\<close>

text \<open>The open links are exactly those of the map: nothing leaks, nothing is closed twice.\<close>

definition links_ok :: "'l manager \<Rightarrow> bool" where
  "links_ok m \<longleftrightarrow> distinct (keys (links m)) \<and> open_links m = sum_list (map (mset \<circ> snd) (links m))"

definition attached_to :: "'l manager \<Rightarrow> int set" where
  "attached_to m = set (keys (links m))"

definition attachable :: "'l tcx \<Rightarrow> int \<Rightarrow> bool" where
  "attachable tcx idx \<longleftrightarrow> tcx idx Ingress \<noteq> None \<and> tcx idx Egress \<noteq> None"

lemma new_manager_ok [invar_intros]: "links_ok new_manager"
  by (simp add: links_ok_def new_manager_def)

lemma close_links:
  "links (foldl (\<lambda>m l. close_link l m) m ls) = links m"
  "open_links (foldl (\<lambda>m l. close_link l m) m ls) = open_links m - mset ls"
  by (induction ls arbitrary: m) (simp_all add: close_link_def)

lemma attachTCX_None: "attachTCX tcx idx m = (None, m') \<Longrightarrow> m' = m \<and> \<not> attachable tcx idx"
  by (auto simp: attachTCX_def attachable_def Let_def open_link_def close_link_def split: option.splits)

lemma attachTCX_Some:
  "attachTCX tcx idx m = (Some (ing, egr), m') \<Longrightarrow>
     links m' = links m \<and> open_links m' = open_links m + {#ing, egr#} \<and> attachable tcx idx"
  by (auto simp: attachTCX_def attachable_def Let_def open_link_def split: option.splits)

lemma detach_links: "links (detach idx m) = AList.delete idx (links m)"
  by (simp add: detach_def close_links map_of_eq_None_iff delete_absent split: option.split)

lemma attached_detach [simp]: "attached_to (detach idx m) = attached_to m - {idx}"
  by (auto simp: attached_to_def detach_links AList.delete_keys)

lemma detach_ok [invar_intros]:
  assumes "links_ok m"
  shows "links_ok (detach idx m)"
proof (cases "map_of (links m) idx")
  case None
  with assms show ?thesis by (simp add: detach_def)
next
  case (Some ls)
  have "sum_list (map (mset \<circ> snd) (links m)) = mset ls + sum_list (map (mset \<circ> snd) (AList.delete idx (links m)))"
    using sum_list_delete [of "links m" idx ls "mset \<circ> snd"] assms Some by (simp add: links_ok_def)
  with assms Some show ?thesis
    by (simp add: links_ok_def detach_def close_links)
qed

lemma attachIndex_spec:
  assumes "links_ok m" and "attachIndex tcx idx m = (b, m')"
  shows "links_ok m'" "attached_to m' = (if b then insert idx (attached_to m) else attached_to m)"
    "b \<longleftrightarrow> idx \<in> attached_to m \<or> attachable tcx idx"
proof -
  have "links_ok m' \<and> attached_to m' = (if b then insert idx (attached_to m) else attached_to m)
    \<and> (b \<longleftrightarrow> idx \<in> attached_to m \<or> attachable tcx idx)"
  proof (cases "map_of (links m) idx")
    case (Some ls)
    then have "idx \<in> attached_to m"
      by (metis attached_to_def map_of_eq_None_iff image_set option.distinct(1))
    with assms Some show ?thesis by (auto simp: attachIndex_def)
  next
    case None
    then have absent: "idx \<notin> set (keys (links m))"
      by (simp add: map_of_eq_None_iff)
    obtain r m1 where tcx: "attachTCX tcx idx m = (r, m1)"
      by (cases "attachTCX tcx idx m")
    show ?thesis
    proof (cases r)
      case None
      with tcx attachTCX_None [of tcx idx m m1] assms \<open>map_of (links m) idx = None\<close> absent show ?thesis
        by (simp add: attachIndex_def attached_to_def)
    next
      case (Some p)
      obtain ing egr where p: "p = (ing, egr)"
        by (cases p)
      have spec: "links m1 = links m" "open_links m1 = open_links m + {#ing, egr#}" "attachable tcx idx"
        using attachTCX_Some [of tcx idx m ing egr m1] tcx Some p by simp_all
      have m': "b" "m' = m1\<lparr>links := AList.update idx [ing, egr] (links m1)\<rparr>"
        using assms(2) tcx Some p \<open>map_of (links m) idx = None\<close> by (simp_all add: attachIndex_def)
      have "sum_list (map (mset \<circ> snd) (AList.update idx [ing, egr] (links m)))
          = sum_list (map (mset \<circ> snd) (links m)) + {#ing, egr#}"
        using sum_list_update_absent [OF absent, of "mset \<circ> snd" "[ing, egr]"] by simp
      then show ?thesis
        using assms(1) spec m' absent by (simp add: links_ok_def attached_to_def update_absent)
    qed
  qed
  then show "links_ok m'" "attached_to m' = (if b then insert idx (attached_to m) else attached_to m)"
    "b \<longleftrightarrow> idx \<in> attached_to m \<or> attachable tcx idx" by blast+
qed

lemma attach_loop_spec:
  assumes "links_ok m"
  shows "links_ok (attach_loop tcx current is m)
    \<and> attached_to (attach_loop tcx current is m) =
        attached_to m \<union> {i \<in> set is. i \<notin> set current \<and> attachable tcx i}"
  using assms
proof (induction tcx current "is" m rule: attach_loop.induct)
  case (2 tcx current idx "is" m)
  show ?case
  proof (cases "idx \<in> set current")
    case True
    with 2 show ?thesis by auto
  next
    case False
    obtain b m' where a: "attachIndex tcx idx m = (b, m')"
      by (cases "attachIndex tcx idx m")
    from attachIndex_spec [OF "2.prems" a] 2(2) [OF False] a False show ?thesis
      by auto
  qed
qed simp

lemma detach_loop_spec:
  "links_ok m \<Longrightarrow> links_ok (detach_loop desired is m)
    \<and> attached_to (detach_loop desired is m) = attached_to m - {i \<in> set is. i \<notin> set desired}"
  by (induction desired "is" m rule: detach_loop.induct) (auto simp: detach_ok)

lemma Reconcile_spec:
  assumes "links_ok m"
  shows "links_ok (Reconcile x desired m)
    \<and> attached_to (Reconcile x desired m) = {i \<in> set desired. i \<in> attached_to m \<or> attachable (re_tcx x) i}"
proof -
  let ?m1 = "attach_loop (re_tcx x) (keys (links m)) (go_range (re_desired_order x) desired) m"
  have m1: "links_ok ?m1" "attached_to ?m1 = attached_to m \<union> {i \<in> set desired. i \<notin> attached_to m \<and> attachable (re_tcx x) i}"
    using attach_loop_spec [OF assms] by (simp_all add: attached_to_def)
  from detach_loop_spec [OF m1(1), of desired "go_range (re_current_order x) (keys (links m))"] m1(2) show ?thesis
    by (auto simp: Reconcile_def Let_def attached_to_def)
qed

interpretation mgr: attacher attached_to links_ok "\<lambda>x. attachable (re_tcx x)" Reconcile
  by unfold_locales (use Reconcile_spec in fastforce)+

section \<open>The steps of the manager\<close>

text \<open>Reconciliations and the link updates of \<open>Watch\<close>, in any order.\<close>

inductive manager_step :: "'l manager \<Rightarrow> 'l manager \<Rightarrow> bool" where
  reconcile: "manager_step m (Reconcile x desired m)"
| update: "manager_step m (watch_update b idx m)"

inductive_cases manager_stepE: "manager_step m m'"

lemma manager_step_ok: "manager_step m m' \<Longrightarrow> links_ok m \<Longrightarrow> links_ok m'"
  by (induction rule: manager_step.induct) (auto simp: Reconcile_spec watch_update_def detach_ok)

lemma manager_steps_ok: "manager_step\<^sup>*\<^sup>* new_manager m \<Longrightarrow> links_ok m"
  by (induction rule: rtranclp_induct) (auto simp: new_manager_ok manager_step_ok)

lemma watch_loop_ok: "links_ok m \<Longrightarrow> links_ok (watch_loop evs m)"
  by (induction evs m rule: watch_loop.induct) (auto simp: watch_update_def detach_ok)

text \<open>Until it ends, the loop detaches exactly the interfaces reported as deleted.\<close>

fun reported :: "watch_event list \<Rightarrow> int set" where
  "reported [] = {}"
| "reported (Link_Update is_dellink idx # evs) = (if is_dellink then {idx} else {}) \<union> reported evs"
| "reported (_ # evs) = {}"

lemma attached_watch_loop: "attached_to (watch_loop evs m) = attached_to m - reported evs"
  by (induction evs m rule: watch_loop.induct) (auto simp: watch_update_def)

section \<open>Properties\<close>

text \<open>Watching releases exactly what is gone: of the attached interfaces, those the kernel reports as deleted
  before the context ends or the channel closes are detached and no others, and no link
  leaks; without a subscription nothing is.\<close>

theorem watch_exact:
  assumes "links_ok m"
  shows "links_ok (Watch subscribed evs m)
    \<and> attached_to (Watch subscribed evs m) = attached_to m - (if subscribed then reported evs else {})"
  using watch_loop_ok [OF assms] by (simp add: Watch_def assms attached_watch_loop)

theorem watch_exact_witness:
  "attached_to (Watch True [Link_Update True 3, Ctx_Done, Link_Update True 4] new_manager) = {}"
  using watch_exact [OF new_manager_ok, of True "[Link_Update True 3, Ctx_Done, Link_Update True 4]", THEN conjunct2]
  by (simp add: attached_to_def new_manager_def)

text \<open>No link leaks: after any sequence of reconciliations and link updates, whichever attachments failed
  on the way, the open links are exactly those the manager has recorded, so that a
  program whose partner could not be attached was closed again, and every link of a
  detached interface is closed once.\<close>

theorem manager_no_leak:
  assumes "manager_step\<^sup>*\<^sup>* new_manager m"
  shows "open_links m = sum_list (map (mset \<circ> snd) (links m)) \<and> distinct (keys (links m))"
  using manager_steps_ok [OF assms] by (simp add: links_ok_def)

definition sample_tcx :: "int \<Rightarrow> direction \<Rightarrow> (int \<times> direction) option" where
  "sample_tcx i d = (if i = 3 \<and> d = Egress then None else Some (i, d))"

definition sample_reconcile :: "(int \<times> direction) reconcile_env" where
  "sample_reconcile = \<lparr>re_tcx = sample_tcx, re_desired_order = id, re_current_order = id\<rparr>"

theorem manager_no_leak_witness:
  "open_links (Reconcile sample_reconcile [2, 3] new_manager) = {#(2, Ingress), (2, Egress)#}"
proof -
  have "manager_step\<^sup>*\<^sup>* new_manager (Reconcile sample_reconcile [2, 3] new_manager)"
    by (rule r_into_rtranclp) (rule manager_step.reconcile)
  moreover have "links (Reconcile sample_reconcile [2, 3] new_manager) = [(2, [(2, Ingress), (2, Egress)])]"
    by (simp add: Reconcile_def sample_reconcile_def new_manager_def go_range_def attachIndex_def attachTCX_def
        sample_tcx_def open_link_def close_link_def Let_def)
  ultimately show ?thesis
    using manager_no_leak by fastforce
qed

text \<open>A reconciliation leaves attached exactly the desired interfaces that were attached before or can be
  attached now, whatever order the two sets are walked in; one that fails does not keep
  the others from being attached or detached.\<close>

theorem reconcile_exact:
  assumes "links_ok m"
  shows "attached_to (Reconcile x desired m) = {i \<in> set desired. i \<in> attached_to m \<or> attachable (re_tcx x) i}
    \<and> links_ok (Reconcile x desired m)"
  using Reconcile_spec [OF assms] by blast

theorem reconcile_exact_witness: "attached_to (Reconcile sample_reconcile [2, 3] new_manager) = {2}"
  using reconcile_exact [OF new_manager_ok, of sample_reconcile "[2, 3]"]
  by (auto simp: attached_to_def new_manager_def sample_reconcile_def attachable_def sample_tcx_def)

text \<open>A deletion that overtakes an attachment blocks the index. When the kernel reports an interface gone
  after its programs were attached but before the entry was made, the report finds nothing
  to detach and the entry is made for an interface that no longer exists; a new interface
  that gets the index counts as attached, and no program is ever attached to it while it
  stays desired. Without such a report the two parts are the whole of \<open>attachIndex\<close>.\<close>

theorem late_delete_blocks_index:
  assumes "attach_begin tcx idx m = (Some p, m1)"
  shows "snd (attachIndex tcx idx m) = attach_commit idx p m1
    \<and> watch_update True idx m1 = m1
    \<and> attachIndex tcx' idx (attach_commit idx p (watch_update True idx m1))
        = (True, attach_commit idx p (watch_update True idx m1))"
proof -
  have absent: "map_of (links m) idx = None" and a: "attachTCX tcx idx m = (Some p, m1)"
    using assms by (auto simp: attach_begin_def split: option.splits)
  obtain ing egr where p: "p = (ing, egr)"
    by (cases p)
  have "map_of (links m1) idx = None"
    using attachTCX_Some [of tcx idx m ing egr m1] a p absent by simp
  then have "watch_update True idx m1 = m1"
    by (simp add: watch_update_def detach_def)
  then show ?thesis
    using absent a p by (simp add: attachIndex_def attach_commit_def map_of_update)
qed

theorem late_delete_blocks_index_witness:
  "attachIndex (\<lambda>i d. None) 2 (attach_commit 2 ((2, Ingress), (2, Egress)) (watch_update True 2
      (snd (attach_begin sample_tcx 2 new_manager))))
    = (True, attach_commit 2 ((2, Ingress), (2, Egress)) (watch_update True 2 (snd (attach_begin sample_tcx 2 new_manager))))"
proof -
  have "attach_begin sample_tcx 2 new_manager = (Some ((2, Ingress), (2, Egress)), snd (attach_begin sample_tcx 2 new_manager))"
    by (simp add: attach_begin_def attachTCX_def sample_tcx_def new_manager_def open_link_def Let_def)
  from late_delete_blocks_index [OF this, of "\<lambda>i d. None"] show ?thesis by blast
qed

end
