(* ===== verification/Pod_Veth.thy ===== *)
theory Pod_Veth
imports Attach_Contract Iface_Manager
begin

text \<open>
  \<open>internal/podveth\<close>: finding the host ends of the pods' interfaces (\<open>resolver.go\<close>) and
  keeping the programs attached to those of the covered pods (\<open>enforce.go\<close>). The calls
  of the kernel and of the file system are data: a \<open>proc_entry\<close> is what one entry of
  \<open>/proc\<close> answers to them. \<open>Enforce\<close> is a client of the interface \<open>Attacher\<close>, so that
  its lemmas are proved in the locale \<open>attacher\<close>.
\<close>

section \<open>The resolver\<close>

definition NewResolver :: "string \<Rightarrow> string" where
  "NewResolver procRoot = (if procRoot = [] then ''/proc'' else procRoot)"

record addr =
  a_IP :: "string option"
  a_loopback :: bool

record link_info =
  l_Type :: string
  l_ParentIndex :: int
  l_addrs :: "addr list option"

record netns =
  n_opened :: bool
  n_handle :: bool
  n_link :: "link_info option"

record proc_entry =
  pe_IsDir :: bool
  pe_inode :: "nat option"
  pe_netns :: netns

type_synonym mapping = "(string \<times> int) list"

fun record_addrs :: "int \<Rightarrow> addr list \<Rightarrow> mapping \<Rightarrow> mapping" where
  "record_addrs idx [] out = out"
| "record_addrs idx (a # as) out =
     (case a_IP a of
        None \<Rightarrow> record_addrs idx as out
      | Some ip \<Rightarrow>
          if a_loopback a then record_addrs idx as out else record_addrs idx as (AList.update ip idx out))"

definition inspectNetns :: "netns \<Rightarrow> mapping \<Rightarrow> mapping" where
  "inspectNetns n out =
     (if \<not> n_opened n then out
      else if \<not> n_handle n then out
      else case n_link n of
             None \<Rightarrow> out
           | Some l \<Rightarrow>
               if l_Type l \<noteq> ''veth'' then out
               else if l_ParentIndex l = 0 then out
               else (case l_addrs l of None \<Rightarrow> out | Some as \<Rightarrow> record_addrs (l_ParentIndex l) as out))"

fun resolve_loop :: "proc_entry list \<Rightarrow> nat list \<Rightarrow> mapping \<Rightarrow> mapping" where
  "resolve_loop [] seen out = out"
| "resolve_loop (e # es) seen out =
     (if \<not> pe_IsDir e then resolve_loop es seen out
      else case pe_inode e of
             None \<Rightarrow> resolve_loop es seen out
           | Some i \<Rightarrow>
               if i \<in> set seen then resolve_loop es seen out
               else resolve_loop es (i # seen) (inspectNetns (pe_netns e) out))"

text \<open>\<open>None\<close> when the directory cannot be read.\<close>

definition Resolve :: "proc_entry list option \<Rightarrow> mapping option" where
  "Resolve entries = map_option (\<lambda>es. resolve_loop es [] []) entries"

section \<open>Enforcing\<close>

fun desired_loop ::
  "(string \<Rightarrow> string \<times> labels) \<Rightarrow> (string \<Rightarrow> labels \<Rightarrow> bool) \<Rightarrow> (string \<times> int) list \<Rightarrow> int list \<Rightarrow> int list" where
  "desired_loop nsFn coveredFn [] d = d"
| "desired_loop nsFn coveredFn ((ip, idx) # r) d =
     (case nsFn ip of
        (ns, ls) \<Rightarrow>
          if ns = [] then desired_loop nsFn coveredFn r d
          else if coveredFn ns ls then desired_loop nsFn coveredFn r (List.insert idx d)
          else desired_loop nsFn coveredFn r d)"

text \<open>The attacher is the parameter \<open>reconcile\<close>; a failed \<open>Resolve\<close> skips the round.\<close>

definition enforceOnce ::
  "(int list \<Rightarrow> 's \<Rightarrow> 's) \<Rightarrow> (string \<times> int) order \<Rightarrow> mapping option \<Rightarrow> (string \<Rightarrow> string \<times> labels) \<Rightarrow>
   (string \<Rightarrow> labels \<Rightarrow> bool) \<Rightarrow> 's \<Rightarrow> 's" where
  "enforceOnce reconcile ord mappings nsFn coveredFn s =
     (case mappings of
        None \<Rightarrow> s
      | Some m \<Rightarrow> reconcile (desired_loop nsFn coveredFn (go_range ord m) []) s)"

text \<open>
  The loop: one round at the start, then one for every tick and every trigger; a round
  is given by what it finds. \<open>None\<close> is the end of the context.
\<close>

record 'x round =
  rd_env :: 'x
  rd_order :: "(string \<times> int) order"
  rd_mappings :: "mapping option"
  rd_nsFn :: "string \<Rightarrow> string \<times> labels"
  rd_covered :: "string \<Rightarrow> labels \<Rightarrow> bool"

definition enforce_round :: "('x \<Rightarrow> int list \<Rightarrow> 's \<Rightarrow> 's) \<Rightarrow> 'x round \<Rightarrow> 's \<Rightarrow> 's" where
  "enforce_round reconcile r = enforceOnce (reconcile (rd_env r)) (rd_order r) (rd_mappings r) (rd_nsFn r) (rd_covered r)"

fun enforce_loop :: "('x \<Rightarrow> int list \<Rightarrow> 's \<Rightarrow> 's) \<Rightarrow> 'x round option list \<Rightarrow> 's \<Rightarrow> 's" where
  "enforce_loop reconcile [] s = s"
| "enforce_loop reconcile (None # rs) s = s"
| "enforce_loop reconcile (Some r # rs) s = enforce_loop reconcile rs (enforce_round reconcile r s)"

definition Enforce :: "('x \<Rightarrow> int list \<Rightarrow> 's \<Rightarrow> 's) \<Rightarrow> 'x round \<Rightarrow> 'x round option list \<Rightarrow> 's \<Rightarrow> 's" where
  "Enforce reconcile first rs s = enforce_loop reconcile rs (enforce_round reconcile first s)"

section \<open>What is desired\<close>

definition covered_hosts :: "(string \<Rightarrow> string \<times> labels) \<Rightarrow> (string \<Rightarrow> labels \<Rightarrow> bool) \<Rightarrow> mapping \<Rightarrow> int set" where
  "covered_hosts nsFn coveredFn m =
     {idx. \<exists>ip. (ip, idx) \<in> set m \<and> fst (nsFn ip) \<noteq> [] \<and> coveredFn (fst (nsFn ip)) (snd (nsFn ip))}"

lemma set_desired_loop: "set (desired_loop nsFn coveredFn m d) = set d \<union> covered_hosts nsFn coveredFn m"
proof (induction m arbitrary: d)
  case Nil
  then show ?case by (simp add: covered_hosts_def)
next
  case (Cons p m)
  obtain ip idx ns ls where p: "p = (ip, idx)" "nsFn ip = (ns, ls)"
    by (cases p; cases "nsFn (fst p)") auto
  have "covered_hosts nsFn coveredFn (p # m) =
      (if ns \<noteq> [] \<and> coveredFn ns ls then {idx} else {}) \<union> covered_hosts nsFn coveredFn m"
    using p by (auto simp: covered_hosts_def)
  with Cons p show ?case by auto
qed

lemma covered_hosts_range [simp]: "covered_hosts nsFn coveredFn (go_range ord m) = covered_hosts nsFn coveredFn m"
  by (simp add: covered_hosts_def)

text \<open>The client's side: what enforcing gives for every attacher of interface indexes.\<close>

locale enforcer = attacher attached ok can reconcile
  for attached :: "'s \<Rightarrow> int set"
    and ok :: "'s \<Rightarrow> bool"
    and can :: "'x \<Rightarrow> int \<Rightarrow> bool"
    and reconcile :: "'x \<Rightarrow> int list \<Rightarrow> 's \<Rightarrow> 's"
begin

lemma once_upper:
  "ok s \<Longrightarrow> attached (enforceOnce (reconcile x) ord (Some m) nsFn cov s) \<subseteq> covered_hosts nsFn cov m"
  using reconcile_upper [of s x "desired_loop nsFn cov (go_range ord m) []"] by (simp add: enforceOnce_def set_desired_loop)

lemma once_adds:
  "ok s \<Longrightarrow> i \<in> covered_hosts nsFn cov m \<Longrightarrow> can x i \<Longrightarrow> i \<in> attached (enforceOnce (reconcile x) ord (Some m) nsFn cov s)"
  using reconcile_adds [of s i "desired_loop nsFn cov (go_range ord m) []" x] by (simp add: enforceOnce_def set_desired_loop)

lemma once_keeps:
  "ok s \<Longrightarrow> i \<in> covered_hosts nsFn cov m \<Longrightarrow> i \<in> attached s \<Longrightarrow> i \<in> attached (enforceOnce (reconcile x) ord (Some m) nsFn cov s)"
  using reconcile_keeps [of s "desired_loop nsFn cov (go_range ord m) []" x] by (auto simp: enforceOnce_def set_desired_loop)

lemma once_ok: "ok s \<Longrightarrow> ok (enforceOnce (reconcile x) ord mappings nsFn cov s)"
  by (simp add: enforceOnce_def reconcile_ok split: option.split)

lemma round_ok: "ok s \<Longrightarrow> ok (enforce_round reconcile r s)"
  by (simp add: enforce_round_def once_ok)

lemma loop_ok: "ok s \<Longrightarrow> ok (enforce_loop reconcile rs s)"
proof (induction rs arbitrary: s)
  case (Cons q rs)
  then show ?case by (cases q) (simp_all add: round_ok)
qed simp

lemma enforce_ok: "ok s \<Longrightarrow> ok (Enforce reconcile r rs s)"
  by (simp add: Enforce_def loop_ok round_ok)

end

lemma enforce_loop_skip:
  "\<forall>q \<in> set rs. \<exists>r. q = Some r \<and> rd_mappings r = None \<Longrightarrow> enforce_loop reconcile rs s = s"
  by (induction reconcile rs s rule: enforce_loop.induct) (auto simp: enforce_round_def enforceOnce_def)

lemma enforce_loop_append:
  "None \<notin> set as \<Longrightarrow> enforce_loop reconcile (as @ bs) s = enforce_loop reconcile bs (enforce_loop reconcile as s)"
  by (induction reconcile as s rule: enforce_loop.induct) simp_all

interpretation enf: enforcer attached_to links_ok "\<lambda>x. attachable (re_tcx x)" Reconcile
  by unfold_locales

section \<open>What the resolver finds\<close>

definition host_of :: "netns \<Rightarrow> string \<Rightarrow> int \<Rightarrow> bool" where
  "host_of n ip idx \<longleftrightarrow> n_opened n \<and> n_handle n \<and> idx \<noteq> 0
     \<and> (\<exists>l as. n_link n = Some l \<and> l_Type l = ''veth'' \<and> l_ParentIndex l = idx \<and> l_addrs l = Some as
          \<and> (\<exists>a \<in> set as. a_IP a = Some ip \<and> \<not> a_loopback a))"

lemma record_addrs_distinct: "distinct (keys out) \<Longrightarrow> distinct (keys (record_addrs idx as out))"
  by (induction "as" arbitrary: out) (simp_all split: option.split)

lemma record_addrs_mem:
  "map_of (record_addrs idx as out) ip = Some i \<Longrightarrow>
     map_of out ip = Some i \<or> i = idx \<and> (\<exists>a \<in> set as. a_IP a = Some ip \<and> \<not> a_loopback a)"
proof (induction idx as out rule: record_addrs.induct)
  case (2 idx a as out)
  show ?case
  proof (cases "a_IP a = None \<or> a_loopback a")
    case True
    then have "record_addrs idx (a # as) out = record_addrs idx as out"
      by (auto split: option.split)
    with 2 True show ?thesis by (cases "a_IP a") auto
  next
    case False
    then obtain p where "a_IP a = Some p" "\<not> a_loopback a"
      by auto
    with 2 show ?thesis by (auto simp: map_of_update split: if_splits)
  qed
qed simp

lemma inspect_distinct: "distinct (keys out) \<Longrightarrow> distinct (keys (inspectNetns n out))"
  by (simp add: inspectNetns_def record_addrs_distinct split: option.split)

lemma inspect_mem: "map_of (inspectNetns n out) ip = Some i \<Longrightarrow> map_of out ip = Some i \<or> host_of n ip i"
  by (auto simp: inspectNetns_def host_of_def split: if_splits option.splits dest!: record_addrs_mem)

lemma resolve_loop_distinct: "distinct (keys out) \<Longrightarrow> distinct (keys (resolve_loop es seen out))"
  by (induction es arbitrary: seen out) (simp_all add: inspect_distinct split: option.split)

lemma resolve_loop_mem:
  "map_of (resolve_loop es seen out) ip = Some i \<Longrightarrow>
     map_of out ip = Some i \<or> (\<exists>e \<in> set es. pe_IsDir e \<and> pe_inode e \<noteq> None \<and> host_of (pe_netns e) ip i)"
proof (induction es arbitrary: seen out)
  case (Cons e es)
  have "resolve_loop (e # es) seen out = resolve_loop es seen out
    \<or> pe_IsDir e \<and> pe_inode e \<noteq> None
      \<and> (\<exists>n. resolve_loop (e # es) seen out = resolve_loop es (n # seen) (inspectNetns (pe_netns e) out))"
    by (auto split: option.split)
  then consider "map_of (resolve_loop es seen out) ip = Some i"
    | n where "pe_IsDir e" "pe_inode e \<noteq> None" "map_of (resolve_loop es (n # seen) (inspectNetns (pe_netns e) out)) ip = Some i"
    using Cons.prems by fastforce
  then show ?case
  proof cases
    case 1
    from Cons.IH [OF this] show ?thesis by auto
  next
    case 2
    from Cons.IH [OF 2(3)] 2(1,2) show ?thesis by (auto dest: inspect_mem)
  qed
qed simp

section \<open>Properties\<close>

text \<open>C40. What the resolver reports is true and never ambiguous: every address occurs once, with the non-zero
  index of the host end of a veth interface that carries the address in some network
  namespace under the root; loopback addresses and interfaces of other types never
  appear.\<close>

theorem resolve_sound:
  assumes "Resolve entries = Some m"
  shows "distinct (keys m)
    \<and> (\<forall>(ip, idx) \<in> set m. \<exists>es. entries = Some es \<and> (\<exists>e \<in> set es. pe_IsDir e \<and> host_of (pe_netns e) ip idx))"
proof -
  obtain es where es: "entries = Some es" "m = resolve_loop es [] []"
    using assms by (auto simp: Resolve_def)
  have d: "distinct (keys m)"
    by (simp add: es(2) resolve_loop_distinct)
  moreover have "\<exists>e \<in> set es. pe_IsDir e \<and> host_of (pe_netns e) ip idx" if "(ip, idx) \<in> set m" for ip idx
    using resolve_loop_mem [of es "[]" "[]" ip idx] that d es(2) by auto
  ultimately show ?thesis
    using es(1) by blast
qed

definition sample_proc :: proc_entry where
  "sample_proc =
     \<lparr>pe_IsDir = True, pe_inode = Some 1,
      pe_netns = \<lparr>n_opened = True, n_handle = True,
        n_link = Some \<lparr>l_Type = ''veth'', l_ParentIndex = 7, l_addrs = Some [\<lparr>a_IP = Some ''10.0.0.7'', a_loopback = False\<rparr>]\<rparr>\<rparr>\<rparr>"

theorem resolve_sound_witness: "host_of (pe_netns sample_proc) ''10.0.0.7'' 7"
proof -
  have "Resolve (Some [sample_proc, sample_proc]) = Some [(''10.0.0.7'', 7)]"
    by (simp add: Resolve_def sample_proc_def inspectNetns_def)
  from resolve_sound [OF this] show ?thesis by auto
qed

text \<open>C23. Enforcement is exact: after any rounds, if the last one that could read \<open>/proc\<close> could attach what it
  wanted, the interfaces attached are exactly those on which the round found an address
  whose pod is known and covered; rounds that fail to read change nothing.\<close>

theorem enforce_exact:
  assumes "links_ok s" and "None \<notin> set before" and "rd_mappings r = Some m"
    and "\<forall>q \<in> set after. \<exists>r. q = Some r \<and> rd_mappings r = None"
    and "\<forall>i \<in> covered_hosts (rd_nsFn r) (rd_covered r) m. attachable (re_tcx (rd_env r)) i"
  shows "attached_to (Enforce Reconcile first (before @ Some r # after) s) = covered_hosts (rd_nsFn r) (rd_covered r) m"
proof -
  let ?s = "enforce_loop Reconcile before (enforce_round Reconcile first s)"
  have ok: "links_ok ?s"
    using assms(1) by (simp add: enf.loop_ok enf.round_ok)
  have "Enforce Reconcile first (before @ Some r # after) s = enforce_round Reconcile r ?s"
    by (simp add: Enforce_def enforce_loop_append [OF assms(2)] enforce_loop_skip [OF assms(4)])
  also have "\<dots> = enforceOnce (Reconcile (rd_env r)) (rd_order r) (Some m) (rd_nsFn r) (rd_covered r) ?s"
    by (simp add: enforce_round_def assms(3))
  finally have eq: "Enforce Reconcile first (before @ Some r # after) s =
      enforceOnce (Reconcile (rd_env r)) (rd_order r) (Some m) (rd_nsFn r) (rd_covered r) ?s" .
  show ?thesis
    unfolding eq
  proof (rule equalityI)
    show "attached_to (enforceOnce (Reconcile (rd_env r)) (rd_order r) (Some m) (rd_nsFn r) (rd_covered r) ?s)
        \<subseteq> covered_hosts (rd_nsFn r) (rd_covered r) m"
      by (rule enf.once_upper [OF ok])
    show "covered_hosts (rd_nsFn r) (rd_covered r) m
        \<subseteq> attached_to (enforceOnce (Reconcile (rd_env r)) (rd_order r) (Some m) (rd_nsFn r) (rd_covered r) ?s)"
      using assms(5) by (intro subsetI enf.once_adds [OF ok]) simp_all
  qed
qed

definition sample_round :: "mapping option \<Rightarrow> (int \<times> direction) reconcile_env round" where
  "sample_round m =
     \<lparr>rd_env = sample_reconcile, rd_order = id, rd_mappings = m, rd_nsFn = (\<lambda>_. (''a'', Map.empty)), rd_covered = (\<lambda>ns _. ns = ''a'')\<rparr>"

theorem enforce_exact_witness:
  "attached_to (Enforce Reconcile (sample_round (Some [(''10.0.0.1'', 9)]))
     [Some (sample_round (Some [(''10.0.0.7'', 7)])), Some (sample_round None)] new_manager) = {7}"
proof -
  have "attached_to (Enforce Reconcile (sample_round (Some [(''10.0.0.1'', 9)]))
      ([] @ Some (sample_round (Some [(''10.0.0.7'', 7)])) # [Some (sample_round None)]) new_manager)
    = covered_hosts (rd_nsFn (sample_round (Some [(''10.0.0.7'', 7)]))) (rd_covered (sample_round (Some [(''10.0.0.7'', 7)]))) [(''10.0.0.7'', 7)]"
    by (rule enforce_exact)
      (auto simp: new_manager_ok sample_round_def covered_hosts_def sample_reconcile_def attachable_def sample_tcx_def)
  then show ?thesis
    by (simp add: covered_hosts_def sample_round_def)
qed

end
