(* ===== verification/K8s_Watcher.thy ===== *)
theory K8s_Watcher
imports Cache_Policy Cache_Contract
begin

text \<open>
  \<open>internal/k8s/watcher.go\<close> with the types of \<open>api/v1alpha1/types.go\<close>: the pods and
  the CachePolicy objects the controller knows, and the policy it publishes. What
  the Kubernetes libraries do is given to the operations: the objects they deliver,
  whether an object could be decoded, and \<open>LabelSelectorAsSelector\<close>, the parameter
  \<open>as_sel\<close> (\<open>None\<close> for an invalid selector). Both
  collections are exact maps in the sense of \<open>exact_map\<close>: an object replaces the one
  with its key, a deletion removes it.
\<close>

section \<open>The objects\<close>

record policy_rule =
  pr_Host :: string
  pr_Port :: uint16
  pr_Methods :: "string list"
  pr_Paths :: "string list"
  pr_TTL :: int64
  pr_MaxBodyBytes :: int64
  pr_VaryHeaders :: "string list"
  pr_CacheBody :: bool

record 's cache_policy =
  cp_Namespace :: string
  cp_Name :: string
  cp_PodSelector :: 's
  cp_Rules :: "policy_rule list"

record pod_meta =
  pm_Namespace :: string
  pm_Labels :: labels

record pod =
  pod_IP :: string
  pod_Namespace :: string
  pod_Labels :: labels

text \<open>
  \<open>polMap\<close> is a map from namespaces to lists, walked by \<open>rebuild\<close>. What the callbacks
  \<open>onChange\<close> and \<open>notify\<close> receive is recorded in order.
\<close>

datatype w_effect = Published policy | Notified

record 's watcher =
  podMeta :: "string \<rightharpoonup> pod_meta"
  polMap :: "(string \<times> 's cache_policy list) list"
  w_has_notify :: bool
  w_effects :: "w_effect list"

definition new_watcher :: "bool \<Rightarrow> 's watcher" where
  "new_watcher notify = \<lparr>podMeta = Map.empty, polMap = [], w_has_notify = notify, w_effects = []\<rparr>"

text \<open>
  \<open>New\<close> and \<open>loadConfig\<close>: the configuration of the cluster the program runs in, or else
  the one of the user, and the two clients made from it. A configuration is only passed
  on, so it is any text.
\<close>

record client_env =
  InClusterConfig :: "string option"
  ClientConfig :: "string option"
  NewForConfig :: "string \<Rightarrow> bool"
  dynamic_NewForConfig :: "string \<Rightarrow> bool"

datatype watcher_error = K8s_config | K8s_client | K8s_dynamic_client

definition loadConfig :: "client_env \<Rightarrow> string option" where
  "loadConfig x = (case InClusterConfig x of Some cfg \<Rightarrow> Some cfg | None \<Rightarrow> ClientConfig x)"

definition k8s_New :: "client_env \<Rightarrow> watcher_error + 's watcher" where
  "k8s_New x =
     (case loadConfig x of
        None \<Rightarrow> Inl K8s_config
      | Some cfg \<Rightarrow>
          if \<not> NewForConfig x cfg then Inl K8s_client
          else if \<not> dynamic_NewForConfig x cfg then Inl K8s_dynamic_client
          else Inr (new_watcher False))"

text \<open>\<open>SetReconcileTrigger\<close>\<close>

definition SetReconcileTrigger :: "'s watcher \<Rightarrow> 's watcher" where
  "SetReconcileTrigger w = w\<lparr>w_has_notify := True\<rparr>"

lemma set_trigger_new [simp]: "SetReconcileTrigger (new_watcher b) = new_watcher True"
  by (simp add: SetReconcileTrigger_def new_watcher_def)

definition fireNotify :: "'s watcher \<Rightarrow> 's watcher" where
  "fireNotify w = (if w_has_notify w then w\<lparr>w_effects := w_effects w @ [Notified]\<rparr> else w)"

section \<open>Pods\<close>

definition NamespaceLookup :: "string \<Rightarrow> 's watcher \<Rightarrow> string \<times> labels" where
  "NamespaceLookup podIP w =
     (case podMeta w podIP of None \<Rightarrow> ([], Map.empty) | Some m \<Rightarrow> (pm_Namespace m, pm_Labels m))"

text \<open>\<open>None\<close> is an object that is not a pod.\<close>

definition onPodAdd :: "pod option \<Rightarrow> 's watcher \<Rightarrow> 's watcher" where
  "onPodAdd obj w =
     (case obj of
        None \<Rightarrow> w
      | Some p \<Rightarrow>
          if pod_IP p = [] then w
          else fireNotify (w\<lparr>podMeta := (podMeta w)(pod_IP p \<mapsto> \<lparr>pm_Namespace = pod_Namespace p, pm_Labels = pod_Labels p\<rparr>)\<rparr>))"

text \<open>A deletion delivers the pod, or a tombstone that holds a pod or something else.\<close>

datatype deleted = Deleted_Pod pod | Tombstone "pod option" | Deleted_Other

definition onPodDelete :: "deleted \<Rightarrow> 's watcher \<Rightarrow> 's watcher" where
  "onPodDelete obj w =
     (let del = (\<lambda>p. fireNotify (w\<lparr>podMeta := (podMeta w)(pod_IP p := None)\<rparr>))
      in case obj of
           Deleted_Pod p \<Rightarrow> del p
         | Tombstone (Some p) \<Rightarrow> del p
         | Tombstone None \<Rightarrow> w
         | Deleted_Other \<Rightarrow> w)"

text \<open>
  The handlers that \<open>Run\<close> registers with the pod informer: an update is handled as an
  addition of the new object. When they cannot be registered no pod is ever known.
\<close>

datatype pod_event = Pod_Add "pod option" | Pod_Update "pod option" "pod option" | Pod_Delete deleted

definition pod_handler :: "pod_event \<Rightarrow> 's watcher \<Rightarrow> 's watcher" where
  "pod_handler ev w =
     (case ev of Pod_Add obj \<Rightarrow> onPodAdd obj w | Pod_Update old obj \<Rightarrow> onPodAdd obj w | Pod_Delete obj \<Rightarrow> onPodDelete obj w)"

definition run_pods :: "bool \<Rightarrow> pod_event list \<Rightarrow> 's watcher \<Rightarrow> 's watcher" where
  "run_pods registered evs w = (if registered then foldl (\<lambda>w ev. pod_handler ev w) w evs else w)"

section \<open>Publishing the policy\<close>

definition selectorLen :: "selector option \<Rightarrow> nat" where
  "selectorLen sel = (case sel of None \<Rightarrow> 0 | Some s \<Rightarrow> sel_Requirements s)"

definition to_rule :: "string \<Rightarrow> selector \<Rightarrow> policy_rule \<Rightarrow> rule" where
  "to_rule ns sel r =
     \<lparr>Namespace = ns, PodSelector = Some sel, Host = pr_Host r, RPort = pr_Port r, Methods = pr_Methods r,
      Paths = pr_Paths r, TTL = pr_TTL r, CacheBody = pr_CacheBody r, RVaryHeaders = pr_VaryHeaders r,
      MaxBodyBytes = pr_MaxBodyBytes r\<rparr>"

fun policy_rules :: "('s \<Rightarrow> selector option) \<Rightarrow> string \<Rightarrow> 's cache_policy list \<Rightarrow> rule list" where
  "policy_rules as_sel ns [] = []"
| "policy_rules as_sel ns (cp # cps) =
     (case as_sel (cp_PodSelector cp) of
        None \<Rightarrow> policy_rules as_sel ns cps
      | Some sel \<Rightarrow> map (to_rule ns sel) (cp_Rules cp) @ policy_rules as_sel ns cps)"

definition all_rules :: "('s \<Rightarrow> selector option) \<Rightarrow> (string \<times> 's cache_policy list) list \<Rightarrow> rule list" where
  "all_rules as_sel m = concat (map (\<lambda>(ns, cps). policy_rules as_sel ns cps) m)"

text \<open>
  \<open>sort.Slice\<close> is not stable: elements that compare equal come in any order. Sorting
  an arbitrary rearrangement stably gives every result it may give.
\<close>

definition sort_rules :: "rule order \<Rightarrow> rule list \<Rightarrow> rule list" where
  "sort_rules ord rs = sort_key (\<lambda>r. - int (selectorLen (PodSelector r))) (go_range ord rs)"

record 's walk =
  ns_order :: "(string \<times> 's cache_policy list) order"
  rule_order :: "rule order"

definition rebuilt :: "('s \<Rightarrow> selector option) \<Rightarrow> 's walk \<Rightarrow> 's watcher \<Rightarrow> policy" where
  "rebuilt as_sel x w = new_policy (sort_rules (rule_order x) (all_rules as_sel (go_range (ns_order x) (polMap w))))"

definition rebuild :: "('s \<Rightarrow> selector option) \<Rightarrow> 's walk \<Rightarrow> 's watcher \<Rightarrow> 's watcher" where
  "rebuild as_sel x w = fireNotify (w\<lparr>w_effects := w_effects w @ [Published (rebuilt as_sel x w)]\<rparr>)"

section \<open>Policy events\<close>

definition policies_in :: "string \<Rightarrow> (string \<times> 's cache_policy list) list \<Rightarrow> 's cache_policy list" where
  "policies_in ns m = (case map_of m ns of None \<Rightarrow> [] | Some ps \<Rightarrow> ps)"

text \<open>The loop that replaces the first policy of the name, or appends.\<close>

fun upsert :: "'s cache_policy \<Rightarrow> 's cache_policy list \<Rightarrow> 's cache_policy list" where
  "upsert cp [] = [cp]"
| "upsert cp (p # ps) = (if cp_Name p = cp_Name cp then cp # ps else p # upsert cp ps)"

fun remove_named :: "string \<Rightarrow> 's cache_policy list \<Rightarrow> 's cache_policy list" where
  "remove_named n [] = []"
| "remove_named n (p # ps) = (if cp_Name p = n then ps else p # remove_named n ps)"

definition put_policy ::
  "'s cache_policy \<Rightarrow> (string \<times> 's cache_policy list) list \<Rightarrow> (string \<times> 's cache_policy list) list" where
  "put_policy cp m = AList.update (cp_Namespace cp) (upsert cp (policies_in (cp_Namespace cp) m)) m"

text \<open>Without a policy of the name the map is not written.\<close>

definition del_policy ::
  "'s cache_policy \<Rightarrow> (string \<times> 's cache_policy list) list \<Rightarrow> (string \<times> 's cache_policy list) list" where
  "del_policy cp m =
     (let ps = policies_in (cp_Namespace cp) m
      in if \<exists>p \<in> set ps. cp_Name p = cp_Name cp
         then AList.update (cp_Namespace cp) (remove_named (cp_Name cp) ps) m else m)"

datatype 's policy_event =
    Ev_Added "'s cache_policy"
  | Ev_Modified "'s cache_policy"
  | Ev_Deleted "'s cache_policy"
  | Ev_Other "'s cache_policy"
  | Ev_Undecodable

definition handlePolicyEvent ::
  "('s \<Rightarrow> selector option) \<Rightarrow> 's walk \<Rightarrow> 's policy_event \<Rightarrow> 's watcher \<Rightarrow> 's watcher" where
  "handlePolicyEvent as_sel x ev w =
     (case ev of
        Ev_Undecodable \<Rightarrow> w
      | Ev_Added cp \<Rightarrow> rebuild as_sel x (w\<lparr>polMap := put_policy cp (polMap w)\<rparr>)
      | Ev_Modified cp \<Rightarrow> rebuild as_sel x (w\<lparr>polMap := put_policy cp (polMap w)\<rparr>)
      | Ev_Deleted cp \<Rightarrow> rebuild as_sel x (w\<lparr>polMap := del_policy cp (polMap w)\<rparr>)
      | Ev_Other cp \<Rightarrow> rebuild as_sel x w)"

text \<open>The initial list: the decodable items, appended namespace by namespace.\<close>

definition list_policies :: "'s cache_policy option list \<Rightarrow> (string \<times> 's cache_policy list) list" where
  "list_policies items =
     foldl (\<lambda>m it. case it of
              None \<Rightarrow> m
            | Some cp \<Rightarrow> AList.update (cp_Namespace cp) (policies_in (cp_Namespace cp) m @ [cp]) m) [] items"

text \<open>
  One watch: the list, or its error; the watch, or its error; then the events until
  the channel closes or the context ends. The result says whether an error came back.
\<close>

record 's watch_run =
  wr_list :: "'s cache_policy option list option"
  wr_walk :: "'s walk"
  wr_opened :: bool
  wr_events :: "('s walk \<times> 's policy_event) list"
  wr_cancelled :: bool

definition runCachePolicyWatch ::
  "('s \<Rightarrow> selector option) \<Rightarrow> 's watch_run \<Rightarrow> 's watcher \<Rightarrow> 's watcher \<times> bool" where
  "runCachePolicyWatch as_sel run w =
     (case wr_list run of
        None \<Rightarrow> (w, True)
      | Some items \<Rightarrow>
          let w1 = rebuild as_sel (wr_walk run) (w\<lparr>polMap := list_policies items\<rparr>)
          in if \<not> wr_opened run then (w1, True)
             else (foldl (\<lambda>w (x, ev). handlePolicyEvent as_sel x ev w) w1 (wr_events run), \<not> wr_cancelled run))"

text \<open>The pause before the next attempt, after a run that failed or not.\<close>

definition maxBackoff :: int64 where
  "maxBackoff = 60 * second"

definition next_backoff :: "bool \<Rightarrow> int64 \<Rightarrow> int64" where
  "next_backoff failed b =
     (if failed then
        (if sint b < sint maxBackoff then (if sint maxBackoff < sint (b * 2) then maxBackoff else b * 2) else b)
      else second)"

text \<open>
  The loop around the watch: the state after a sequence of runs, and the pauses made.
  It returns when a run fails after the context has ended.
\<close>

fun watchCachePolicies ::
  "('s \<Rightarrow> selector option) \<Rightarrow> 's watch_run list \<Rightarrow> int64 \<Rightarrow> 's watcher \<Rightarrow> 's watcher \<times> int64 list" where
  "watchCachePolicies as_sel [] b w = (w, [])"
| "watchCachePolicies as_sel (run # runs) b w =
     (case runCachePolicyWatch as_sel run w of
        (w', failed) \<Rightarrow>
          if failed \<and> wr_cancelled run then (w', [])
          else if failed then
            (case watchCachePolicies as_sel runs (next_backoff True b) w' of (w'', pauses) \<Rightarrow> (w'', b # pauses))
          else watchCachePolicies as_sel runs (next_backoff False b) w')"

section \<open>The policies as an exact map\<close>

definition named :: "string \<Rightarrow> 's cache_policy list \<Rightarrow> ('s \<times> policy_rule list) option" where
  "named n ps = map_option (\<lambda>p. (cp_PodSelector p, cp_Rules p)) (find (\<lambda>p. cp_Name p = n) ps)"

definition policy_view ::
  "(string \<times> 's cache_policy list) list \<Rightarrow> string \<times> string \<rightharpoonup> 's \<times> policy_rule list" where
  "policy_view m = (\<lambda>(ns, n). named n (policies_in ns m))"

definition map_ok :: "(string \<times> 's cache_policy list) list \<Rightarrow> bool" where
  "map_ok m \<longleftrightarrow> distinct (keys m) \<and> (\<forall>(ns, ps) \<in> set m. distinct (map cp_Name ps))"

definition the_policy :: "string \<times> string \<Rightarrow> 's \<times> policy_rule list \<Rightarrow> 's cache_policy" where
  "the_policy k v = \<lparr>cp_Namespace = fst k, cp_Name = snd k, cp_PodSelector = fst v, cp_Rules = snd v\<rparr>"

lemma named_simps [simp]:
  "named n [] = None"
  "named n (p # ps) = (if cp_Name p = n then Some (cp_PodSelector p, cp_Rules p) else named n ps)"
  by (simp_all add: named_def)

lemma named_None: "named n ps = None \<longleftrightarrow> n \<notin> cp_Name ` set ps"
  by (induction ps) auto

lemma named_upsert: "named n (upsert cp ps) = (if n = cp_Name cp then Some (cp_PodSelector cp, cp_Rules cp) else named n ps)"
  by (induction cp ps rule: upsert.induct) auto

lemma names_upsert: "cp_Name ` set (upsert cp ps) = insert (cp_Name cp) (cp_Name ` set ps)"
  by (induction cp ps rule: upsert.induct) auto

lemma distinct_upsert: "distinct (map cp_Name ps) \<Longrightarrow> distinct (map cp_Name (upsert cp ps))"
proof (induction cp ps rule: upsert.induct)
  case (2 cp p ps)
  then show ?case using names_upsert [of cp ps] by (auto simp del: set_map simp flip: set_map)
qed simp

lemma remove_named_subset: "set (remove_named n ps) \<subseteq> set ps"
  by (induction n ps rule: remove_named.induct) auto

lemma distinct_remove_named: "distinct (map cp_Name ps) \<Longrightarrow> distinct (map cp_Name (remove_named n ps))"
  using remove_named_subset by (induction n ps rule: remove_named.induct) fastforce+

lemma named_remove: "distinct (map cp_Name ps) \<Longrightarrow> named n (remove_named k ps) = (if n = k then None else named n ps)"
  by (induction k ps rule: remove_named.induct) (auto simp: named_None)

lemma policies_in_update: "policies_in ns (AList.update ns' ps m) = (if ns = ns' then ps else policies_in ns m)"
  by (simp add: policies_in_def map_of_update)

lemma map_okD: "map_ok m \<Longrightarrow> distinct (map cp_Name (policies_in ns m))"
  by (auto simp: map_ok_def policies_in_def split: option.split dest!: map_of_SomeD)

lemma map_ok_update: "map_ok m \<Longrightarrow> distinct (map cp_Name ps) \<Longrightarrow> map_ok (AList.update ns ps m)"
proof -
  assume m: "map_ok m" and ps: "distinct (map cp_Name ps)"
  have "distinct (map cp_Name qs)" if "(k, qs) \<in> set (AList.update ns ps m)" for k qs
  proof -
    have "map_of (AList.update ns ps m) k = Some qs"
      using m that by (simp add: map_ok_def)
    then show ?thesis
      using m ps by (auto simp: map_of_update map_ok_def split: if_splits dest!: map_of_SomeD)
  qed
  with m show ?thesis
    by (auto simp: map_ok_def)
qed

lemma policy_view_put: "policy_view (put_policy cp m) = (policy_view m)((cp_Namespace cp, cp_Name cp) \<mapsto> (cp_PodSelector cp, cp_Rules cp))"
  by (auto simp: policy_view_def put_policy_def policies_in_update named_upsert fun_eq_iff)

lemma policy_view_del: "map_ok m \<Longrightarrow> policy_view (del_policy cp m) = (policy_view m)((cp_Namespace cp, cp_Name cp) := None)"
  using map_okD [of m "cp_Namespace cp"] named_None [of "cp_Name cp" "policies_in (cp_Namespace cp) m"]
  by (auto simp: policy_view_def del_policy_def policies_in_update named_remove fun_eq_iff Let_def)

lemma map_ok_put [invar_intros]: "map_ok m \<Longrightarrow> map_ok (put_policy cp m)"
  by (simp add: put_policy_def map_ok_update distinct_upsert map_okD)

lemma map_ok_del [invar_intros]: "map_ok m \<Longrightarrow> map_ok (del_policy cp m)"
  by (simp add: del_policy_def Let_def map_ok_update distinct_remove_named map_okD)

interpretation pm: exact_map policy_view map_ok
    "\<lambda>x :: unit. \<lambda>k v. put_policy (the_policy k v)" "\<lambda>k. del_policy (the_policy k undefined)" "\<lambda>x m. m"
  by unfold_locales (auto simp: policy_view_put policy_view_del the_policy_def map_ok_put map_ok_del)

section \<open>Lists and events as histories\<close>

definition ops_of :: "'s policy_event \<Rightarrow> (unit, string \<times> string, 's \<times> policy_rule list) map_op list" where
  "ops_of ev =
     (case ev of
        Ev_Added cp \<Rightarrow> [Put () (cp_Namespace cp, cp_Name cp) (cp_PodSelector cp, cp_Rules cp)]
      | Ev_Modified cp \<Rightarrow> [Put () (cp_Namespace cp, cp_Name cp) (cp_PodSelector cp, cp_Rules cp)]
      | Ev_Deleted cp \<Rightarrow> [Del (cp_Namespace cp, cp_Name cp)]
      | _ \<Rightarrow> [])"

definition listed :: "'s cache_policy option list \<Rightarrow> ((string \<times> string) \<times> 's \<times> policy_rule list) list" where
  "listed items =
     map (\<lambda>cp. ((cp_Namespace cp, cp_Name cp), cp_PodSelector cp, cp_Rules cp)) (List.map_filter id items)"

lemma rebuild_polMap [simp]: "polMap (rebuild as_sel x w) = polMap w" "podMeta (rebuild as_sel x w) = podMeta w"
  by (simp_all add: rebuild_def fireNotify_def)

lemma event_polMap:
  assumes "map_ok (polMap w)"
  shows "policy_view (polMap (handlePolicyEvent as_sel x ev w)) = foldl ideal_op (policy_view (polMap w)) (ops_of ev)"
    and "map_ok (polMap (handlePolicyEvent as_sel x ev w))"
  using assms by (cases ev; simp add: handlePolicyEvent_def ops_of_def policy_view_put policy_view_del invar_intros)+

lemma events_polMap:
  assumes "map_ok (polMap w)"
  shows "policy_view (polMap (foldl (\<lambda>w (x, ev). handlePolicyEvent as_sel x ev w) w evs)) =
      foldl ideal_op (policy_view (polMap w)) (concat (map (ops_of \<circ> snd) evs))
    \<and> map_ok (polMap (foldl (\<lambda>w (x, ev). handlePolicyEvent as_sel x ev w) w evs))"
  using assms
proof (induction evs arbitrary: w)
  case Nil
  then show ?case by simp
next
  case (Cons e evs)
  obtain x ev where e: "e = (x, ev)"
    by (cases e)
  from event_polMap [OF Cons.prems, of as_sel x ev] Cons.IH [of "handlePolicyEvent as_sel x ev w"] show ?case
    by (simp add: e)
qed

lemma upsert_absent: "named (cp_Name cp) ps = None \<Longrightarrow> upsert cp ps = ps @ [cp]"
  by (induction cp ps rule: upsert.induct) (auto split: if_splits)

lemma list_policies_view:
  assumes "distinct (keys (listed items))"
  shows "policy_view (list_policies items) = map_of (listed items) \<and> map_ok (list_policies items)"
  using assms
proof (induction items rule: rev_induct)
  case Nil
  then show ?case by (simp add: list_policies_def listed_def map_ok_def policy_view_def policies_in_def fun_eq_iff List.map_filter_def)
next
  case (snoc it items)
  show ?case
  proof (cases it)
    case None
    with snoc show ?thesis by (simp add: list_policies_def listed_def List.map_filter_def)
  next
    case (Some cp)
    let ?k = "(cp_Namespace cp, cp_Name cp)"
    have l: "listed (items @ [it]) = listed items @ [(?k, cp_PodSelector cp, cp_Rules cp)]"
      by (simp add: Some listed_def List.map_filter_def)
    with snoc have IH: "policy_view (list_policies items) = map_of (listed items)" "map_ok (list_policies items)"
      and fresh: "?k \<notin> set (keys (listed items))"
      by simp_all
    have "named (cp_Name cp) (policies_in (cp_Namespace cp) (list_policies items)) = None"
      using fresh fun_cong [OF IH(1), of ?k] by (simp add: policy_view_def map_of_eq_None_iff [symmetric])
    then have "list_policies (items @ [it]) = put_policy cp (list_policies items)"
      by (simp add: Some list_policies_def put_policy_def upsert_absent)
    moreover have "map_of (listed (items @ [it])) = (map_of (listed items))(?k \<mapsto> (cp_PodSelector cp, cp_Rules cp))"
      using fresh unfolding l by (simp add: map_add_upd_left map_of_eq_None_iff [symmetric] map_add_def fun_eq_iff split: option.split)
    ultimately show ?thesis
      using IH by (simp add: policy_view_put map_ok_put)
  qed
qed

section \<open>What is published\<close>

lemma in_policy_rules:
  "q \<in> set (policy_rules as_sel ns cps) \<longleftrightarrow>
     (\<exists>cp \<in> set cps. \<exists>sel. as_sel (cp_PodSelector cp) = Some sel \<and> q \<in> to_rule ns sel ` set (cp_Rules cp))"
  by (induction as_sel ns cps rule: policy_rules.induct) (auto split: option.splits)

lemma in_all_rules: "q \<in> set (all_rules as_sel m) \<longleftrightarrow> (\<exists>ns ps. (ns, ps) \<in> set m \<and> q \<in> set (policy_rules as_sel ns ps))"
  by (force simp: all_rules_def)

lemma named_Some:
  assumes "distinct (map cp_Name ps)"
  shows "named n ps = Some v \<longleftrightarrow> (\<exists>p \<in> set ps. cp_Name p = n \<and> v = (cp_PodSelector p, cp_Rules p))"
  using assms
proof (induction ps)
  case Nil
  then show ?case by simp
next
  case (Cons p ps)
  show ?case
  proof (cases "cp_Name p = n")
    case True
    then have "\<forall>q \<in> set ps. cp_Name q \<noteq> n"
      using Cons.prems by (metis distinct.simps(2) image_eqI list.simps(9) set_map)
    with True show ?thesis by auto
  next
    case False
    with Cons show ?thesis by simp
  qed
qed

text \<open>
  \<open>carries ns sel r q\<close>: the rule \<open>q\<close> of the policy says for the pods of \<open>ns\<close> with the
  selector \<open>sel\<close> what the rule \<open>r\<close> of a CachePolicy says. \<open>published as_sel view q\<close>: \<open>q\<close> is a
  rule of a live policy whose selector is valid.
\<close>

definition carries :: "string \<Rightarrow> selector \<Rightarrow> policy_rule \<Rightarrow> rule \<Rightarrow> bool" where
  "carries ns sel r q \<longleftrightarrow> Namespace q = ns \<and> PodSelector q = Some sel \<and> Host q = pr_Host r \<and> RPort q = pr_Port r
     \<and> Methods q = pr_Methods r \<and> Paths q = pr_Paths r \<and> TTL q = pr_TTL r \<and> RVaryHeaders q = pr_VaryHeaders r
     \<and> CacheBody q = pr_CacheBody r \<and> MaxBodyBytes q = pr_MaxBodyBytes r"

definition published ::
  "('s \<Rightarrow> selector option) \<Rightarrow> (string \<times> string \<rightharpoonup> 's \<times> policy_rule list) \<Rightarrow> rule \<Rightarrow> bool" where
  "published as_sel view q \<longleftrightarrow>
     (\<exists>ns n s rs sel r. view (ns, n) = Some (s, rs) \<and> as_sel s = Some sel \<and> r \<in> set rs \<and> carries ns sel r q)"

lemma carries_iff: "carries ns sel r q \<longleftrightarrow> q = to_rule ns sel r"
  by (cases q) (auto simp: carries_def to_rule_def)

text \<open>
  The same in terms of the objects: \<open>live_rule as_sel view ns sel r\<close> says that \<open>r\<close> is a
  rule of a live policy in the namespace \<open>ns\<close> with the selector \<open>sel\<close>, and
  \<open>selects ns' sel ns ls\<close> that such a policy is about a pod of the namespace \<open>ns\<close> with the
  labels \<open>ls\<close>.
\<close>

definition live_rule ::
  "('s \<Rightarrow> selector option) \<Rightarrow> (string \<times> string \<rightharpoonup> 's \<times> policy_rule list) \<Rightarrow> string \<Rightarrow> selector \<Rightarrow> policy_rule \<Rightarrow> bool" where
  "live_rule as_sel view ns sel r \<longleftrightarrow> (\<exists>n s rs. view (ns, n) = Some (s, rs) \<and> as_sel s = Some sel \<and> r \<in> set rs)"

definition selects :: "string \<Rightarrow> selector \<Rightarrow> string \<Rightarrow> labels \<Rightarrow> bool" where
  "selects ns' sel ns ls \<longleftrightarrow> (ns' = [] \<or> ns' = ns) \<and> (sel_Empty sel \<or> sel_Matches sel ls)"

definition pod_selected ::
  "('s \<Rightarrow> selector option) \<Rightarrow> (string \<times> string \<rightharpoonup> 's \<times> policy_rule list) \<Rightarrow> string \<Rightarrow> labels \<Rightarrow> bool" where
  "pod_selected as_sel view ns ls \<longleftrightarrow> (\<exists>ns' sel r. live_rule as_sel view ns' sel r \<and> selects ns' sel ns ls)"

lemma published_live: "published as_sel view q \<longleftrightarrow> (\<exists>ns sel r. live_rule as_sel view ns sel r \<and> carries ns sel r q)"
  unfolding published_def live_rule_def by blast

lemma applies_carries: "carries ns' sel r q \<Longrightarrow> rule_applies ns ls q \<longleftrightarrow> selects ns' sel ns ls"
  by (auto simp: rule_applies_def carries_def selects_def)

lemma published_selected: "(\<exists>q. published as_sel view q \<and> rule_applies ns ls q) \<longleftrightarrow> pod_selected as_sel view ns ls"
  unfolding published_live pod_selected_def using applies_carries carries_iff by metis

lemma view_entry:
  assumes "map_ok m"
  shows "policy_view m (ns, n) = Some (s, rs) \<longleftrightarrow>
    (\<exists>ps. (ns, ps) \<in> set m \<and> (\<exists>cp \<in> set ps. cp_Name cp = n \<and> s = cp_PodSelector cp \<and> rs = cp_Rules cp))"
proof -
  have in_m: "(ns, ps) \<in> set m \<longleftrightarrow> map_of m ns = Some ps" for ps
    using assms by (simp add: map_ok_def)
  show ?thesis
  proof (cases "map_of m ns")
    case None
    then show ?thesis by (simp add: in_m policy_view_def policies_in_def)
  next
    case (Some ps)
    then have "distinct (map cp_Name ps)"
      using assms in_m by (auto simp: map_ok_def)
    from named_Some [OF this, of n "(s, rs)"] Some show ?thesis
      by (simp add: in_m policy_view_def policies_in_def)
  qed
qed

lemma in_all_rules_view:
  assumes "map_ok m"
  shows "q \<in> set (all_rules as_sel m) \<longleftrightarrow> published as_sel (policy_view m) q"
  unfolding in_all_rules in_policy_rules published_def carries_iff view_entry [OF assms] by blast

lemma set_sort_rules [simp]: "set (sort_rules ord rs) = set rs"
  by (simp add: sort_rules_def)

lemma sorted_sort_rules: "sorted (map (\<lambda>r. - int (selectorLen (PodSelector r))) (sort_rules ord rs))"
  by (simp add: sort_rules_def)

lemma set_rebuilt:
  assumes "map_ok (polMap w)"
  shows "q \<in> set (rules (rebuilt as_sel x w)) \<longleftrightarrow> published as_sel (policy_view (polMap w)) q"
proof -
  have "set (all_rules as_sel (go_range (ns_order x) (polMap w))) = set (all_rules as_sel (polMap w))"
    by (auto simp: in_all_rules)
  then show ?thesis
    using in_all_rules_view [OF assms] by (simp add: rebuilt_def new_policy_def)
qed

section \<open>Pods as a map\<close>

definition pod_put :: "unit \<Rightarrow> string \<Rightarrow> pod_meta \<Rightarrow> 's watcher \<Rightarrow> 's watcher" where
  "pod_put x ip m = onPodAdd (Some \<lparr>pod_IP = ip, pod_Namespace = pm_Namespace m, pod_Labels = pm_Labels m\<rparr>)"

definition pod_del :: "string \<Rightarrow> 's watcher \<Rightarrow> 's watcher" where
  "pod_del ip = onPodDelete (Deleted_Pod \<lparr>pod_IP = ip, pod_Namespace = [], pod_Labels = Map.empty\<rparr>)"

lemma fireNotify_simps [simp]: "podMeta (fireNotify w) = podMeta w" "polMap (fireNotify w) = polMap w"
  by (simp_all add: fireNotify_def)

lemma podMeta_add: "podMeta (onPodAdd (Some p) w) =
    (if pod_IP p = [] then podMeta w
     else (podMeta w)(pod_IP p \<mapsto> \<lparr>pm_Namespace = pod_Namespace p, pm_Labels = pod_Labels p\<rparr>))"
  by (simp add: onPodAdd_def)

lemma podMeta_del: "podMeta (onPodDelete (Deleted_Pod p) w) = (podMeta w)(pod_IP p := None)"
  by (simp add: onPodDelete_def Let_def)

text \<open>No entry has the empty address; a pod without an address is not recorded.\<close>

interpretation pods: lossy_map podMeta "\<lambda>w. podMeta w [] = None" pod_put pod_del "\<lambda>x :: unit. \<lambda>w. w"
  by unfold_locales (auto simp: pod_put_def pod_del_def podMeta_add podMeta_del map_le_def)

text \<open>The events of the informer as operations on the map.\<close>

definition meta_of :: "pod \<Rightarrow> pod_meta" where
  "meta_of p = \<lparr>pm_Namespace = pod_Namespace p, pm_Labels = pod_Labels p\<rparr>"

definition pod_ops_of :: "pod_event \<Rightarrow> (unit, string, pod_meta) map_op list" where
  "pod_ops_of ev =
     (case ev of
        Pod_Add (Some p) \<Rightarrow> if pod_IP p = [] then [] else [Put () (pod_IP p) (meta_of p)]
      | Pod_Update old (Some p) \<Rightarrow> if pod_IP p = [] then [] else [Put () (pod_IP p) (meta_of p)]
      | Pod_Delete (Deleted_Pod p) \<Rightarrow> [Del (pod_IP p)]
      | Pod_Delete (Tombstone (Some p)) \<Rightarrow> [Del (pod_IP p)]
      | _ \<Rightarrow> [])"

lemma pod_handler_ops: "pod_handler ev w = pods.exec w (pod_ops_of ev)"
  by (auto simp: pod_handler_def pod_ops_of_def pod_put_def pod_del_def onPodAdd_def onPodDelete_def meta_of_def Let_def
      split: pod_event.split option.split deleted.split)

lemma run_pods_ops: "run_pods True evs w = pods.exec w (concat (map pod_ops_of evs))"
  by (induction evs arbitrary: w) (simp_all add: run_pods_def pod_handler_ops)

lemma put_of_event:
  "Put x ip m \<in> set (pod_ops_of ev) \<Longrightarrow>
     \<exists>p. pod_IP p = ip \<and> m = meta_of p \<and> (ev = Pod_Add (Some p) \<or> (\<exists>old. ev = Pod_Update old (Some p)))"
  by (auto simp: pod_ops_of_def split: pod_event.splits option.splits deleted.splits if_splits)

section \<open>Properties\<close>

text \<open>C19. The watcher knows exactly the live policies: after a list and any sequence of events its collection is
  the listed objects with every later addition, change and deletion applied, in order,
  under the object's namespace and name.\<close>

theorem watcher_tracks_policies:
  assumes "wr_list run = Some items" and "distinct (keys (listed items))" and "wr_opened run"
  shows "let m = polMap (fst (runCachePolicyWatch as_sel run w))
    in policy_view m = foldl ideal_op (map_of (listed items)) (concat (map (ops_of \<circ> snd) (wr_events run))) \<and> map_ok m"
proof -
  let ?w1 = "rebuild as_sel (wr_walk run) (w\<lparr>polMap := list_policies items\<rparr>)"
  have "map_ok (polMap ?w1)" "policy_view (polMap ?w1) = map_of (listed items)"
    using list_policies_view [OF assms(2)] by simp_all
  with events_polMap [of ?w1 as_sel "wr_events run"] assms(1,3) show ?thesis
    by (simp add: runCachePolicyWatch_def Let_def)
qed

definition sample_policy :: "string \<Rightarrow> string \<Rightarrow> nat cache_policy" where
  "sample_policy ns n = \<lparr>cp_Namespace = ns, cp_Name = n, cp_PodSelector = 0, cp_Rules = []\<rparr>"

definition sample_walk :: "nat walk" where
  "sample_walk = \<lparr>ns_order = id, rule_order = id\<rparr>"

theorem watcher_tracks_policies_witness:
  "policy_view (polMap (fst (runCachePolicyWatch (\<lambda>_. None)
      \<lparr>wr_list = Some [Some (sample_policy ''a'' ''p''), None], wr_walk = sample_walk, wr_opened = True,
       wr_events = [(sample_walk, Ev_Deleted (sample_policy ''a'' ''p'')), (sample_walk, Ev_Added (sample_policy ''b'' ''q''))],
       wr_cancelled = False\<rparr> (new_watcher True)))) = [(''b'', ''q'') \<mapsto> (0, [])]"
  using watcher_tracks_policies [of "\<lparr>wr_list = Some [Some (sample_policy ''a'' ''p''), None], wr_walk = sample_walk, wr_opened = True,
       wr_events = [(sample_walk, Ev_Deleted (sample_policy ''a'' ''p'')), (sample_walk, Ev_Added (sample_policy ''b'' ''q''))],
       wr_cancelled = False\<rparr>" "[Some (sample_policy ''a'' ''p''), None]" "\<lambda>_. None" "new_watcher True"]
  by (simp add: listed_def List.map_filter_def sample_policy_def ops_of_def Let_def fun_upd_idem)

text \<open>C14. The published policy holds exactly the rules of the live policies with a valid selector, each under
  the namespace of its policy, whatever order the maps are walked in, and rules with
  more selector requirements come first: the rule that \<open>Match\<close> returns is among the most
  specific of those that match.\<close>

theorem published_policy_exact:
  assumes "map_ok (polMap w)"
  shows "(q \<in> set (rules (rebuilt as_sel x w)) \<longleftrightarrow> published as_sel (policy_view (polMap w)) q)
    \<and> (Match (rebuilt as_sel x w) ns ls host port method path = Some r
        \<and> published as_sel (policy_view (polMap w)) q \<and> rule_matches ns ls (strip_port host) port method path q
        \<longrightarrow> selectorLen (PodSelector q) \<le> selectorLen (PodSelector r))
    \<and> (published as_sel (policy_view (polMap w)) q \<and> rule_matches ns ls (strip_port host) port method path q
        \<longrightarrow> Match (rebuilt as_sel x w) ns ls host port method path \<noteq> None)"
proof (intro conjI impI)
  show "q \<in> set (rules (rebuilt as_sel x w)) \<longleftrightarrow> published as_sel (policy_view (polMap w)) q"
    by (rule set_rebuilt [OF assms])
next
  assume a: "published as_sel (policy_view (polMap w)) q \<and> rule_matches ns ls (strip_port host) port method path q"
  then show "Match (rebuilt as_sel x w) ns ls host port method path \<noteq> None"
    using set_rebuilt [OF assms] by (auto simp: Match_def ms.scan_None)
next
  assume a: "Match (rebuilt as_sel x w) ns ls host port method path = Some r
    \<and> published as_sel (policy_view (polMap w)) q \<and> rule_matches ns ls (strip_port host) port method path q"
  let ?rs = "rules (rebuilt as_sel x w)" and ?key = "\<lambda>r. - int (selectorLen (PodSelector r))"
  have "match_rules ?rs ns ls (strip_port host) port method path = Some r"
    using a by (simp add: Match_def)
  from ms.scan_SomeD [OF this] obtain before rest where split: "?rs = before @ r # rest"
    "\<forall>p \<in> set before. \<not> rule_matches ns ls (strip_port host) port method path p"
    by blast
  have "q \<in> set ?rs"
    using a set_rebuilt [OF assms] by blast
  then have "q = r \<or> q \<in> set rest"
    using split a by auto
  moreover have "sorted (map ?key ?rs)"
    using sorted_sort_rules by (simp add: rebuilt_def new_policy_def)
  then have "\<forall>p \<in> set rest. ?key r \<le> ?key p"
    by (simp add: split(1) sorted_append)
  ultimately show "selectorLen (PodSelector q) \<le> selectorLen (PodSelector r)"
    by auto
qed

definition plain_selector :: "nat \<Rightarrow> selector option" where
  "plain_selector n = Some \<lparr>sel_Empty = (n = 0), sel_Matches = (\<lambda>_. True), sel_Requirements = n\<rparr>"

definition sample_policy_rule :: "string \<Rightarrow> policy_rule" where
  "sample_policy_rule host =
     \<lparr>pr_Host = host, pr_Port = 0, pr_Methods = [], pr_Paths = [], pr_TTL = 1, pr_MaxBodyBytes = 0, pr_VaryHeaders = [],
      pr_CacheBody = False\<rparr>"

definition two_policies :: "nat watcher" where
  "two_policies = (new_watcher True)\<lparr>polMap :=
     [(''a'', [\<lparr>cp_Namespace = ''a'', cp_Name = ''p'', cp_PodSelector = 0, cp_Rules = [sample_policy_rule ''*'']\<rparr>,
               \<lparr>cp_Namespace = ''a'', cp_Name = ''q'', cp_PodSelector = 2, cp_Rules = [sample_policy_rule ''*'']\<rparr>])]\<rparr>"

theorem published_policy_exact_witness:
  "Match (rebuilt plain_selector sample_walk two_policies) ''a'' Map.empty ''svc'' 80 ''GET'' ''/'' \<noteq> None"
proof -
  have ok: "map_ok (polMap two_policies)"
    by (simp add: two_policies_def map_ok_def)
  let ?q = "to_rule ''a'' (the (plain_selector 2)) (sample_policy_rule ''*'')"
  have "policy_view (polMap two_policies) (''a'', ''q'') = Some (2, [sample_policy_rule ''*''])"
    by (simp add: policy_view_def policies_in_def two_policies_def)
  then have "published plain_selector (policy_view (polMap two_policies)) ?q"
    unfolding published_def by (intro exI [of _ "''a''"] exI [of _ "''q''"]) (simp add: plain_selector_def carries_iff)
  moreover have "rule_matches ''a'' Map.empty h 80 ''GET'' ''/'' ?q" for h
    by (simp add: rule_matches_def rule_applies_def rule_targets_def rule_allows_def to_rule_def sample_policy_rule_def plain_selector_def)
  ultimately show ?thesis
    using published_policy_exact [OF ok] by blast
qed

text \<open>Every decodable event publishes the policy of the new state and then triggers a reconciliation; the
  objects that cannot be decoded change and publish nothing.\<close>

theorem policy_events_are_published:
  "w_effects (handlePolicyEvent as_sel x ev w) =
     (case ev of
        Ev_Undecodable \<Rightarrow> w_effects w
      | _ \<Rightarrow> w_effects w @ Published (rebuilt as_sel x (handlePolicyEvent as_sel x ev w)) # (if w_has_notify w then [Notified] else []))
   \<and> (ev = Ev_Undecodable \<longrightarrow> handlePolicyEvent as_sel x ev w = w)"
  by (cases ev) (simp_all add: handlePolicyEvent_def rebuild_def rebuilt_def fireNotify_def)

theorem policy_events_are_published_witness:
  "handlePolicyEvent (\<lambda>_. None) sample_walk Ev_Undecodable (new_watcher True) = new_watcher True"
  using policy_events_are_published [of "\<lambda>_. None" sample_walk Ev_Undecodable "new_watcher True"] by simp

text \<open>C37. A pod's namespace and labels are never made up, and the last word counts: after any sequence of
  additions, updates and deletions delivered by the informer, an address is unknown
  (empty namespace, no labels) or it has the namespace and labels of a pod with that
  address that was added or updated, and no later event for the address said otherwise.\<close>

theorem namespace_lookup_sound:
  assumes "w = run_pods registered evs (new_watcher notify)"
  shows "NamespaceLookup ip w = ([], Map.empty)
    \<or> (\<exists>p. pod_IP p = ip \<and> (Pod_Add (Some p) \<in> set evs \<or> (\<exists>old. Pod_Update old (Some p) \<in> set evs))
         \<and> NamespaceLookup ip w = (pod_Namespace p, pod_Labels p)
         \<and> foldl ideal_op Map.empty (concat (map pod_ops_of evs)) ip = Some (meta_of p))"
proof (cases "podMeta w ip")
  case None
  then show ?thesis by (simp add: NamespaceLookup_def)
next
  case (Some m)
  then have registered
    using assms by (cases registered) (simp_all add: run_pods_def new_watcher_def)
  with assms have w: "w = pods.exec (new_watcher notify) (concat (map pod_ops_of evs))"
    by (simp add: run_pods_ops)
  have ideal: "foldl ideal_op Map.empty (concat (map pod_ops_of evs)) ip = Some m"
    by (rule pods.exec_answer [of "new_watcher notify"]) (use Some w in \<open>simp_all add: new_watcher_def\<close>)
  then obtain x where "Put x ip m \<in> set (concat (map pod_ops_of evs))"
    using ideal_origin by fastforce
  then obtain ev where "ev \<in> set evs" "Put x ip m \<in> set (pod_ops_of ev)"
    by auto
  with put_of_event [of x ip m ev] ideal Some show ?thesis
    by (fastforce simp: NamespaceLookup_def meta_of_def)
qed

theorem namespace_lookup_sound_witness:
  "foldl ideal_op Map.empty (concat (map pod_ops_of
      [Pod_Add (Some \<lparr>pod_IP = ''10.0.0.7'', pod_Namespace = ''a'', pod_Labels = Map.empty\<rparr>), Pod_Delete Deleted_Other])) ''10.0.0.7''
     = Some \<lparr>pm_Namespace = ''a'', pm_Labels = Map.empty\<rparr>"
proof -
  let ?p = "\<lparr>pod_IP = ''10.0.0.7'', pod_Namespace = ''a'', pod_Labels = Map.empty\<rparr>"
  have "NamespaceLookup ''10.0.0.7'' (run_pods True [Pod_Add (Some ?p), Pod_Delete Deleted_Other] (new_watcher True :: nat watcher))
      = (''a'', Map.empty)"
    by (simp add: run_pods_def pod_handler_def onPodDelete_def NamespaceLookup_def podMeta_add)
  then have known: "fst (NamespaceLookup ''10.0.0.7'' (run_pods True [Pod_Add (Some ?p), Pod_Delete Deleted_Other]
      (new_watcher True :: nat watcher))) \<noteq> []" "snd (NamespaceLookup ''10.0.0.7'' (run_pods True [Pod_Add (Some ?p),
      Pod_Delete Deleted_Other] (new_watcher True :: nat watcher))) = Map.empty"
    by simp_all
  have p: "p = ?p" if "Pod_Add (Some p) \<in> set [Pod_Add (Some ?p), Pod_Delete Deleted_Other]
      \<or> (\<exists>old. Pod_Update old (Some p) \<in> set [Pod_Add (Some ?p), Pod_Delete Deleted_Other])" for p
    using that by simp
  show ?thesis
    using namespace_lookup_sound [of "run_pods True [Pod_Add (Some ?p), Pod_Delete Deleted_Other] (new_watcher True :: nat watcher)"
        True "[Pod_Add (Some ?p), Pod_Delete Deleted_Other]" True "''10.0.0.7''", OF refl] known(1) p
    by (metis fst_conv meta_of_def pod.select_convs(2,3))
qed

text \<open>A deletion is by address, not by pod: when the address of a deleted pod was given to a new pod before
  the deletion is delivered, the new pod loses its namespace and labels, so that no rule
  with a namespace matches its requests any more.\<close>

theorem late_delete_drops_new_pod:
  assumes "pod_IP old = pod_IP new" and "pod_IP new \<noteq> []"
  shows "NamespaceLookup (pod_IP new) (onPodAdd (Some new) w) = (pod_Namespace new, pod_Labels new)
    \<and> NamespaceLookup (pod_IP new) (onPodDelete (Deleted_Pod old) (onPodAdd (Some new) w)) = ([], Map.empty)"
  using assms by (simp add: NamespaceLookup_def podMeta_add podMeta_del)

theorem late_delete_drops_new_pod_witness:
  "NamespaceLookup ''10.0.0.7'' (onPodDelete (Deleted_Pod \<lparr>pod_IP = ''10.0.0.7'', pod_Namespace = ''a'', pod_Labels = Map.empty\<rparr>)
     (onPodAdd (Some \<lparr>pod_IP = ''10.0.0.7'', pod_Namespace = ''b'', pod_Labels = Map.empty\<rparr>) (new_watcher True :: nat watcher))) = ([], Map.empty)"
  using late_delete_drops_new_pod [of "\<lparr>pod_IP = ''10.0.0.7'', pod_Namespace = ''a'', pod_Labels = Map.empty\<rparr>"
      "\<lparr>pod_IP = ''10.0.0.7'', pod_Namespace = ''b'', pod_Labels = Map.empty\<rparr>" "new_watcher True :: nat watcher"]
  by simp

section \<open>The pauses between watches\<close>

definition pause_ok :: "int64 \<Rightarrow> bool" where
  "pause_ok b \<longleftrightarrow> sint second \<le> sint b \<and> sint b \<le> sint maxBackoff"

lemma sint_seconds [simp]: "sint second = 1000000000" "sint maxBackoff = 60000000000"
  by (simp_all add: second_def maxBackoff_def)

lemma sint_double: "pause_ok b \<Longrightarrow> sint (b * 2) = 2 * sint b"
proof -
  assume "pause_ok b"
  then have "sint (word_of_int (sint b * 2) :: int64) = sint b * 2"
    by (intro sint_word_of_int64) (simp_all add: pause_ok_def)
  moreover have "(word_of_int (sint b * 2) :: int64) = b * 2"
    by (metis of_int_mult of_int_numeral word_of_int_sint64)
  ultimately show ?thesis by simp
qed

lemma next_pause: "pause_ok b \<Longrightarrow> sint (next_backoff True b) = min (2 * sint b) 60000000000"
  by (auto simp: next_backoff_def sint_double pause_ok_def min_def)

lemma next_pause_ok [invar_intros]: "pause_ok b \<Longrightarrow> pause_ok (next_backoff failed b)"
  using next_pause [of b] by (cases failed) (simp_all add: pause_ok_def next_backoff_def min_def split: if_splits)

lemma pauses_ok: "pause_ok b \<Longrightarrow> list_all pause_ok (snd (watchCachePolicies as_sel runs b w))"
  by (induction as_sel runs b w rule: watchCachePolicies.induct) (auto split: prod.splits simp: next_pause_ok)

lemma run_fails: "\<not> wr_cancelled run \<Longrightarrow> snd (runCachePolicyWatch as_sel run w)"
  by (simp add: runCachePolicyWatch_def Let_def split: option.split)

text \<open>The pauses after \<open>k\<close> failures in a row that start from one second.\<close>

fun doubling :: "nat \<Rightarrow> int \<Rightarrow> int list" where
  "doubling 0 b = []"
| "doubling (Suc n) b = b # doubling n (min (2 * b) 60000000000)"

lemma pauses_doubling:
  "\<forall>run \<in> set runs. \<not> wr_cancelled run \<Longrightarrow> pause_ok b \<Longrightarrow>
     map sint (snd (watchCachePolicies as_sel runs b w)) = doubling (length runs) (sint b)"
proof (induction as_sel runs b w rule: watchCachePolicies.induct)
  case (2 as_sel run runs b w)
  obtain w' where run: "runCachePolicyWatch as_sel run w = (w', True)"
    using run_fails [of run as_sel w] "2.prems"(1) by (metis list.set_intros(1) prod.collapse)
  have "map sint (snd (watchCachePolicies as_sel runs (next_backoff True b) w')) =
      doubling (length runs) (min (2 * sint b) 60000000000)"
    using 2 run by (simp add: next_pause next_pause_ok)
  with run "2.prems" show ?case
    by (cases "watchCachePolicies as_sel runs (next_backoff True b) w'") simp
qed simp

text \<open>The pauses between watches stay between one second and one minute and double up to there; and they
  are never reset: a watch whose context has not ended always ends with an error, the
  closing of its channel included, so that after six watches, however long they ran,
  every further pause is a minute.\<close>

theorem watch_backoff:
  assumes "\<forall>run \<in> set runs. \<not> wr_cancelled run"
  shows "map sint (snd (watchCachePolicies as_sel runs second w)) = doubling (length runs) 1000000000
    \<and> doubling (6 + n) 1000000000 =
        [1000000000, 2000000000, 4000000000, 8000000000, 16000000000, 32000000000] @ replicate n 60000000000"
proof
  show "map sint (snd (watchCachePolicies as_sel runs second w)) = doubling (length runs) 1000000000"
    using pauses_doubling [OF assms, of second as_sel w] by (simp add: pause_ok_def)
  have "doubling n 60000000000 = replicate n 60000000000"
    by (induction n) simp_all
  then show "doubling (6 + n) 1000000000 =
      [1000000000, 2000000000, 4000000000, 8000000000, 16000000000, 32000000000] @ replicate n 60000000000"
    by (simp add: numeral_eq_Suc)
qed

theorem watch_backoff_witness:
  "map sint (snd (watchCachePolicies (\<lambda>_. None) [\<lparr>wr_list = Some [], wr_walk = sample_walk, wr_opened = True, wr_events = [], wr_cancelled = False\<rparr>]
     second (new_watcher True))) = [1000000000]"
  using watch_backoff [of "[\<lparr>wr_list = Some [], wr_walk = sample_walk, wr_opened = True, wr_events = [], wr_cancelled = False\<rparr>]"
      "\<lambda>_. None" "new_watcher True" 0] by (simp add: numeral_eq_Suc)

end
