(* ===== verification/Latch_Main.thy ===== *)
theory Latch_Main
imports Proxy_Conn Proxy_Metrics Bpf_Redirect Tls_Ca Splice_Conn Pod_Veth K8s_Watcher
begin

text \<open>
  \<open>main.go\<close>: how the components are set up (\<open>start\<close>, the sequence of initialisations with
  its exits) and wired together (the callbacks): the watcher's callbacks hand each new policy
  to the proxy and to the enforcement, its notifications go through a channel that holds at
  most one, and the proxy learns the original destination of a connection from the map of the
  BPF programs. The running program is the step relation of the theory Latch_Run.
\<close>

section \<open>Starting\<close>

text \<open>What the program finds when it starts; \<open>wd_pki\<close> is given the directory of the CA.\<close>

record ('p, 'k) world =
  wd_setting :: "string \<Rightarrow> string \<Rightarrow> string"
  wd_int_of :: "string \<Rightarrow> int64 option"
  wd_bpf_loaded :: bool
  wd_node_ip :: string
  wd_target_put :: bool
  wd_pki :: "string \<Rightarrow> ('p, 'k) pki"
  wd_clients :: client_env

text \<open>
  The state of the program. Besides the components it holds what its goroutines are about to
  do: the calls of the callbacks that the goroutine of the pod informer and the one that
  watches the policies still have to make, and the round of the enforcement under way, with
  the entries of the mapping not looked at yet. Two components only serve to state properties:
  \<open>l_last\<close> is the mapping the last finished round found (\<open>None\<close> when it found none), and
  \<open>l_intact\<close> says that everything that round wanted could be attached and no interface was
  reported gone since.
\<close>

datatype call = Set_Proxy policy | Store_Current policy | Send_Trigger

record round_state =
  rs_map :: mapping
  rs_todo :: mapping
  rs_desired :: "int list"

record ('s, 'l, 'p, 'k) latch =
  l_config :: config
  l_target :: proxy_tgt
  l_ca :: "('p, 'k) ca option"
  l_proxy :: proxy
  l_currentPolicy :: policy
  l_watcher :: "'s watcher"
  l_manager :: "'l manager"
  l_procRoot :: string
  l_trigger :: bool
  l_pod_calls :: "call list"
  l_policy_calls :: "call list"
  l_round :: "round_state option"
  l_last :: "mapping option"
  l_intact :: bool

definition load_ca :: "(string \<Rightarrow> ('p, 'k) pki) \<Rightarrow> config \<Rightarrow> ('p, 'k) ca option" where
  "load_ca pki_of cfg =
     (if cfg_TlsCaDir cfg \<noteq> [] then (case LoadCA (pki_of (cfg_TlsCaDir cfg)) of Inl err \<Rightarrow> None | Inr ca \<Rightarrow> Some ca)
      else None)"

definition start :: "('p, 'k) world \<Rightarrow> int + ('s, 'l, 'p, 'k) latch" where
  "start w =
     (case config_New (wd_setting w) (wd_int_of w) of
        Inl code \<Rightarrow> Inl code
      | Inr cfg \<Rightarrow>
          (case Load (wd_bpf_loaded w) (wd_node_ip w) (cfg_ProxyAddr cfg) (wd_target_put w) of
             Inl code \<Rightarrow> Inl code
           | Inr tgt \<Rightarrow>
               let ca = load_ca (wd_pki w) cfg;
                   currentPolicy = new_policy []
               in case k8s_New (wd_clients w) of
                    Inl err \<Rightarrow> Inl ExitInitK8SWatcherError
                  | Inr watcher \<Rightarrow> Inr
                      \<lparr>l_config = cfg, l_target = tgt, l_ca = ca,
                       l_proxy = new_proxy (new_store (cfg_MaxCacheBytes cfg) True) currentPolicy (cfg_MaxBodyBytes cfg) (ca \<noteq> None),
                       l_currentPolicy = currentPolicy, l_watcher = SetReconcileTrigger watcher, l_manager = new_manager,
                       l_procRoot = NewResolver (cfg_ProcRoot cfg), l_trigger = False,
                       l_pod_calls = [], l_policy_calls = [], l_round = None, l_last = None, l_intact = False\<rparr>))"

text \<open>How the running program ends: the proxy stops listening, or a signal arrives.\<close>

datatype ending = Proxy_Stopped | Signalled

definition exit_code :: "ending \<Rightarrow> int" where
  "exit_code e = (case e of Proxy_Stopped \<Rightarrow> ExitInitProxyError | Signalled \<Rightarrow> ExitSuccess)"

section \<open>The callbacks\<close>

text \<open>The address lookup given to the proxy: a peer that is no TCP peer has no original destination.\<close>

definition origDstFn :: "conn_map \<Rightarrow> tcp_addr option \<Rightarrow> lookup_error + (bytes \<times> uint16)" where
  "origDstFn m remote = (case remote of None \<Rightarrow> Inr ([], 0) | Some peer \<Rightarrow> Lookup m peer)"

text \<open>
  What a connection is to its handler: the original destination and the peer's address
  as text. A peer that is no IPv4 address has no original destination, so that its text
  is never asked for.
\<close>

definition ip_string :: "bytes \<Rightarrow> string" where
  "ip_string ip = (if ip = [] then ''<nil>'' else ipv4_string ip)"

definition accepted :: "conn_map \<Rightarrow> tcp_addr option \<Rightarrow> conn \<Rightarrow> conn" where
  "accepted m remote c =
     c\<lparr>c_origDst := (case origDstFn m remote of Inl err \<Rightarrow> None | Inr (ip, port) \<Rightarrow> Some (ip_string ip, port)),
       c_peerIP := Option.bind remote (\<lambda>a. map_option ipv4_string (to4 (ta_IP a)))\<rparr>"

text \<open>The two calls of the callback for a new policy, in order.\<close>

definition onChange :: "policy \<Rightarrow> call list" where
  "onChange pol = [Set_Proxy pol, Store_Current pol]"

text \<open>A send on the full channel is dropped.\<close>

definition reconcile_trigger :: "('s, 'l, 'p, 'k) latch \<Rightarrow> ('s, 'l, 'p, 'k) latch" where
  "reconcile_trigger L = (if l_trigger L then L else L\<lparr>l_trigger := True\<rparr>)"

definition covered :: "('s, 'l, 'p, 'k) latch \<Rightarrow> string \<Rightarrow> labels \<Rightarrow> bool" where
  "covered L ns podLabels = Covered (l_currentPolicy L) ns podLabels"

section \<open>Facts\<close>

text \<open>The port of the listening address, if it has one.\<close>

definition listen_port :: "string \<Rightarrow> uint16 option" where
  "listen_port addr = Option.bind (split_host_port addr) (\<lambda>(host, port). parse_uint16 port)"

lemma load_failed: "Load loaded ip addr put_ok = Inl code \<longleftrightarrow> code = 1 \<and> (\<not> loaded \<or> listen_port addr = None \<or> \<not> put_ok)"
  by (auto simp: Load_def listen_port_def ExitEbpfLoadError_def Let_def split: option.splits)

lemma load_ok: "Load loaded ip addr put_ok = Inr tgt \<Longrightarrow> loaded \<and> put_ok \<and> listen_port addr = Some (tgt_port tgt)"
  by (auto simp: Load_def listen_port_def Let_def split: if_splits option.splits)

definition clients_ok :: "client_env \<Rightarrow> bool" where
  "clients_ok x \<longleftrightarrow> (\<exists>cfg. (InClusterConfig x = Some cfg \<or> InClusterConfig x = None \<and> ClientConfig x = Some cfg)
     \<and> NewForConfig x cfg \<and> dynamic_NewForConfig x cfg)"

lemma k8s_New_eq:
  "k8s_New x =
     (if clients_ok x then Inr (new_watcher False)
      else Inl (if loadConfig x = None then K8s_config
                else if NewForConfig x (the (loadConfig x)) then K8s_dynamic_client else K8s_client))"
  by (auto simp: clients_ok_def k8s_New_def loadConfig_def split: option.split)

section \<open>Samples\<close>

definition sample_pki :: "(nat, nat) pki" where
  "sample_pki = \<lparr>ReadFile = (\<lambda>f. Some (bytes_of f)), pem_Decode = Some,
     ParseCertificate = (\<lambda>b. Some \<lparr>xc_Raw = b, xc_NotAfter = 0, xc_IsCA = True, xc_PublicKey = 7\<rparr>),
     ParsePKCS8 = (\<lambda>b. Some 7), ParseEC = (\<lambda>b. None), ParsePKCS1 = (\<lambda>b. None), signer_Public = Some,
     MarshalPKIX = (\<lambda>n. Some [])\<rparr>"

definition sample_world :: "(nat, nat) world" where
  "sample_world =
     \<lparr>wd_setting = (\<lambda>key default. if key = ''TLS_CA_DIR'' then ''ca'' else default), wd_int_of = (\<lambda>s. Some 100),
      wd_bpf_loaded = True, wd_node_ip = [], wd_target_put = True, wd_pki = (\<lambda>dir. sample_pki), 
      wd_clients = \<lparr>InClusterConfig = Some ''cluster'', ClientConfig = None, NewForConfig = (\<lambda>c. True), dynamic_NewForConfig = (\<lambda>c. True)\<rparr>\<rparr>"

lemma sample_load: "Load True [] ''0.0.0.0:8080'' True = Inr \<lparr>tgt_ip = 0x7F000001, tgt_port = 8080\<rparr>"
proof -
  have addr: "''0.0.0.0:8080'' = join_host_port ''0.0.0.0'' (itoa 8080)"
    by (simp add: itoa.simps char_of_def bit_0 join_host_port_def)
  show ?thesis
    unfolding addr by (subst load_target) (simp_all add: ParseIP_def)
qed

definition sample_latch :: "(nat, int \<times> direction, nat, nat) latch" where
  "sample_latch = (case start sample_world of Inr L \<Rightarrow> L)"

lemma sample_start: "start sample_world = Inr sample_latch" "l_proxy sample_latch = new_proxy (new_store 100 True) (new_policy []) 100 True"
  "l_watcher sample_latch = new_watcher True" "l_currentPolicy sample_latch = new_policy []" "l_manager sample_latch = new_manager"
  "l_pod_calls sample_latch = []" "l_policy_calls sample_latch = []" "l_round sample_latch = None" "\<not> l_trigger sample_latch"
  by (simp_all add: sample_latch_def start_def config_New_def sample_world_def sample_load Let_def load_ca_def LoadCA_def
      sample_pki_def parse_key_def k8s_New_def loadConfig_def)

section \<open>Properties\<close>



text \<open>C4. What a pod sends arrives where it was sent, or is answered for that place. A connection whose packets
  the ingress program redirected is handled for the very address and port they carried:
  its bytes are spliced there, or every request that is read from it, up to the first that asks for
  the end of the connection, is answered from the cache or by one exchange with that address (or
  the 502 when that fails); no other address is contacted. Without an answer it is given up only
  on the TLS port, when that address cannot be dialled for the splice or the handshake with the
  client fails, or when no request can be read.\<close>

theorem intercepted_reaches_destination:
  assumes "helpers_ok h" and "tcp_packet e pkt = Some ihl" and "snd (receiver ihl pkt) \<in> {80, 443}" and "tgt_ip t \<noteq> 0"
    and "tc_ingress h e (Some t) (pkt, m) = (pkt', m')" and "peer_of (sender ihl pkt') peer"
    and "addr = join_host_port (ipv4_string (put32 (fst (receiver ihl pkt)))) (itoa (unat (snd (receiver ihl pkt))))"
  shows "case snd (handleConn nsFn (accepted m' (Some peer) c) p) of
      Closed \<Rightarrow> False
    | Spliced a \<Rightarrow> a = addr \<and> c_splice_dial c \<and> snd (receiver ihl pkt) = 443
    | Splice_failed a \<Rightarrow> a = addr \<and> \<not> c_splice_dial c \<and> snd (receiver ihl pkt) = 443
    | Handshake_failed \<Rightarrow> \<not> c_handshake c \<and> snd (receiver ihl pkt) = 443
    | Served effs \<Rightarrow> list_all (answered addr) effs \<and> length effs = length (handled (\<lambda>r. r) (c_requests c))"
proof -
  let ?c = "accepted m' (Some peer) c"
  obtain ip port where dst: "receiver ihl pkt = (ip, port)"
    by (cases "receiver ihl pkt")
  have "Lookup m' peer = Inr (put32 ip, port)"
    using redirected [OF assms(1-6)] dst by simp
  moreover have "put32 ip \<noteq> []"
    by (simp add: put32_def)
  ultimately have c: "c_origDst ?c = Some (ipv4_string (put32 ip), port)"
    by (simp add: accepted_def origDstFn_def ip_string_def)
  obtain ns ls where ns: "(case nsFn of None \<Rightarrow> ([], Map.empty)
      | Some f \<Rightarrow> (case c_peerIP ?c of None \<Rightarrow> ([], Map.empty) | Some peer \<Rightarrow> f peer)) = (ns, ls)"
    by (metis surj_pair)
  have h: "handleConn nsFn ?c p =
      (if port = 443 then handleTLSConn ?c addr port ns ls p
       else (case serve_requests (\<lambda>r. r) addr port ns ls (c_requests ?c) p of (p', effs) \<Rightarrow> (p', Served effs)))"
    using c ns dst assms(7) by (simp add: handleConn_def)
  obtain res where peek: "PeekSNI (c_bytes ?c) = Some res"
    using parse_hello_total peek_total by blast
  have same: "c_splice_dial ?c = c_splice_dial c" "c_handshake ?c = c_handshake c" "c_requests ?c = c_requests c"
    by (simp_all add: accepted_def)
  have served: "list_all (answered addr) effs \<and> length effs = length (handled prep rs)"
    if "serve_requests prep addr q ns ls rs p = (p', effs)" for prep q rs p' effs
    using serve_answered [of addr prep q ns ls rs p] serve_length [of prep addr q ns ls rs p] that by simp
  show ?thesis
    unfolding h using peek dst
    by (cases res) (auto simp: handleTLSConn_def spliceTo_def same handled_with_sni dest: served split: prod.split)
qed

theorem intercepted_reaches_destination_witness:
  "\<exists>eff. snd (handleConn None (accepted [\<lparr>src_ip = 0x0A000005, src_port = 40000\<rparr> \<mapsto> \<lparr>orig_dst_ip = 0x0A000009, orig_dst_port = 80\<rparr>]
     (Some \<lparr>ta_IP = [10, 0, 0, 5], ta_Port = 40000\<rparr>) (sample_conn 80 [] [sample_request ''/'' []])) (sample_proxy [])) = Served [eff]"
proof -
  let ?t = "\<lparr>tgt_ip = 0x7F000001, tgt_port = 8080\<rparr>"
  let ?r = "tc_ingress plain_helpers Little (Some ?t) (sample_packet pod_end web_end, Map.empty)"
  have p: "peer_of (0x0A000005, 40000) \<lparr>ta_IP = [10, 0, 0, 5], ta_Port = 40000\<rparr>" "sender 20 (fst ?r) = (0x0A000005, 40000)"
    by code_simp+
  have m: "snd ?r = [\<lparr>src_ip = 0x0A000005, src_port = 40000\<rparr> \<mapsto> \<lparr>orig_dst_ip = 0x0A000009, orig_dst_port = 80\<rparr>]"
    using ingress_rewrites(1) [OF plain_helpers_ok sample_packets(1), of ?t Map.empty "fst ?r" "snd ?r"]
    by (simp add: sample_packets plain_helpers_def)
  show ?thesis
    using intercepted_reaches_destination [OF plain_helpers_ok sample_packets(1) _ _ prod.collapse [symmetric] _ refl,
        where t = ?t and m = Map.empty and peer = "\<lparr>ta_IP = [10, 0, 0, 5], ta_Port = 40000\<rparr>" and nsFn = None
        and c = "sample_conn 80 [] [sample_request ''/'' []]" and p = "sample_proxy []"] p
    by (auto simp: sample_packets m sample_conn_def length_Suc_conv split: conn_result.splits if_splits)
qed

end
