(* ===== verification/Proxy_Trace.thy ===== *)
theory Proxy_Trace
imports Proxy_Caching
begin

text \<open>
  The proxy under concurrent requests. Every goroutine runs the handler; what it does
  to the shared state is a sequence of critical sections (the mutex of the cache, the
  \<open>sync.Map\<close> of the vary index, the lock of the policy), and the sections of different
  goroutines interleave in any order with each other, with the sweeper and with
  policy updates. \<open>proxy_step\<close> is one section; its second component is a ghost log of
  the responses stored so far. A run of \<open>handleRequest\<close> is one path of the relation.
\<close>

section \<open>The step relation\<close>

record store_event =
  se_env :: http_env
  se_addr :: string
  se_req :: request
  se_body :: "bytes option"
  se_port :: uint16
  se_rule :: rule
  se_resp :: response

definition event_vary :: "store_event \<Rightarrow> string list" where
  "event_vary ev = all_vary (se_env ev) (se_rule ev) (p_Header (se_resp ev))"

definition event_cfg :: "store_event \<Rightarrow> key_config" where
  "event_cfg ev = key_cfg (se_rule ev) (se_port ev) (event_vary ev)"

definition event_key :: "store_event \<Rightarrow> string" where
  "event_key ev = generate (se_req ev) (se_body ev) (event_cfg ev)"

definition event_entry :: "store_event \<Rightarrow> entry" where
  "event_entry ev = entry_of (se_env ev) (se_rule ev) (se_resp ev)"

text \<open>The upstream really answered so, and the handler may store the answer.\<close>

definition genuine :: "store_event \<Rightarrow> bool" where
  "genuine ev \<longleftrightarrow> up_dial (se_env ev) (se_addr ev)
     \<and> up_exchange (se_env ev) (se_addr ev) (se_req ev) = Responded (se_resp ev)
     \<and> is_2xx (p_StatusCode (se_resp ev)) \<and> \<not> s_fails (p_Body (se_resp ev))
     \<and> storable (se_req ev) (p_Header (se_resp ev))"

type_synonym traced = "proxy \<times> store_event list"

inductive proxy_step :: "traced \<Rightarrow> traced \<Rightarrow> bool" where
  put: "genuine ev \<Longrightarrow>
     proxy_step (p, log) (p\<lparr>px_cache := cache_set ord now (event_key ev) (event_entry ev) (px_cache p)\<rparr>, log @ [ev])"
| index: "proxy_step (p, log) (storeVaryIndex b hs p, log)"
| drop: "proxy_step (p, log) (p\<lparr>px_cache := cache_delete k (px_cache p)\<rparr>, log)"
| sweep: "proxy_step (p, log) (p\<lparr>px_cache := sweep_tick ord now (px_cache p)\<rparr>, log)"
| policy: "proxy_step (p, log) (SetPolicy pol p, log)"
| meter: "proxy_step (p, log) (p\<lparr>px_metrics := ms\<rparr>, log)"

inductive_cases proxy_stepE: "proxy_step (p, log) (p', log')"

definition proxy_reach :: "proxy \<Rightarrow> store_event list \<Rightarrow> bool" where
  "proxy_reach p log \<longleftrightarrow>
     (\<exists>m cb pol limit ca. proxy_step\<^sup>*\<^sup>* (new_proxy (new_store m cb) pol limit ca, []) (p, log))"

lemma proxy_reach_new: "proxy_reach (new_proxy (new_store m cb) pol limit ca) []"
  unfolding proxy_reach_def by blast

lemma proxy_reach_step: "proxy_reach p log \<Longrightarrow> proxy_step (p, log) (p', log') \<Longrightarrow> proxy_reach p' log'"
  unfolding proxy_reach_def by (meson rtranclp.rtrancl_into_rtrancl)

lemma proxy_reach_induct [consumes 1, case_names start step]:
  assumes "proxy_reach p log"
    and "\<And>m cb pol limit ca. P (new_proxy (new_store m cb) pol limit ca) []"
    and "\<And>p log p' log'. proxy_reach p log \<Longrightarrow> P p log \<Longrightarrow> proxy_step (p, log) (p', log') \<Longrightarrow> P p' log'"
  shows "P p log"
proof -
  obtain m cb pol limit ca
    where "proxy_step\<^sup>*\<^sup>* (new_proxy (new_store m cb) pol limit ca, []) (p, log)"
    using assms(1) proxy_reach_def by blast
  then have "proxy_reach p log \<and> P p log"
  proof (induction rule: rtranclp_induct2)
    case refl
    then show ?case using assms(2) proxy_reach_new by blast
  next
    case (step p log p' log')
    then show ?case using assms(3) proxy_reach_step by blast
  qed
  then show ?thesis by blast
qed

section \<open>The invariant\<close>

text \<open>The store is well-formed, and every entry is that of a logged response under its key.\<close>

definition accounted :: "proxy \<Rightarrow> store_event list \<Rightarrow> bool" where
  "accounted p log \<longleftrightarrow> store_ok (px_cache p)
     \<and> (\<forall>k e. cache_view (px_cache p) k = Some e \<longrightarrow>
          (\<exists>ev \<in> set log. genuine ev \<and> k = event_key ev \<and> e = event_entry ev))"

lemma accounted_le:
  "accounted p log \<Longrightarrow> store_ok (px_cache p') \<Longrightarrow> cache_view (px_cache p') \<subseteq>\<^sub>m cache_view (px_cache p) \<Longrightarrow> accounted p' log"
  unfolding accounted_def using map_le_SomeD by metis

lemma accounted_ok: "accounted p log \<Longrightarrow> store_ok (px_cache p)"
  by (simp add: accounted_def)

lemma accounted_put:
  assumes "accounted p log" and "genuine ev"
  shows "accounted (p\<lparr>px_cache := cache_set ord now (event_key ev) (event_entry ev) (px_cache p)\<rparr>) (log @ [ev])"
proof -
  let ?c = "put_entry (ord, now) (event_key ev) (event_entry ev) (px_cache p)"
  have ok: "store_ok (px_cache p)"
    using assms(1) by (simp add: accounted_def)
  have "\<exists>ev' \<in> set (log @ [ev]). genuine ev' \<and> k = event_key ev' \<and> e = event_entry ev'"
    if "cache_view ?c k = Some e" for k e
  proof (cases "k = event_key ev")
    case True
    with that cs.put_same [OF ok] assms(2) show ?thesis by auto
  next
    case False
    from cs.put_other [OF ok this that] show ?thesis
      using assms(1) by (fastforce simp: accounted_def)
  qed
  with cs.ok_put [OF ok, of "(ord, now)"] show ?thesis
    by (simp add: accounted_def put_entry_def)
qed

lemma proxy_step_accounted: "proxy_step (p, log) (p', log') \<Longrightarrow> accounted p log \<Longrightarrow> accounted p' log'"
proof (erule proxy_stepE)
  fix ord now assume "accounted p log" "p' = p\<lparr>px_cache := sweep_tick ord now (px_cache p)\<rparr>" "log' = log"
  then show "accounted p' log'"
    using accounted_le [of p log p'] cs.tick_le [of "px_cache p" "(ord, now)"] cs.ok_tick [of "px_cache p" "(ord, now)"]
    by (simp add: sweep_with_def accounted_ok)
next
  fix k assume "accounted p log" "p' = p\<lparr>px_cache := cache_delete k (px_cache p)\<rparr>" "log' = log"
  then show "accounted p' log'"
    using accounted_le [of p log p'] cs.del_eq [of "px_cache p" k] cs.ok_del [of "px_cache p" k]
    by (simp add: accounted_ok map_le_drop)
qed (simp_all add: accounted_put, simp_all add: accounted_def SetPolicy_def)

lemma proxy_reach_accounted: "proxy_reach p log \<Longrightarrow> accounted p log"
proof (induction rule: proxy_reach_induct)
  case (start m cb pol limit ca)
  then show ?case by (simp add: accounted_def new_proxy_def new_store_ok)
qed (rule proxy_step_accounted)

section \<open>A run of the handler is a path\<close>

lemma canonical_cache_control: "canonical_header_key ''Cache-Control'' = ''Cache-Control''"
  by code_simp

lemma storable_wire [simp]: "storable (wire_request req body) h = storable req h"
  by (simp add: storable_def req_directive_def canonical_cache_control)

lemma proxy_eqI:
  "same_config p p' \<Longrightarrow> px_cache p' = px_cache p \<Longrightarrow> px_varyIndex p' = px_varyIndex p \<Longrightarrow>
     p' = p\<lparr>px_metrics := px_metrics p'\<rparr>"
  by (cases p; cases p') (simp add: same_config_def)

text \<open>The event that a request logs when it stores a response.\<close>

definition event_of :: "http_env \<Rightarrow> string \<Rightarrow> request \<Rightarrow> proxy \<Rightarrow> uint16 \<Rightarrow> rule \<Rightarrow> response \<Rightarrow> store_event" where
  "event_of env addr req p port r resp =
     \<lparr>se_env = env, se_addr = addr, se_req = sent req p, se_body = buffered req p, se_port = port, se_rule = r, se_resp = resp\<rparr>"

lemma event_of_key:
  "event_key (event_of env addr req p port r resp) = store_key env r (sent req p) (buffered req p) port (p_Header resp)"
  "event_entry (event_of env addr req p port r resp) = entry_of env r resp"
  by (simp_all add: event_key_def event_cfg_def event_vary_def event_of_def store_key_def event_entry_def)

lemma genuine_event_of: "may_store env req addr p resp \<Longrightarrow> genuine (event_of env addr req p port r resp)"
  by (simp add: genuine_def event_of_def may_store_def)

text \<open>
  The critical sections of one run of the handler, called in the state \<open>p0\<close>: it may drop the entry
  under the key it looks up, set the vary names of its own target, put a response that the
  upstream gave to this very run under the rule that matched, and count. It does not touch
  the policy, the limit or the CA.
\<close>

inductive handler_step ::
  "http_env \<Rightarrow> request \<Rightarrow> string \<Rightarrow> uint16 \<Rightarrow> string \<Rightarrow> labels \<Rightarrow> proxy \<Rightarrow> traced \<Rightarrow> traced \<Rightarrow> bool"
  for env req addr port ns ls p0 where
  drop_own: "match_for p0 req addr port ns ls = Some r \<Longrightarrow> handler_step env req addr port ns ls p0 (p, log)
     (p\<lparr>px_cache := cache_delete (lookup_key env r req (buffered req p0) port p0) (px_cache p)\<rparr>, log)"
| index_own: "handler_step env req addr port ns ls p0 (p, log) (storeVaryIndex (base_key req port) hs p, log)"
| put_own: "match_for p0 req addr port ns ls = Some r \<Longrightarrow> \<not> too_large req p0 \<Longrightarrow> may_store env req addr p0 resp \<Longrightarrow>
     ev = event_of env addr req p0 port r resp \<Longrightarrow> handler_step env req addr port ns ls p0 (p, log)
     (p\<lparr>px_cache := cache_set (set_order env) (t_set env) (event_key ev) (event_entry ev) (px_cache p)\<rparr>, log @ [ev])"
| meter_own: "handler_step env req addr port ns ls p0 (p, log) (p\<lparr>px_metrics := ms\<rparr>, log)"

lemma handler_step_proxy: "handler_step env req addr port ns ls p0 s s' \<Longrightarrow> proxy_step s s'"
  by (induction rule: handler_step.induct) (auto intro: proxy_step.intros genuine_event_of)

lemma handler_steps_proxy: "(handler_step env req addr port ns ls p0)\<^sup>*\<^sup>* s s' \<Longrightarrow> proxy_step\<^sup>*\<^sup>* s s'"
  by (metis handler_step_proxy mono_rtranclp)

lemma meter_to:
  assumes "(handler_step env req addr port ns ls p0)\<^sup>*\<^sup>* s (p, log)" and "same_config p p'" and "px_cache p' = px_cache p"
    and "px_varyIndex p' = px_varyIndex p"
  shows "(handler_step env req addr port ns ls p0)\<^sup>*\<^sup>* s (p', log)"
  using assms(1) handler_step.meter_own [of env req addr port ns ls p0 p log "px_metrics p'"] proxy_eqI [OF assms(2-4)]
  by (metis rtranclp.rtrancl_into_rtrancl)

lemma drop_or_stay:
  assumes "match_for p0 req addr port ns ls = Some r"
    and "c = px_cache p \<or> c = cache_delete (lookup_key env r req (buffered req p0) port p0) (px_cache p)"
  shows "(handler_step env req addr port ns ls p0)\<^sup>*\<^sup>* (p, log) (p\<lparr>px_cache := c\<rparr>, log)"
proof -
  have "p\<lparr>px_cache := px_cache p\<rparr> = p"
    by simp
  with assms show ?thesis
    by (metis handler_step.drop_own r_into_rtranclp rtranclp.rtrancl_refl)
qed

lemma handler_path:
  assumes "sane_limit p"
  shows "\<exists>evs. (handler_step env req addr port ns ls p)\<^sup>*\<^sup>* (p, log) (fst (handleRequest env req addr port ns ls p), log @ evs)
    \<and> length evs \<le> 1"
proof -
  let ?steps = "(handler_step env req addr port ns ls p)\<^sup>*\<^sup>*"
  obtain p' eff where res: "handleRequest env req addr port ns ls p = (p', eff)"
    by (cases "handleRequest env req addr port ns ls p")
  have "\<exists>evs. ?steps (p, log) (p', log @ evs) \<and> length evs \<le> 1"
    using res assms
  proof (cases rule: handle_effect_on_cache)
    case kept
    then have "?steps (p, log) (p', log)"
      by (intro meter_to [OF rtranclp.rtrancl_refl])
    then show ?thesis by (intro exI [of _ "[]"]) simp
  next
    case (dropped k r)
    then have "?steps (p, log) (p', log)"
      by (intro meter_to [OF drop_or_stay [OF dropped(1), of "cache_delete k (px_cache p)"]]) (auto simp: same_config_def)
    then show ?thesis by (intro exI [of _ "[]"]) simp
  next
    case (added r resp c)
    let ?ev = "event_of env addr req p port r resp"
    let ?key = "lookup_key env r req (buffered req p) port p"
    let ?c = "if event_key ?ev \<noteq> ?key then cache_delete ?key c else c"
    let ?p1 = "storeVaryIndex (base_key req port) (all_vary env r (p_Header resp)) (p\<lparr>px_cache := c\<rparr>)"
    let ?p2 = "?p1\<lparr>px_cache := ?c\<rparr>"
    let ?p3 = "?p2\<lparr>px_cache := cache_set (set_order env) (t_set env) (event_key ?ev) (event_entry ?ev) ?c\<rparr>"
    have "?steps (p, log) (p\<lparr>px_cache := c\<rparr>, log)"
      by (rule drop_or_stay [OF added(1) lookup_cached_miss [OF added(4)]])
    then have "?steps (p, log) (?p1, log)"
      by (rule rtranclp.rtrancl_into_rtrancl) (rule handler_step.index_own)
    also have "?steps (?p1, log) (?p2, log)"
      by (rule drop_or_stay [OF added(1)]) auto
    also have "handler_step env req addr port ns ls p (?p2, log) (?p3, log @ [?ev])"
      using handler_step.put_own [OF added(1-3) refl, of ?p2 log] by simp
    finally have "?steps (p, log) (?p3, log @ [?ev])" .
    then have "?steps (p, log) (p', log @ [?ev])"
      by (rule meter_to) (use added in \<open>simp_all add: same_config_def stored_cache_def event_of_key storeVaryIndex_def\<close>)
    then show ?thesis by (intro exI [of _ "[?ev]"]) simp
  qed
  with res show ?thesis by simp
qed

lemma handle_path:
  assumes "sane_limit p"
  shows "\<exists>evs. proxy_step\<^sup>*\<^sup>* (p, log) (fst (handleRequest env req addr port ns ls p), log @ evs)"
  using handler_path [OF assms] handler_steps_proxy by blast

section \<open>Properties\<close>

text \<open>C21. A run of the handler is a sequence of its own critical sections. From the state it is called in, and
  whatever the request, its effect on the cache, the index and the configuration is that of steps
  which only drop the entry under the key it looks up, set the vary names of its own target, and
  put a response that the upstream gave to this very run and that may be stored, at most one and
  under the rule that matched; none of them touches the policy. Each is a step of \<open>proxy_step\<close>, so
  that reachable states stay reachable. The limit \<open>maxBodyBytes\<close> must not be negative, and adding one
  to it must not overflow. What is counted is not followed here.\<close>

theorem handler_refines_steps:
  assumes "sane_limit p"
  shows "\<exists>evs. (handler_step env req addr port ns ls p)\<^sup>*\<^sup>* (p, log) (fst (handleRequest env req addr port ns ls p), log @ evs)
    \<and> length evs \<le> 1 \<and> (proxy_reach p log \<longrightarrow> proxy_reach (fst (handleRequest env req addr port ns ls p)) (log @ evs))"
proof -
  obtain evs where evs: "(handler_step env req addr port ns ls p)\<^sup>*\<^sup>* (p, log) (fst (handleRequest env req addr port ns ls p), log @ evs)"
    "length evs \<le> 1"
    using handler_path [OF assms] by blast
  with handler_steps_proxy [OF evs(1)] show ?thesis
    unfolding proxy_reach_def by (meson rtranclp_trans)
qed

theorem handler_refines_steps_witness:
  "\<exists>evs. proxy_reach (fst (handleRequest (sample_env (sample_response [] [1])) (sample_request ''/'' []) ''a'' 80 [] Map.empty
     (sample_proxy [open_rule]))) evs"
proof -
  have "proxy_reach (sample_proxy [open_rule]) []"
    by (simp add: sample_proxy_def proxy_reach_new)
  with handler_refines_steps [of "sample_proxy [open_rule]"] show ?thesis
    by (metis sample_proxy_simps(5))
qed

text \<open>C1. No request is answered with another target's response. In every reachable state, under every
  interleaving, a hit is the entry of a logged response: one that the upstream gave to a
  request with the same host, method, URI and port, with the lifetime derived from it.
  When the two keys were made from the same configuration, the two requests also agree
  on the body (if the rule includes it) and on every vary header. SHA-256 is assumed not
  to collide on the texts of the keys involved.\<close>

theorem hit_provenance:
  assumes "proxy_reach p log" and "cache_view (px_cache p) (lookup_key env r req body port p) = Some e"
    and "request_lines req" and "\<forall>ev \<in> set log. request_lines (se_req ev)"
    and "\<forall>ev \<in> set log. no_collision (key_preimage (se_req ev) (se_body ev) (event_cfg ev))
      (key_preimage req body (key_cfg r port (lookup_vary env r req port p)))"
  shows "\<exists>ev \<in> set log. genuine ev \<and> e = event_entry ev \<and> same_target (se_req ev) (se_port ev) req port
    \<and> (event_cfg ev = key_cfg r port (lookup_vary env r req port p) \<and> names_ok (event_vary ev) \<longrightarrow>
         (CacheBody r \<longrightarrow> body_text (se_body ev) = body_text body)
         \<and> (\<forall>n \<in> set (event_vary ev). header_get (r_Header (se_req ev)) n = header_get (r_Header req) n))"
proof -
  let ?cfg = "key_cfg r port (lookup_vary env r req port p)"
  obtain ev where ev: "ev \<in> set log" "genuine ev" "lookup_key env r req body port p = event_key ev" "e = event_entry ev"
    using proxy_reach_accounted [OF assms(1)] assms(2) by (auto simp: accounted_def)
  have gen: "generate (se_req ev) (se_body ev) (event_cfg ev) = generate req body ?cfg"
    using ev(3) by (simp add: event_key_def lookup_key_def)
  have nc: "no_collision (key_preimage (se_req ev) (se_body ev) (event_cfg ev)) (key_preimage req body ?cfg)"
    using assms(5) ev(1) by blast
  have lines: "request_lines (se_req ev)"
    using assms(4) ev(1) by blast
  have eq: "key_preimage (se_req ev) (se_body ev) (event_cfg ev) = key_preimage req body ?cfg"
    by (rule generate_inject [OF gen nc])
  have "same_target (se_req ev) (se_port ev) req port"
    using preimage_target(1) [OF lines assms(3) eq] by (simp add: event_cfg_def)
  moreover have "(CacheBody r \<longrightarrow> body_text (se_body ev) = body_text body)
      \<and> (\<forall>n \<in> set (event_vary ev). header_get (r_Header (se_req ev)) n = header_get (r_Header req) n)"
    if cfg: "event_cfg ev = ?cfg" and ok: "names_ok (event_vary ev)"
  proof -
    have "VaryHeaders ?cfg = event_vary ev"
      using cfg by (metis event_cfg_def key_cfg_simps(2))
    then show ?thesis
      using preimage_inject [OF lines assms(3), of ?cfg "se_body ev" body] eq ok by (simp add: cfg)
  qed
  ultimately show ?thesis
    using ev by blast
qed

definition sample_event :: store_event where
  "sample_event =
     event_of (sample_env (sample_response [] [1])) ''10.0.0.1:80'' (sample_request ''/a'' []) (sample_proxy [open_rule]) 80 open_rule
       (sample_response [] [1])"

definition after_event :: proxy where
  "after_event =
     (sample_proxy [open_rule])\<lparr>px_cache := cache_set id 0 (event_key sample_event) (event_entry sample_event) (new_store 1000 True)\<rparr>"

lemma genuine_sample: "genuine sample_event"
proof -
  have "may_store (sample_env (sample_response [] [1])) (sample_request ''/a'' []) ''10.0.0.1:80'' (sample_proxy [open_rule]) (sample_response [] [1])"
    by (simp add: may_store_def sample_env_def sample_response_def is_2xx_def storable_def header_get_def bytes_reader_def
        parseCacheControl_def responseCacheable_def)
  then show ?thesis
    by (simp add: sample_event_def genuine_event_of)
qed

lemma after_event_reach: "proxy_reach after_event [sample_event]"
proof -
  from proxy_step.put [OF genuine_sample, of "sample_proxy [open_rule]" "[]" id 0]
  have "proxy_step (sample_proxy [open_rule], []) (after_event, [sample_event])"
    by (simp add: after_event_def)
  then show ?thesis
    by (rule proxy_reach_step [rotated]) (simp add: sample_proxy_def proxy_reach_new)
qed

theorem hit_provenance_witness:
  "same_target (se_req sample_event) (se_port sample_event) (sample_request ''/a'' []) 80"
proof -
  let ?env = "sample_env (sample_response [] [1])" and ?req = "sample_request ''/a'' []"
  have "lookupVaryIndex b after_event = []" for b
    by (simp add: lookupVaryIndex_def after_event_def)
  then have v: "lookup_vary ?env open_rule ?req 80 after_event = []"
    by (simp add: lookup_vary_def)
  have ev: "event_vary sample_event = []" "se_req sample_event = sent ?req (sample_proxy [open_rule])"
    "se_body sample_event = None" "se_rule sample_event = open_rule" "se_port sample_event = 80"
    by (simp_all add: event_vary_def sample_event_def event_of_def)
  have cfg: "event_cfg sample_event = key_cfg open_rule 80 []"
    by (simp add: event_cfg_def ev)
  have pre: "key_preimage (se_req sample_event) None (key_cfg open_rule 80 []) = key_preimage ?req None (key_cfg open_rule 80 [])"
    by (rule key_preimage_cong) (simp_all add: ev key_host_def vary_pairs_def)
  then have key: "lookup_key ?env open_rule ?req None 80 after_event = event_key sample_event"
    by (simp add: lookup_key_def event_key_def v cfg ev(3) generate_def)
  have "cache_view (px_cache after_event) (event_key sample_event) = Some (event_entry sample_event)"
    using cs.put_fits [OF new_store_ok [of 1000 True], of "event_entry sample_event" "(id, 0)" "event_key sample_event"]
    by (simp add: after_event_def put_entry_def sample_event_def event_of_key sample_fits)
  moreover have "request_lines ?req"
    by (rule request_lines_sample) (simp add: one_line_def)
  moreover have "request_lines (se_req sample_event)"
    using \<open>request_lines ?req\<close> by (simp add: ev request_lines_def key_host_def split: if_splits)
  ultimately show ?thesis
    using hit_provenance [OF after_event_reach, of ?env open_rule ?req None 80 "event_entry sample_event"] pre
    by (simp add: key v cfg ev no_collision_def)
qed

end
