(* ===== verification/Latch_Run.thy ===== *)
theory Latch_Run
imports Latch_Main Proxy_Trace
begin

text \<open>
  The running program: the goroutines that \<open>main.go\<close> starts (the pod informer and the policy
  watch of \<open>internal/k8s/watcher.go\<close>, the enforcement of \<open>internal/podveth/enforce.go\<close>, the
  handlers of connections, the interface manager's watch, the sweeper of the cache) take
  turns. An operation of the watcher and each call of a callback are steps of their own, and
  so are the parts of a round of the enforcement: it begins, looks at one entry of the
  mapping after the other, and ends with the reconciliation; anything may happen in between.
  Requests are handled side by side: a step of a handler is one of its critical sections.
\<close>

section \<open>The steps\<close>

text \<open>What an operation of the watcher appends to the record of its callbacks, as the calls to be made.\<close>

definition calls_of :: "w_effect \<Rightarrow> call list" where
  "calls_of ef = (case ef of Published pol \<Rightarrow> onChange pol | Notified \<Rightarrow> [Send_Trigger])"

definition due_calls :: "('s watcher \<Rightarrow> 's watcher) \<Rightarrow> 's watcher \<Rightarrow> call list" where
  "due_calls f w = concat (map calls_of (drop (length (w_effects w)) (w_effects (f w))))"

definition perform :: "call \<Rightarrow> ('s, 'l, 'p, 'k) latch \<Rightarrow> ('s, 'l, 'p, 'k) latch" where
  "perform c L =
     (case c of
        Set_Proxy pol \<Rightarrow> L\<lparr>l_proxy := SetPolicy pol (l_proxy L)\<rparr>
      | Store_Current pol \<Rightarrow> L\<lparr>l_currentPolicy := pol\<rparr>
      | Send_Trigger \<Rightarrow> reconcile_trigger L)"

definition pod_op :: "('s watcher \<Rightarrow> 's watcher) \<Rightarrow> ('s, 'l, 'p, 'k) latch \<Rightarrow> ('s, 'l, 'p, 'k) latch" where
  "pod_op f L = L\<lparr>l_watcher := f (l_watcher L), l_pod_calls := due_calls f (l_watcher L)\<rparr>"

definition policy_op :: "('s watcher \<Rightarrow> 's watcher) \<Rightarrow> ('s, 'l, 'p, 'k) latch \<Rightarrow> ('s, 'l, 'p, 'k) latch" where
  "policy_op f L = L\<lparr>l_watcher := f (l_watcher L), l_policy_calls := due_calls f (l_watcher L)\<rparr>"

text \<open>The parts of \<open>enforceOnce\<close>: \<open>Resolve\<close>, one turn of its loop, the reconciliation.\<close>

definition begin_round ::
  "(string \<times> int) order \<Rightarrow> mapping option \<Rightarrow> ('s, 'l, 'p, 'k) latch \<Rightarrow> ('s, 'l, 'p, 'k) latch" where
  "begin_round ord mappings L =
     (case mappings of
        None \<Rightarrow> L\<lparr>l_last := None\<rparr>
      | Some m \<Rightarrow> L\<lparr>l_round := Some \<lparr>rs_map = m, rs_todo = go_range ord m, rs_desired = []\<rparr>\<rparr>)"

definition visit_entry ::
  "string \<times> int \<Rightarrow> mapping \<Rightarrow> round_state \<Rightarrow> ('s, 'l, 'p, 'k) latch \<Rightarrow> ('s, 'l, 'p, 'k) latch" where
  "visit_entry e es r L =
     L\<lparr>l_round := Some (r\<lparr>rs_todo := es,
         rs_desired := desired_loop (\<lambda>ip. NamespaceLookup ip (l_watcher L)) (covered L) [e] (rs_desired r)\<rparr>)\<rparr>"

definition end_round ::
  "'l reconcile_env \<Rightarrow> round_state \<Rightarrow> ('s, 'l, 'p, 'k) latch \<Rightarrow> ('s, 'l, 'p, 'k) latch" where
  "end_round x r L =
     L\<lparr>l_manager := Reconcile x (rs_desired r) (l_manager L), l_round := None, l_last := Some (rs_map r),
       l_intact := list_all (attachable (re_tcx x)) (rs_desired r)\<rparr>"

text \<open>
  A goroutine of the watcher makes the calls of one operation before the next. The pods and
  policies delivered by the API server are arbitrary, but a list names no policy twice. The
  namespace and labels of a request were looked up when its connection was accepted. A handler
  that nothing disturbs is one step; the handlers of several connections take turns in their
  critical sections, those of the theory Proxy_Trace, whose only write to the policy is the
  callback's.
\<close>

inductive latch_step :: "('s \<Rightarrow> selector option) \<Rightarrow> ('s, 'l, 'p, 'k) latch \<Rightarrow> ('s, 'l, 'p, 'k) latch \<Rightarrow> bool"
  for as_sel where
  pods: "l_pod_calls L = [] \<Longrightarrow> latch_step as_sel L (pod_op (pod_handler ev) L)"
| policies_listed: "l_policy_calls L = [] \<Longrightarrow> distinct (keys (listed items)) \<Longrightarrow>
     latch_step as_sel L (policy_op (\<lambda>w. rebuild as_sel x (w\<lparr>polMap := list_policies items\<rparr>)) L)"
| policy_event: "l_policy_calls L = [] \<Longrightarrow> latch_step as_sel L (policy_op (handlePolicyEvent as_sel x ev) L)"
| pod_call: "l_pod_calls L = c # cs \<Longrightarrow> latch_step as_sel L (perform c (L\<lparr>l_pod_calls := cs\<rparr>))"
| policy_call: "l_policy_calls L = c # cs \<Longrightarrow> latch_step as_sel L (perform c (L\<lparr>l_policy_calls := cs\<rparr>))"
| tick: "l_round L = None \<Longrightarrow> latch_step as_sel L (begin_round ord mappings L)"
| triggered: "l_round L = None \<Longrightarrow> l_trigger L \<Longrightarrow> latch_step as_sel L (begin_round ord mappings (L\<lparr>l_trigger := False\<rparr>))"
| entry: "l_round L = Some r \<Longrightarrow> rs_todo r = e # es \<Longrightarrow> latch_step as_sel L (visit_entry e es r L)"
| round_end: "l_round L = Some r \<Longrightarrow> rs_todo r = [] \<Longrightarrow> latch_step as_sel L (end_round x r L)"
| link_update: "latch_step as_sel L (L\<lparr>l_manager := watch_update b idx (l_manager L), l_intact := l_intact L \<and> \<not> b\<rparr>)"
| accept: "latch_step as_sel L (L\<lparr>l_proxy := observe BPFRedirect (l_proxy L)\<rparr>)"
| request: "latch_step as_sel L (L\<lparr>l_proxy := fst (handleRequest env req addr port ns ls (l_proxy L))\<rparr>)"
| critical: "proxy_step (l_proxy L, log) (p, log') \<Longrightarrow> px_policy p = px_policy (l_proxy L) \<Longrightarrow> latch_step as_sel L (L\<lparr>l_proxy := p\<rparr>)"
| sweep: "latch_step as_sel L (L\<lparr>l_proxy := (l_proxy L)\<lparr>px_cache := sweep_tick ord now (px_cache (l_proxy L))\<rparr>\<rparr>)"

inductive_cases latch_stepE: "latch_step as_sel L L'"

abbreviation latch_steps :: "('s \<Rightarrow> selector option) \<Rightarrow> ('s, 'l, 'p, 'k) latch \<Rightarrow> ('s, 'l, 'p, 'k) latch \<Rightarrow> bool" where
  "latch_steps as_sel \<equiv> (latch_step as_sel)\<^sup>*\<^sup>*"

definition latch_reach :: "('s \<Rightarrow> selector option) \<Rightarrow> ('s, 'l, 'p, 'k) latch \<Rightarrow> bool" where
  "latch_reach as_sel L \<longleftrightarrow> (\<exists>(w :: ('p, 'k) world) L0. start w = Inr L0 \<and> latch_steps as_sel L0 L)"

lemma latch_reach_step: "latch_reach as_sel L \<Longrightarrow> latch_step as_sel L L' \<Longrightarrow> latch_reach as_sel L'"
  unfolding latch_reach_def by (meson rtranclp.rtrancl_into_rtrancl)

lemma latch_reach_steps: "latch_reach as_sel L \<Longrightarrow> latch_steps as_sel L L' \<Longrightarrow> latch_reach as_sel L'"
  unfolding latch_reach_def by (meson rtranclp_trans)

section \<open>What the watcher's operations are due to call\<close>

lemma due_quiet: "w_effects (f w) = w_effects w \<Longrightarrow> due_calls f w = []"
  by (simp add: due_calls_def)

lemma due_notified: "w_effects (f w) = w_effects w @ [Notified] \<Longrightarrow> due_calls f w = [Send_Trigger]"
  by (simp add: due_calls_def calls_of_def)

lemma due_published:
  "w_effects (f w) = w_effects w @ [Published pol, Notified] \<Longrightarrow> due_calls f w = [Set_Proxy pol, Store_Current pol, Send_Trigger]"
  by (simp add: due_calls_def calls_of_def onChange_def)

lemma rebuild_effects:
  "w_has_notify w \<Longrightarrow> w_effects (rebuild as_sel x w) = w_effects w @ [Published (rebuilt as_sel x w), Notified]"
  "w_has_notify (rebuild as_sel x w) = w_has_notify w"
  by (simp_all add: rebuild_def fireNotify_def)

lemma rebuilt_polMap: "polMap w = polMap w' \<Longrightarrow> rebuilt as_sel x w = rebuilt as_sel x w'"
  by (simp add: rebuilt_def)

lemma pod_ops:
  assumes "w_has_notify w" and "f = pod_handler ev"
  shows "f w = w \<and> due_calls f w = [] \<or> due_calls f w = [Send_Trigger]"
    and "polMap (f w) = polMap w" and "w_has_notify (f w)"
proof -
  have "f w = w \<or> w_effects (f w) = w_effects w @ [Notified]"
    using assms
    by (auto simp: pod_handler_def onPodAdd_def onPodDelete_def fireNotify_def Let_def
        split: pod_event.split option.split deleted.split)
  then show "f w = w \<and> due_calls f w = [] \<or> due_calls f w = [Send_Trigger]"
    using due_quiet [of f w] due_notified [of f w] by auto
  show "polMap (f w) = polMap w" "w_has_notify (f w)"
    using assms
    by (auto simp: pod_handler_def onPodAdd_def onPodDelete_def fireNotify_def Let_def
        split: pod_event.split option.split deleted.split)
qed

lemma event_cases:
  assumes "map_ok (polMap w)"
  shows "handlePolicyEvent as_sel x ev w = w
    \<or> (\<exists>m. map_ok m \<and> handlePolicyEvent as_sel x ev w = rebuild as_sel x (w\<lparr>polMap := m\<rparr>))"
proof -
  have "\<exists>m. map_ok m \<and> rebuild as_sel x w = rebuild as_sel x (w\<lparr>polMap := m\<rparr>)"
    using assms by (intro exI [of _ "polMap w"]) simp
  moreover have "map_ok (put_policy cp (polMap w))" "map_ok (del_policy cp (polMap w))" for cp
    using assms by (simp_all add: invar_intros)
  ultimately show ?thesis
    by (cases ev) (auto simp: handlePolicyEvent_def)
qed

lemma due_rebuild:
  assumes "w_has_notify w" and "f w = rebuild as_sel x (w\<lparr>polMap := m\<rparr>)"
  shows "due_calls f w = [Set_Proxy (rebuilt as_sel x (f w)), Store_Current (rebuilt as_sel x (f w)), Send_Trigger]"
proof -
  have "rebuilt as_sel x (w\<lparr>polMap := m\<rparr>) = rebuilt as_sel x (f w)"
    by (rule rebuilt_polMap) (simp add: assms(2))
  then have "w_effects (f w) = w_effects w @ [Published (rebuilt as_sel x (f w)), Notified]"
    using rebuild_effects(1) [of "w\<lparr>polMap := m\<rparr>" as_sel x] assms by simp
  then show ?thesis
    by (rule due_published)
qed

section \<open>The invariant of the running program\<close>

definition due :: "('s, 'l, 'p, 'k) latch \<Rightarrow> bool" where
  "due L \<longleftrightarrow> l_trigger L \<or> Send_Trigger \<in> set (l_pod_calls L) \<or> Send_Trigger \<in> set (l_policy_calls L)"

text \<open>The interfaces of a mapping on which there is a pod that is covered now.\<close>

definition hosts :: "('s, 'l, 'p, 'k) latch \<Rightarrow> mapping \<Rightarrow> int set" where
  "hosts L m = covered_hosts (\<lambda>ip. NamespaceLookup ip (l_watcher L)) (covered L) m"

text \<open>
  \<open>lagging\<close>: the calls for the current policy that are still to come are the last ones of
  the three, and those made have had their effect. \<open>settled\<close>: a round under way decided on
  the entries it has seen as it would decide now, and what the last one attached is what one
  would attach now.
\<close>

definition lagging :: "policy \<Rightarrow> ('s, 'l, 'p, 'k) latch \<Rightarrow> bool" where
  "lagging pol L \<longleftrightarrow> suffix (l_policy_calls L) [Set_Proxy pol, Store_Current pol, Send_Trigger]
     \<and> (Set_Proxy pol \<notin> set (l_policy_calls L) \<longrightarrow> px_policy (l_proxy L) = pol)
     \<and> (Store_Current pol \<notin> set (l_policy_calls L) \<longrightarrow> l_currentPolicy L = pol)"

definition settled :: "('s, 'l, 'p, 'k) latch \<Rightarrow> bool" where
  "settled L \<longleftrightarrow>
     (\<forall>r. l_round L = Some r \<longrightarrow> (\<exists>seen. set seen \<union> set (rs_todo r) = set (rs_map r) \<and> set (rs_desired r) = hosts L seen))
     \<and> (\<forall>m. l_round L = None \<longrightarrow> l_last L = Some m \<longrightarrow>
          attached_to (l_manager L) \<subseteq> hosts L m \<and> (l_intact L \<longrightarrow> attached_to (l_manager L) = hosts L m))"

definition coherent :: "('s \<Rightarrow> selector option) \<Rightarrow> ('s, 'l, 'p, 'k) latch \<Rightarrow> bool" where
  "coherent as_sel L \<longleftrightarrow> (\<exists>x. lagging (rebuilt as_sel x (l_watcher L)) L) \<and> suffix (l_pod_calls L) [Send_Trigger]
     \<and> map_ok (polMap (l_watcher L)) \<and> w_has_notify (l_watcher L) \<and> links_ok (l_manager L)
     \<and> (px_has_ca (l_proxy L) \<longleftrightarrow> l_ca L \<noteq> None) \<and> (\<not> due L \<longrightarrow> settled L)"

lemma suffix_calls:
  "suffix cs [a] \<longleftrightarrow> cs = [] \<or> cs = [a]"
  "suffix cs [a, b, c] \<longleftrightarrow> cs = [] \<or> cs = [c] \<or> cs = [b, c] \<or> cs = [a, b, c]"
  by (auto simp only: suffix_Cons suffix_Nil)

lemma due_calls_left:
  assumes "coherent as_sel L"
  shows "\<not> due L \<longleftrightarrow> \<not> l_trigger L \<and> l_pod_calls L = [] \<and> l_policy_calls L = []"
  using assms by (auto simp: coherent_def due_def lagging_def suffix_calls)

text \<open>What is covered depends on the pods and on the current policy only.\<close>

lemma hosts_cong:
  "l_watcher L' = l_watcher L \<Longrightarrow> l_currentPolicy L' = l_currentPolicy L \<Longrightarrow> hosts L' m = hosts L m"
  by (simp add: hosts_def covered_hosts_def covered_def)

lemma hosts_same [simp]:
  "hosts (L\<lparr>l_proxy := p\<rparr>) = hosts L" "hosts (L\<lparr>l_manager := g, l_intact := b\<rparr>) = hosts L"
  "hosts (L\<lparr>l_round := r\<rparr>) = hosts L" "hosts (L\<lparr>l_last := z\<rparr>) = hosts L" "hosts (L\<lparr>l_trigger := b\<rparr>) = hosts L"
  "hosts (L\<lparr>l_manager := g, l_round := r, l_last := z, l_intact := b\<rparr>) = hosts L"
  by (simp_all add: fun_eq_iff hosts_def covered_hosts_def covered_def)

lemma covered_same [simp]: "covered (L\<lparr>l_round := r\<rparr>) = covered L" "covered (L\<lparr>l_trigger := b\<rparr>) = covered L"
  by (simp_all add: covered_def fun_eq_iff)

lemma hosts_parts: "hosts L [] = {}" "hosts L (m @ m') = hosts L m \<union> hosts L m'"
  by (auto simp: hosts_def covered_hosts_def)

lemma hosts_set: "set m = set m' \<Longrightarrow> hosts L m = hosts L m'"
  by (simp add: hosts_def covered_hosts_def)

lemma coherent_proxy:
  assumes "coherent as_sel L" and "px_policy p = px_policy (l_proxy L)" and "px_has_ca p = px_has_ca (l_proxy L)"
  shows "coherent as_sel (L\<lparr>l_proxy := p\<rparr>)"
  using assms by (simp add: coherent_def lagging_def due_def settled_def)

lemma proxy_step_keeps: "proxy_step (p, log) (p', log') \<Longrightarrow> px_has_ca p' = px_has_ca p \<and> px_maxBodyBytes p' = px_maxBodyBytes p"
  by (erule proxy_stepE) (simp_all add: storeVaryIndex_def SetPolicy_def)

lemma coherent_pods:
  assumes "coherent as_sel L" and "l_pod_calls L = []" and "f = pod_handler ev"
  shows "coherent as_sel (pod_op f L)"
proof -
  let ?w = "l_watcher L"
  have n: "w_has_notify ?w"
    using assms(1) by (simp add: coherent_def)
  note p = pod_ops [OF n assms(3)]
  from p(1) show ?thesis
  proof
    assume "f ?w = ?w \<and> due_calls f ?w = []"
    then have "pod_op f L = L"
      using assms(2) by (simp add: pod_op_def)
    with assms(1) show ?thesis by simp
  next
    assume "due_calls f ?w = [Send_Trigger]"
    then show ?thesis
      using assms(1) p(2,3) rebuilt_polMap [OF p(2)] by (simp add: coherent_def pod_op_def lagging_def due_def)
  qed
qed

lemma coherent_rebuild:
  assumes "coherent as_sel L" and "f (l_watcher L) = rebuild as_sel x ((l_watcher L)\<lparr>polMap := m\<rparr>)" and "map_ok m"
  shows "coherent as_sel (policy_op f L)"
proof -
  have n: "w_has_notify (l_watcher L)"
    using assms(1) by (simp add: coherent_def)
  note d = due_rebuild [where f = f, OF n assms(2)]
  have "lagging (rebuilt as_sel x (l_watcher (policy_op f L))) (policy_op f L)"
    by (simp add: lagging_def policy_op_def d)
  moreover have "due (policy_op f L)"
    by (simp add: due_def policy_op_def d)
  ultimately show ?thesis
    using assms rebuild_effects(2) [of as_sel x "(l_watcher L)\<lparr>polMap := m\<rparr>"] n
    by (auto simp: coherent_def policy_op_def)
qed

lemma coherent_event:
  assumes "coherent as_sel L" and "l_policy_calls L = []"
  shows "coherent as_sel (policy_op (handlePolicyEvent as_sel x ev) L)"
proof -
  let ?f = "handlePolicyEvent as_sel x ev"
  have "map_ok (polMap (l_watcher L))"
    using assms(1) by (simp add: coherent_def)
  from event_cases [OF this, of as_sel x ev] show ?thesis
  proof
    assume "?f (l_watcher L) = l_watcher L"
    then have "policy_op ?f L = L"
      using assms(2) by (simp add: policy_op_def due_quiet)
    with assms(1) show ?thesis by simp
  next
    assume "\<exists>m. map_ok m \<and> ?f (l_watcher L) = rebuild as_sel x ((l_watcher L)\<lparr>polMap := m\<rparr>)"
    then show ?thesis
      using coherent_rebuild [OF assms(1), where f = ?f] by blast
  qed
qed

lemma trigger_due: "due (reconcile_trigger L)"
  by (simp add: due_def reconcile_trigger_def)

lemma coherent_pod_call:
  assumes "coherent as_sel L" and "l_pod_calls L = c # cs"
  shows "coherent as_sel (perform c (L\<lparr>l_pod_calls := cs\<rparr>))"
proof -
  have c: "c = Send_Trigger" "cs = []"
    using assms by (auto simp: coherent_def suffix_calls)
  show ?thesis
    using assms(1) trigger_due [of "L\<lparr>l_pod_calls := []\<rparr>"]
    by (simp add: c perform_def coherent_def reconcile_trigger_def lagging_def)
qed

lemma coherent_policy_call:
  assumes "coherent as_sel L" and "l_policy_calls L = c # cs"
  shows "coherent as_sel (perform c (L\<lparr>l_policy_calls := cs\<rparr>))"
proof -
  obtain x where lag: "lagging (rebuilt as_sel x (l_watcher L)) L"
    using assms(1) by (auto simp: coherent_def)
  let ?pol = "rebuilt as_sel x (l_watcher L)"
  let ?L = "perform c (L\<lparr>l_policy_calls := cs\<rparr>)"
  consider "c = Set_Proxy ?pol" "cs = [Store_Current ?pol, Send_Trigger]"
    | "c = Store_Current ?pol" "cs = [Send_Trigger]" "px_policy (l_proxy L) = ?pol"
    | "c = Send_Trigger" "cs = []" "px_policy (l_proxy L) = ?pol" "l_currentPolicy L = ?pol"
    using lag assms(2) by (auto simp: lagging_def suffix_calls)
  then have "lagging ?pol ?L \<and> due ?L"
  proof cases
    case 3
    then show ?thesis by (simp add: perform_def reconcile_trigger_def lagging_def due_def)
  qed (simp_all add: perform_def SetPolicy_def lagging_def suffix_calls due_def)
  moreover have "l_watcher ?L = l_watcher L" "l_pod_calls ?L = l_pod_calls L" "l_manager ?L = l_manager L" "l_ca ?L = l_ca L"
    "px_has_ca (l_proxy ?L) = px_has_ca (l_proxy L)"
    by (simp_all add: perform_def reconcile_trigger_def SetPolicy_def split: call.split)
  ultimately show ?thesis
    using assms(1) by (auto simp: coherent_def)
qed

lemma coherent_begin:
  assumes "coherent as_sel L" and "l_round L = None"
  shows "coherent as_sel (begin_round ord mappings (L\<lparr>l_trigger := b\<rparr>))"
proof -
  let ?L = "begin_round ord mappings (L\<lparr>l_trigger := b\<rparr>)"
  have "settled ?L"
  proof (cases mappings)
    case None
    then show ?thesis by (simp add: begin_round_def settled_def assms(2))
  next
    case (Some m)
    then show ?thesis
      by (auto simp: begin_round_def settled_def hosts_parts intro!: exI [of _ "[]"])
  qed
  then show ?thesis
    using assms(1) by (simp add: coherent_def lagging_def begin_round_def split: option.split)
qed

lemma coherent_visit:
  assumes "coherent as_sel L" and "l_round L = Some r" and "rs_todo r = e # es"
  shows "coherent as_sel (visit_entry e es r L)"
proof -
  let ?L = "visit_entry e es r L"
  have "settled ?L" if "\<not> due ?L"
  proof -
    have "\<not> due L"
      using that by (simp add: due_def visit_entry_def)
    then obtain seen where seen: "set seen \<union> set (rs_todo r) = set (rs_map r)" "set (rs_desired r) = hosts L seen"
      using assms(1,2) by (auto simp: coherent_def settled_def)
    have "set (seen @ [e]) \<union> set es = set (rs_map r)"
      using seen(1) assms(3) by auto
    moreover have "set (desired_loop (\<lambda>ip. NamespaceLookup ip (l_watcher L)) (covered L) [e] (rs_desired r)) = hosts L (seen @ [e])"
      by (simp add: set_desired_loop seen(2) hosts_parts) (simp add: hosts_def)
    ultimately show ?thesis
      unfolding settled_def visit_entry_def by (auto intro!: exI [of _ "seen @ [e]"])
  qed
  then show ?thesis
    using assms(1) by (simp add: coherent_def lagging_def visit_entry_def due_def)
qed

lemma coherent_end:
  assumes "coherent as_sel L" and "l_round L = Some r" and "rs_todo r = []"
  shows "coherent as_sel (end_round x r L)"
proof -
  let ?L = "end_round x r L"
  have ok: "links_ok (l_manager L)"
    using assms(1) by (simp add: coherent_def)
  note rec = Reconcile_spec [OF ok, of x "rs_desired r"]
  have "settled ?L" if "\<not> due ?L"
  proof -
    have "\<not> due L"
      using that by (simp add: due_def end_round_def)
    then obtain seen where seen: "set seen = set (rs_map r)" "set (rs_desired r) = hosts L seen"
      using assms by (auto simp: coherent_def settled_def)
    have "set (rs_desired r) = hosts L (rs_map r)"
      using seen hosts_set by blast
    then show ?thesis
      using rec by (auto simp: settled_def end_round_def list_all_iff)
  qed
  then show ?thesis
    using assms(1) rec by (simp add: coherent_def lagging_def end_round_def due_def)
qed

lemma coherent_link:
  assumes "coherent as_sel L"
  shows "coherent as_sel (L\<lparr>l_manager := watch_update b idx (l_manager L), l_intact := l_intact L \<and> \<not> b\<rparr>)"
proof (cases b)
  case True
  let ?L = "L\<lparr>l_manager := detach idx (l_manager L), l_intact := False\<rparr>"
  have "settled ?L" if "settled L"
    using that by (auto simp: settled_def)
  moreover have "due ?L = due L" "lagging pol ?L = lagging pol L" for pol
    by (simp_all add: due_def lagging_def)
  moreover have "links_ok (detach idx (l_manager L))"
    using assms by (simp add: coherent_def detach_ok)
  ultimately show ?thesis
    using assms True by (auto simp: coherent_def watch_update_def)
next
  case False
  then have "L\<lparr>l_manager := watch_update b idx (l_manager L), l_intact := l_intact L \<and> \<not> b\<rparr> = L"
    by (simp add: watch_update_def)
  with assms show ?thesis by simp
qed

lemma coherent_start:
  assumes "start w = Inr L"
  shows "coherent as_sel L"
proof -
  have L: "l_watcher L = new_watcher True" "l_currentPolicy L = new_policy []" "l_manager L = new_manager"
    "px_policy (l_proxy L) = new_policy []" "px_has_ca (l_proxy L) \<longleftrightarrow> l_ca L \<noteq> None"
    "l_pod_calls L = []" "l_policy_calls L = []" "l_round L = None" "l_last L = None"
    using assms by (auto simp: start_def Let_def new_proxy_def k8s_New_def split: sum.splits option.splits if_splits)
  have "rebuilt as_sel x (new_watcher True) = new_policy []" for x
    by (simp add: rebuilt_def new_watcher_def all_rules_def sort_rules_def)
  moreover have "map_ok (polMap (new_watcher True :: 'a watcher))"
    by (simp add: new_watcher_def map_ok_def)
  ultimately show ?thesis
    unfolding coherent_def lagging_def settled_def L by (simp add: L new_watcher_def new_manager_ok)
qed

lemma coherent_step: "latch_step as_sel L L' \<Longrightarrow> coherent as_sel L \<Longrightarrow> coherent as_sel L'"
proof (induction rule: latch_step.induct)
  case (pods L ev)
  then show ?case by (blast intro: coherent_pods)
next
  case (policies_listed L items x)
  then show ?case
    using list_policies_view by (intro coherent_rebuild) auto
next
  case (tick L ord mappings)
  then show ?case
    using coherent_begin [of as_sel L ord mappings "l_trigger L"] by simp
next
  case (request L env req addr port ns ls)
  then show ?case
    using handle_keeps_config [of "l_proxy L" env req addr port ns ls] by (intro coherent_proxy) (simp_all add: same_config_def)
next
  case (accept L)
  then show ?case by (intro coherent_proxy) simp_all
next
  case (critical L log p log')
  then show ?case
    using proxy_step_keeps [of "l_proxy L" log p log'] by (intro coherent_proxy) simp_all
next
  case (sweep L ord now)
  then show ?case by (intro coherent_proxy) simp_all
qed (blast intro: coherent_event coherent_pod_call coherent_policy_call coherent_begin coherent_visit coherent_end coherent_link)+

lemma latch_reach_coherent: "latch_reach as_sel L \<Longrightarrow> coherent as_sel L"
proof -
  assume "latch_reach as_sel L"
  then obtain w L0 where "start (w :: ('c, 'd) world) = Inr L0" "latch_steps as_sel L0 L"
    by (auto simp: latch_reach_def)
  from this(2) coherent_start [OF this(1)] show ?thesis
    by (induction rule: rtranclp_induct) (auto intro: coherent_step)
qed

section \<open>What the policies say in a reachable state\<close>

lemma lagging_rules:
  assumes "coherent as_sel L"
  obtains pol where "lagging pol L" and "\<And>q. q \<in> set (rules pol) \<longleftrightarrow> published as_sel (policy_view (polMap (l_watcher L))) q"
proof -
  obtain x where "lagging (rebuilt as_sel x (l_watcher L)) L" "map_ok (polMap (l_watcher L))"
    using assms by (auto simp: coherent_def)
  with that [of "rebuilt as_sel x (l_watcher L)"] show ?thesis
    by (simp add: set_rebuilt)
qed

lemma proxy_rules:
  assumes "coherent as_sel L" and "\<forall>pol. Set_Proxy pol \<notin> set (l_policy_calls L)"
  shows "q \<in> set (rules (px_policy (l_proxy L))) \<longleftrightarrow> published as_sel (policy_view (polMap (l_watcher L))) q"
  using lagging_rules [OF assms(1)] assms(2) by (metis lagging_def)

lemma quiet_covered:
  assumes "coherent as_sel L" and "\<not> due L"
  shows "covered L ns ls \<longleftrightarrow> pod_selected as_sel (policy_view (polMap (l_watcher L))) ns ls"
proof -
  obtain pol where pol: "lagging pol L" "\<And>q. q \<in> set (rules pol) \<longleftrightarrow> published as_sel (policy_view (polMap (l_watcher L))) q"
    using lagging_rules [OF assms(1)] by blast
  have "l_policy_calls L = []"
    using assms due_calls_left by blast
  then have "l_currentPolicy L = pol"
    using pol(1) by (simp add: lagging_def)
  then show ?thesis
    unfolding published_selected [symmetric] by (auto simp: covered_def Covered_def covered_rules_iff pol(2) [symmetric])
qed

lemma known_pod:
  "fst (NamespaceLookup ip w) \<noteq> [] \<and> P (fst (NamespaceLookup ip w)) (snd (NamespaceLookup ip w)) \<longleftrightarrow>
     (\<exists>meta. podMeta w ip = Some meta \<and> pm_Namespace meta \<noteq> [] \<and> P (pm_Namespace meta) (pm_Labels meta))"
  by (cases "podMeta w ip") (simp_all add: NamespaceLookup_def)

text \<open>The interfaces of a mapping that belong to pods which a live policy selects.\<close>

definition selected_hosts ::
  "('s \<Rightarrow> selector option) \<Rightarrow> 's watcher \<Rightarrow> mapping \<Rightarrow> int set" where
  "selected_hosts as_sel w m = {idx. \<exists>ip meta. (ip, idx) \<in> set m \<and> podMeta w ip = Some meta \<and> pm_Namespace meta \<noteq> []
     \<and> pod_selected as_sel (policy_view (polMap w)) (pm_Namespace meta) (pm_Labels meta)}"

lemma quiet_hosts:
  assumes "coherent as_sel L" and "\<not> due L"
  shows "hosts L m = selected_hosts as_sel (l_watcher L) m"
proof -
  let ?ns = "\<lambda>ip. NamespaceLookup ip (l_watcher L)"
  have "hosts L m = {idx. \<exists>ip. (ip, idx) \<in> set m \<and> (fst (?ns ip) \<noteq> [] \<and> covered L (fst (?ns ip)) (snd (?ns ip)))}"
    by (simp add: hosts_def covered_hosts_def)
  also have "\<dots> = {idx. \<exists>ip meta. (ip, idx) \<in> set m \<and> podMeta (l_watcher L) ip = Some meta \<and> pm_Namespace meta \<noteq> []
       \<and> covered L (pm_Namespace meta) (pm_Labels meta)}"
    unfolding known_pod by blast
  finally show ?thesis
    unfolding selected_hosts_def quiet_covered [OF assms] .
qed

section \<open>Progress of the enforcement\<close>

lemma desired_loop_Cons: "desired_loop nsFn cov (e # es) d = desired_loop nsFn cov es (desired_loop nsFn cov [e] d)"
  by (cases e) (simp split: prod.split)

text \<open>The rest of a round, when nothing else happens.\<close>

lemma visit_all:
  "l_round L = Some r \<Longrightarrow> latch_steps as_sel L (L\<lparr>l_round := Some (r\<lparr>rs_todo := [],
     rs_desired := desired_loop (\<lambda>ip. NamespaceLookup ip (l_watcher L)) (covered L) (rs_todo r) (rs_desired r)\<rparr>)\<rparr>)"
proof (induction "rs_todo r" arbitrary: L r)
  case Nil
  have "r\<lparr>rs_todo := [], rs_desired := rs_desired r\<rparr> = r"
    using Nil(1) by (cases r) simp
  moreover have "L\<lparr>l_round := Some r\<rparr> = L"
    using Nil(2) by (cases L) simp
  ultimately have "L\<lparr>l_round := Some (r\<lparr>rs_todo := [], rs_desired := rs_desired r\<rparr>)\<rparr> = L"
    by presburger
  then show ?case
    by (simp only: Nil(1) [symmetric] desired_loop.simps rtranclp.rtrancl_refl)
next
  case (Cons e es)
  let ?ns = "\<lambda>ip. NamespaceLookup ip (l_watcher L)"
  define r1 where "r1 = r\<lparr>rs_todo := es, rs_desired := desired_loop ?ns (covered L) [e] (rs_desired r)\<rparr>"
  have L1: "visit_entry e es r L = L\<lparr>l_round := Some r1\<rparr>"
    by (simp add: visit_entry_def r1_def)
  have "latch_step as_sel L (L\<lparr>l_round := Some r1\<rparr>)"
    using latch_step.entry [OF Cons.prems] Cons.hyps(2) L1 by metis
  moreover have "latch_steps as_sel (L\<lparr>l_round := Some r1\<rparr>) (L\<lparr>l_round := Some (r\<lparr>rs_todo := [],
      rs_desired := desired_loop ?ns (covered L) (rs_todo r) (rs_desired r)\<rparr>)\<rparr>)"
    using Cons.hyps(1) [of r1 "L\<lparr>l_round := Some r1\<rparr>"] desired_loop_Cons [of ?ns "covered L" e es "rs_desired r"]
    by simp (simp add: r1_def Cons.hyps(2) [symmetric])
  ultimately show ?case
    by (rule converse_rtranclp_into_rtranclp)
qed

text \<open>A round that nothing disturbs is \<open>enforceOnce\<close>.\<close>

definition after_round ::
  "'l reconcile_env \<Rightarrow> (string \<times> int) order \<Rightarrow> mapping \<Rightarrow> ('s, 'l, 'p, 'k) latch \<Rightarrow> ('s, 'l, 'p, 'k) latch" where
  "after_round x ord m L =
     (let ns = (\<lambda>ip. NamespaceLookup ip (l_watcher L))
      in L\<lparr>l_manager := enforceOnce (Reconcile x) ord (Some m) ns (covered L) (l_manager L), l_round := None, l_last := Some m,
           l_intact := list_all (attachable (re_tcx x)) (desired_loop ns (covered L) (go_range ord m) [])\<rparr>)"

lemma whole_round: "latch_steps as_sel (begin_round ord (Some m) L) (after_round x ord m L)"
proof -
  let ?r = "\<lparr>rs_map = m, rs_todo = go_range ord m, rs_desired = []\<rparr>"
  let ?r' = "\<lparr>rs_map = m, rs_todo = [],
    rs_desired = desired_loop (\<lambda>ip. NamespaceLookup ip (l_watcher L)) (covered L) (go_range ord m) []\<rparr>"
  have "latch_steps as_sel (L\<lparr>l_round := Some ?r\<rparr>) (L\<lparr>l_round := Some ?r'\<rparr>)"
    using visit_all [of "L\<lparr>l_round := Some ?r\<rparr>" ?r as_sel] by simp
  moreover have "latch_step as_sel (L\<lparr>l_round := Some ?r'\<rparr>) (end_round x ?r' (L\<lparr>l_round := Some ?r'\<rparr>))"
    by (rule latch_step.round_end) simp_all
  moreover have "end_round x ?r' (L\<lparr>l_round := Some ?r'\<rparr>) = after_round x ord m L"
    by (simp add: end_round_def after_round_def enforceOnce_def Let_def)
  ultimately show ?thesis
    by (simp add: begin_round_def rtranclp.rtrancl_into_rtrancl)
qed

text \<open>From any reachable state the calls that are due can be made and a round under way finished.\<close>

lemma coherent_steps: "latch_steps as_sel L L' \<Longrightarrow> coherent as_sel L \<Longrightarrow> coherent as_sel L'"
  by (induction rule: rtranclp_induct) (auto intro: coherent_step)

lemma perform_watcher [simp]: "l_watcher (perform c L) = l_watcher L" "l_round (perform c L) = l_round L"
  "l_pod_calls (perform c L) = l_pod_calls L" "l_policy_calls (perform c L) = l_policy_calls L"
  by (simp_all add: perform_def reconcile_trigger_def split: call.split)

lemma make_calls:
  "\<exists>L'. latch_steps as_sel L L' \<and> l_pod_calls L' = [] \<and> l_policy_calls L' = [] \<and> l_watcher L' = l_watcher L
     \<and> l_round L' = l_round L"
proof (induction "length (l_pod_calls L) + length (l_policy_calls L)" arbitrary: L)
  case 0
  then show ?case by auto
next
  case (Suc n)
  obtain L1 where L1: "latch_step as_sel L L1" "n = length (l_pod_calls L1) + length (l_policy_calls L1)"
    "l_watcher L1 = l_watcher L" "l_round L1 = l_round L"
  proof (cases "l_pod_calls L")
    case Nil
    with Suc.hyps(2) obtain c cs where "l_policy_calls L = c # cs"
      by (cases "l_policy_calls L") auto
    with Nil Suc.hyps(2) that [OF latch_step.policy_call] show ?thesis by simp
  next
    case (Cons c cs)
    with Suc.hyps(2) that [OF latch_step.pod_call [OF Cons]] show ?thesis by simp
  qed
  from Suc.hyps(1) [OF L1(2)] L1 show ?case
    by (metis converse_rtranclp_into_rtranclp)
qed

lemma finish_round:
  "\<exists>L'. latch_steps as_sel L L' \<and> l_round L' = None \<and> l_watcher L' = l_watcher L
     \<and> l_pod_calls L' = l_pod_calls L \<and> l_policy_calls L' = l_policy_calls L"
proof (cases "l_round L")
  case (Some r)
  let ?r = "r\<lparr>rs_todo := [], rs_desired := desired_loop (\<lambda>ip. NamespaceLookup ip (l_watcher L)) (covered L) (rs_todo r) (rs_desired r)\<rparr>"
  have "latch_step as_sel (L\<lparr>l_round := Some ?r\<rparr>) (end_round x ?r (L\<lparr>l_round := Some ?r\<rparr>))" for x
    by (rule latch_step.round_end) simp_all
  with visit_all [OF Some, of as_sel] have "latch_steps as_sel L (end_round x ?r (L\<lparr>l_round := Some ?r\<rparr>))" for x
    by (meson rtranclp.rtrancl_into_rtrancl)
  then show ?thesis
    by (intro exI [of _ "end_round undefined ?r (L\<lparr>l_round := Some ?r\<rparr>)"]) (simp add: end_round_def)
qed auto

lemma catch_up:
  fixes x :: "'l reconcile_env" and L :: "('s, 'l, 'p, 'k) latch"
  assumes "coherent as_sel L"
  shows "\<exists>L'. latch_steps as_sel L L' \<and> \<not> due L' \<and> l_round L' = None \<and> l_last L' = Some m \<and> l_watcher L' = l_watcher L
    \<and> (l_intact L' \<longleftrightarrow> (\<forall>i \<in> hosts L' m. attachable (re_tcx x) i))"
proof -
  obtain L1 where L1: "latch_steps as_sel L L1" "l_round L1 = None" "l_watcher L1 = l_watcher L"
    using finish_round [of as_sel L] by blast
  obtain L2 where L2: "latch_steps as_sel L1 L2" "l_pod_calls L2 = []" "l_policy_calls L2 = []" "l_watcher L2 = l_watcher L1"
    "l_round L2 = l_round L1"
    using make_calls [of as_sel L1] by blast
  let ?L3 = "L2\<lparr>l_trigger := False\<rparr>"
  let ?L4 = "after_round x id m ?L3"
  have "latch_step as_sel L2 (begin_round id (Some m) ?L3)"
  proof (cases "l_trigger L2")
    case True
    with L1(2) L2(5) show ?thesis by (intro latch_step.triggered) simp_all
  next
    case False
    then have "?L3 = L2"
      by (cases L2) simp
    with L1(2) L2(5) show ?thesis
      using latch_step.tick [of L2 as_sel id "Some m"] by simp
  qed
  then have "latch_steps as_sel L2 ?L4"
    using whole_round [of as_sel id m ?L3 x] by (rule converse_rtranclp_into_rtranclp)
  then have "latch_steps as_sel L ?L4"
    using L1(1) L2(1) by (meson rtranclp_trans)
  moreover have "hosts ?L4 m = hosts ?L3 m"
    by (rule hosts_cong) (simp_all add: after_round_def Let_def)
  then have "l_intact ?L4 \<longleftrightarrow> (\<forall>i \<in> hosts ?L4 m. attachable (re_tcx x) i)"
    by (simp add: after_round_def Let_def list_all_iff set_desired_loop hosts_def)
  ultimately show ?thesis
    using L1(3) L2(2-4) by (intro exI [of _ ?L4]) (simp add: after_round_def Let_def due_def)
qed

section \<open>Properties\<close>

text \<open>C3. One policy rules the whole program. In every reachable state, however its goroutines took turns, the rules
  of the CachePolicy objects the watcher holds now make up one policy; the proxy matches
  requests against it, and the attachment of pods goes by it, unless the very call that
  hands it over is among those the watcher is about to make, and these are the last of the
  three in their order. Interception of TLS is on exactly when a CA was loaded.\<close>

theorem one_policy:
  assumes "latch_reach as_sel L"
  shows "\<exists>pol. (\<forall>q. q \<in> set (rules pol) \<longleftrightarrow> published as_sel (policy_view (polMap (l_watcher L))) q)
    \<and> suffix (l_policy_calls L) [Set_Proxy pol, Store_Current pol, Send_Trigger]
    \<and> (Set_Proxy pol \<in> set (l_policy_calls L) \<or> px_policy (l_proxy L) = pol)
    \<and> (Store_Current pol \<in> set (l_policy_calls L) \<or> l_currentPolicy L = pol)
    \<and> (px_has_ca (l_proxy L) \<longleftrightarrow> l_ca L \<noteq> None)"
proof -
  have c: "coherent as_sel L"
    by (rule latch_reach_coherent [OF assms])
  obtain pol where "lagging pol L" "\<And>q. q \<in> set (rules pol) \<longleftrightarrow> published as_sel (policy_view (polMap (l_watcher L))) q"
    using lagging_rules [OF c] by blast
  moreover have "px_has_ca (l_proxy L) \<longleftrightarrow> l_ca L \<noteq> None"
    using c by (simp add: coherent_def)
  ultimately show ?thesis
    unfolding lagging_def by blast
qed

text \<open>One pod and one policy become known, the calls are made, and a round runs.\<close>

definition busy_policy :: "nat cache_policy" where
  "busy_policy = \<lparr>cp_Namespace = ''a'', cp_Name = ''p'', cp_PodSelector = 0, cp_Rules = [sample_policy_rule ''*'']\<rparr>"

definition busy_pod :: pod where
  "busy_pod = \<lparr>pod_IP = ''10.0.0.7'', pod_Namespace = ''a'', pod_Labels = Map.empty\<rparr>"

abbreviation busy_map :: mapping where
  "busy_map \<equiv> [(''10.0.0.7'', 7), (''10.0.0.8'', 8)]"

type_synonym sample_state = "(nat, int \<times> direction, nat, nat) latch"

definition busy_pods :: sample_state where
  "busy_pods = pod_op (pod_handler (Pod_Add (Some busy_pod))) sample_latch"

definition busy_listed :: sample_state where
  "busy_listed = policy_op (\<lambda>w. rebuild plain_selector sample_walk (w\<lparr>polMap := list_policies [Some busy_policy]\<rparr>))
     (perform Send_Trigger (busy_pods\<lparr>l_pod_calls := []\<rparr>))"

definition busy_rules :: policy where
  "busy_rules = rebuilt plain_selector sample_walk (l_watcher busy_listed)"

definition busy_called :: sample_state where
  "busy_called = perform Send_Trigger ((perform (Store_Current busy_rules) ((perform (Set_Proxy busy_rules)
     (busy_listed\<lparr>l_policy_calls := [Store_Current busy_rules, Send_Trigger]\<rparr>))\<lparr>l_policy_calls := [Send_Trigger]\<rparr>))\<lparr>l_policy_calls := []\<rparr>)"

definition busy_latch :: sample_state where
  "busy_latch = after_round sample_reconcile id busy_map (busy_called\<lparr>l_trigger := False\<rparr>)"

lemma sample_reach: "latch_reach as_sel sample_latch"
  unfolding latch_reach_def using sample_start(1) by blast

lemma busy_pods_step: "latch_step as_sel sample_latch busy_pods" "l_pod_calls busy_pods = [Send_Trigger]"
  "podMeta (l_watcher busy_pods) = [''10.0.0.7'' \<mapsto> \<lparr>pm_Namespace = ''a'', pm_Labels = Map.empty\<rparr>]"
  "l_policy_calls busy_pods = []" "w_has_notify (l_watcher busy_pods)" "l_round busy_pods = None" "l_manager busy_pods = new_manager"
proof -
  have "due_calls (pod_handler (Pod_Add (Some busy_pod))) (new_watcher True) = [Send_Trigger]"
    by (rule due_notified) (simp add: pod_handler_def onPodAdd_def busy_pod_def new_watcher_def fireNotify_def)
  then show "l_pod_calls busy_pods = [Send_Trigger]"
    by (simp add: busy_pods_def pod_op_def sample_start)
  show "latch_step as_sel sample_latch busy_pods"
    unfolding busy_pods_def by (rule latch_step.pods) (simp add: sample_start)
  show "podMeta (l_watcher busy_pods) = [''10.0.0.7'' \<mapsto> \<lparr>pm_Namespace = ''a'', pm_Labels = Map.empty\<rparr>]"
    "l_policy_calls busy_pods = []" "w_has_notify (l_watcher busy_pods)" "l_round busy_pods = None" "l_manager busy_pods = new_manager"
    by (simp_all add: busy_pods_def pod_op_def sample_start pod_handler_def onPodAdd_def busy_pod_def new_watcher_def fireNotify_def)
qed

lemma busy_listed_calls:
  "l_policy_calls busy_listed = [Set_Proxy busy_rules, Store_Current busy_rules, Send_Trigger]"
proof -
  have "w_has_notify (l_watcher (perform Send_Trigger (busy_pods\<lparr>l_pod_calls := []\<rparr>)))"
    by (simp add: busy_pods_step)
  from due_rebuild [where f = "\<lambda>w. rebuild plain_selector sample_walk (w\<lparr>polMap := list_policies [Some busy_policy]\<rparr>)", OF this refl]
  show ?thesis
    by (simp add: busy_listed_def policy_op_def busy_rules_def)
qed

lemma busy_simps [simp]:
  "l_pod_calls busy_latch = []" "l_policy_calls busy_latch = []" "\<not> l_trigger busy_latch" "l_round busy_latch = None"
  "l_last busy_latch = Some busy_map" "l_watcher busy_latch = l_watcher busy_listed"
  by (simp_all add: busy_latch_def after_round_def busy_called_def busy_listed_def policy_op_def Let_def)

lemma busy_steps: "latch_steps plain_selector busy_pods busy_latch"
proof -
  let ?b1 = "perform Send_Trigger (busy_pods\<lparr>l_pod_calls := []\<rparr>)"
  let ?b2 = "perform (Set_Proxy busy_rules) (busy_listed\<lparr>l_policy_calls := [Store_Current busy_rules, Send_Trigger]\<rparr>)"
  let ?b3 = "perform (Store_Current busy_rules) (?b2\<lparr>l_policy_calls := [Send_Trigger]\<rparr>)"
  have "latch_step plain_selector busy_pods ?b1"
    by (rule latch_step.pod_call) (simp add: busy_pods_step)
  moreover have "latch_step plain_selector ?b1 busy_listed"
    unfolding busy_listed_def by (rule latch_step.policies_listed) (simp_all add: busy_pods_step listed_def)
  moreover have "latch_step plain_selector busy_listed ?b2"
    by (rule latch_step.policy_call) (simp add: busy_listed_calls)
  moreover have "latch_step plain_selector ?b2 ?b3"
    by (rule latch_step.policy_call) simp
  moreover have "latch_step plain_selector ?b3 busy_called"
    unfolding busy_called_def by (rule latch_step.policy_call) simp
  moreover have "latch_step plain_selector busy_called (begin_round id (Some busy_map) (busy_called\<lparr>l_trigger := False\<rparr>))"
    by (rule latch_step.triggered) (simp_all add: busy_called_def perform_def reconcile_trigger_def busy_listed_def policy_op_def busy_pods_step)
  moreover have "latch_steps plain_selector (begin_round id (Some busy_map) (busy_called\<lparr>l_trigger := False\<rparr>)) busy_latch"
    unfolding busy_latch_def by (rule whole_round)
  ultimately show ?thesis
    by (meson converse_rtranclp_into_rtranclp)
qed

lemma busy_reach: "latch_reach plain_selector busy_latch"
  using latch_reach_steps [OF latch_reach_step [OF sample_reach busy_pods_step(1)] busy_steps] .

lemma busy_watcher:
  "podMeta (l_watcher busy_listed) = [''10.0.0.7'' \<mapsto> \<lparr>pm_Namespace = ''a'', pm_Labels = Map.empty\<rparr>]"
  "policy_view (polMap (l_watcher busy_listed)) = [(''a'', ''p'') \<mapsto> (0, [sample_policy_rule ''*''])]"
proof -
  have "policy_view (list_policies [Some busy_policy]) = [(''a'', ''p'') \<mapsto> (0, [sample_policy_rule ''*''])]"
    using list_policies_view [of "[Some busy_policy]"] by (simp add: listed_def List.map_filter_def busy_policy_def)
  then show "podMeta (l_watcher busy_listed) = [''10.0.0.7'' \<mapsto> \<lparr>pm_Namespace = ''a'', pm_Labels = Map.empty\<rparr>]"
    "policy_view (polMap (l_watcher busy_listed)) = [(''a'', ''p'') \<mapsto> (0, [sample_policy_rule ''*''])]"
    by (simp_all add: busy_listed_def policy_op_def rebuild_def busy_pods_step)
qed

lemma busy_live:
  "live_rule plain_selector (policy_view (polMap (l_watcher busy_listed))) ns sel r \<longleftrightarrow>
     ns = ''a'' \<and> sel = the (plain_selector 0) \<and> r = sample_policy_rule ''*''"
  by (auto simp: live_rule_def busy_watcher plain_selector_def)

lemma busy_selected:
  "pod_selected plain_selector (policy_view (polMap (l_watcher busy_listed))) ns ls \<longleftrightarrow> ns = ''a''"
  by (auto simp: pod_selected_def busy_live selects_def plain_selector_def)

theorem one_policy_witness:
  "\<exists>pol. px_policy (l_proxy busy_latch) = pol \<and> l_currentPolicy busy_latch = pol
     \<and> to_rule ''a'' (the (plain_selector 0)) (sample_policy_rule ''*'') \<in> set (rules pol)"
proof -
  have "published plain_selector (policy_view (polMap (l_watcher busy_latch)))
      (to_rule ''a'' (the (plain_selector 0)) (sample_policy_rule ''*''))"
    unfolding busy_simps published_live busy_live carries_iff by blast
  with one_policy [OF busy_reach] show ?thesis
    by auto
qed

text \<open>C16. A request is only treated by a rule of its own pod. When a request of a pod matches in a reachable
  state (and no newer policy is just being handed to the proxy), the rule is one of a
  CachePolicy that is live at that moment, lies in the pod's namespace (or in none) and
  selects the pod's labels; and a pod for which no live policy has such a rule can match
  nothing.\<close>

theorem rules_of_own_namespace:
  assumes "latch_reach as_sel L" and "\<forall>pol. Set_Proxy pol \<notin> set (l_policy_calls L)"
  shows "(match_for (l_proxy L) req addr port ns ls = Some q \<longrightarrow>
      (\<exists>ns' sel r. live_rule as_sel (policy_view (polMap (l_watcher L))) ns' sel r \<and> carries ns' sel r q \<and> selects ns' sel ns ls))
    \<and> (\<not> pod_selected as_sel (policy_view (polMap (l_watcher L))) ns ls \<longrightarrow>
      match_for (l_proxy L) req addr port ns ls = None)"
proof -
  let ?v = "policy_view (polMap (l_watcher L))"
  have mem: "\<exists>ns' sel r. live_rule as_sel ?v ns' sel r \<and> carries ns' sel r q \<and> selects ns' sel ns ls"
    if "match_for (l_proxy L) req addr port ns ls = Some q" for q
  proof -
    have "q \<in> set (rules (px_policy (l_proxy L))) \<and> rule_applies ns ls q"
      using ms.scan_mem that by (fastforce simp: Match_def rule_matches_def)
    then have "published as_sel ?v q" "rule_applies ns ls q"
      using proxy_rules [OF latch_reach_coherent [OF assms(1)] assms(2)] by simp_all
    then show ?thesis
      unfolding published_live using applies_carries by blast
  qed
  moreover have "match_for (l_proxy L) req addr port ns ls = None" if "\<not> pod_selected as_sel ?v ns ls"
    using mem that unfolding pod_selected_def by (meson not_None_eq)
  ultimately show ?thesis by blast
qed

lemma busy_match: "match_for (l_proxy busy_latch) (sample_request ''/'' []) ''a'' 80 ''a'' Map.empty \<noteq> None"
proof -
  let ?q = "to_rule ''a'' (the (plain_selector 0)) (sample_policy_rule ''*'')"
  have "?q \<in> set (rules (px_policy (l_proxy busy_latch)))"
    using proxy_rules [OF latch_reach_coherent [OF busy_reach], of ?q]
    by (simp add: published_live busy_live carries_iff)
  moreover have "rule_matches ''a'' Map.empty h 80 meth path ?q" for h meth path
    by (simp add: rule_matches_def rule_applies_def rule_targets_def rule_allows_def to_rule_def sample_policy_rule_def
        plain_selector_def)
  ultimately show ?thesis
    by (auto simp: Match_def ms.scan_None)
qed

theorem rules_of_own_namespace_witness:
  "match_for (l_proxy busy_latch) (sample_request ''/'' []) ''a'' 80 ''b'' Map.empty = None
   \<and> match_for (l_proxy busy_latch) (sample_request ''/'' []) ''a'' 80 ''a'' Map.empty
        = Some (to_rule ''a'' (the (plain_selector 0)) (sample_policy_rule ''*''))"
proof
  have none: "\<forall>pol. Set_Proxy pol \<notin> set (l_policy_calls busy_latch)"
    by simp
  note r = rules_of_own_namespace [OF busy_reach none]
  show "match_for (l_proxy busy_latch) (sample_request ''/'' []) ''a'' 80 ''b'' Map.empty = None"
    using r by (simp add: busy_selected)
  obtain q where q: "match_for (l_proxy busy_latch) (sample_request ''/'' []) ''a'' 80 ''a'' Map.empty = Some q"
    using busy_match by blast
  with r [THEN conjunct1, rule_format, OF q]
  show "match_for (l_proxy busy_latch) (sample_request ''/'' []) ''a'' 80 ''a'' Map.empty
      = Some (to_rule ''a'' (the (plain_selector 0)) (sample_policy_rule ''*''))"
    by (auto simp: busy_live carries_iff)
qed

text \<open>C10. Attachment follows the policies. However pods, policies and rounds of the enforcement interleaved: in a
  reachable state in which no notification is on its way and no round under way, and whose
  last round could read \<open>/proc\<close>, programs are attached only to interfaces on which that round
  found the address of a pod the watcher knows now and a live CachePolicy with a rule
  selects now, and to all of these unless one could not be attached or an interface was
  reported gone since.\<close>

theorem attachment_follows_policies:
  assumes "latch_reach as_sel L" and "\<not> due L" and "l_round L = None" and "l_last L = Some m"
  shows "attached_to (l_manager L) \<subseteq> selected_hosts as_sel (l_watcher L) m
    \<and> (l_intact L \<longrightarrow> attached_to (l_manager L) = selected_hosts as_sel (l_watcher L) m)"
proof -
  have c: "coherent as_sel L"
    by (rule latch_reach_coherent [OF assms(1)])
  then have "settled L"
    using assms(2) by (simp add: coherent_def)
  then show ?thesis
    using assms(3,4) unfolding settled_def quiet_hosts [OF c assms(2)] by blast
qed

theorem attachment_follows_policies_witness: "attached_to (l_manager busy_latch) = {7}"
proof -
  have "attachable sample_tcx i" if "i \<noteq> 3" for i
    using that by (simp add: attachable_def sample_tcx_def)
  then have "l_intact busy_latch"
    by (simp add: busy_latch_def after_round_def Let_def list_all_iff set_desired_loop covered_hosts_def sample_reconcile_def)
      force
  moreover have "\<not> due busy_latch"
    by (simp add: due_def)
  ultimately show ?thesis
    using attachment_follows_policies [OF busy_reach, of busy_map]
    by (auto simp: selected_hosts_def busy_watcher busy_selected [unfolded busy_watcher])
qed

text \<open>C18. No change is lost. Whenever a step changes the pods or policies the watcher knows, or the policy in
  force, a notification of the enforcement is on its way afterwards, and it stays so,
  whatever else happens, until the enforcement takes it and begins a round; so dropping
  notifications while one is pending is harmless.\<close>

theorem changes_reach_enforcement:
  assumes "latch_reach as_sel L" and "latch_step as_sel L L'"
  shows "(podMeta (l_watcher L') \<noteq> podMeta (l_watcher L) \<or> polMap (l_watcher L') \<noteq> polMap (l_watcher L)
      \<or> l_currentPolicy L' \<noteq> l_currentPolicy L \<longrightarrow> due L')
    \<and> (due L \<and> \<not> due L' \<longrightarrow> l_round L = None \<and> (\<exists>ord mappings. L' = begin_round ord mappings (L\<lparr>l_trigger := False\<rparr>)))"
  using assms(2) latch_reach_coherent [OF assms(1)]
proof (induction rule: latch_step.induct)
  case (pods L ev)
  then have "w_has_notify (l_watcher L)"
    by (simp add: coherent_def)
  from pod_ops(1) [OF this refl, of ev] pods(1) show ?case
    by (auto simp: pod_op_def due_def)
next
  case (policies_listed L items x)
  then have "w_has_notify (l_watcher L)"
    by (simp add: coherent_def)
  from due_rebuild [where f = "\<lambda>w. rebuild as_sel x (w\<lparr>polMap := list_policies items\<rparr>)", OF this refl] show ?case
    by (simp add: policy_op_def due_def)
next
  case (policy_event L x ev)
  then have w: "w_has_notify (l_watcher L)" "map_ok (polMap (l_watcher L))"
    by (simp_all add: coherent_def)
  show ?case
    using event_cases [OF w(2), of as_sel x ev] due_rebuild [where f = "handlePolicyEvent as_sel x ev", OF w(1)]
      due_quiet [of "handlePolicyEvent as_sel x ev" "l_watcher L"] policy_event(1)
    by (fastforce simp: policy_op_def due_def)
next
  case (pod_call L c cs)
  then have "c = Send_Trigger"
    by (auto simp: coherent_def suffix_calls)
  then show ?case
    by (simp add: perform_def trigger_due)
next
  case (policy_call L c cs)
  then have "c = Send_Trigger \<or> Send_Trigger \<in> set cs"
    by (auto simp: coherent_def lagging_def suffix_calls)
  then have "due (perform c (L\<lparr>l_policy_calls := cs\<rparr>))"
    by (auto simp: perform_def reconcile_trigger_def due_def split: call.split)
  then show ?case by simp
next
  case (tick L ord mappings)
  have "due (begin_round ord mappings L) = due L" "l_watcher (begin_round ord mappings L) = l_watcher L"
    "l_currentPolicy (begin_round ord mappings L) = l_currentPolicy L"
    by (simp_all add: begin_round_def due_def split: option.split)
  then show ?case by simp
next
  case (triggered L ord mappings)
  then show ?case by (auto simp: begin_round_def split: option.split)
qed (blast | auto simp: due_def visit_entry_def end_round_def)+

theorem changes_reach_enforcement_witness: "due busy_pods"
proof -
  have "podMeta (l_watcher busy_pods) \<noteq> podMeta (l_watcher sample_latch)"
    by (simp add: busy_pods_step sample_start new_watcher_def fun_eq_iff)
  with changes_reach_enforcement [OF sample_reach busy_pods_step(1) [of plain_selector]] show ?thesis
    by blast
qed

text \<open>C17. The enforcement can always catch up. From every reachable state, in the middle of whatever calls and
  rounds, the program can go on to a state in which it has taken every notification and
  attached the programs as the policies want it, for any mapping the resolver may find
  there whose interfaces can be attached: no order of the steps leads to a deadlock.\<close>

theorem enforcement_catches_up:
  fixes x :: "'l reconcile_env" and L :: "('s, 'l, 'p, 'k) latch"
  assumes "latch_reach as_sel L" and "\<forall>(ip, idx) \<in> set m. attachable (re_tcx x) idx"
  shows "\<exists>L'. latch_steps as_sel L L' \<and> \<not> due L' \<and> l_watcher L' = l_watcher L
    \<and> attached_to (l_manager L') = selected_hosts as_sel (l_watcher L) m"
proof -
  have c: "coherent as_sel L"
    by (rule latch_reach_coherent [OF assms(1)])
  from catch_up [OF c, of m x] obtain L' where L': "latch_steps as_sel L L'" "\<not> due L'" "l_round L' = None"
    "l_last L' = Some m" "l_watcher L' = l_watcher L" "l_intact L' \<longleftrightarrow> (\<forall>i \<in> hosts L' m. attachable (re_tcx x) i)"
    by blast
  have c': "coherent as_sel L'"
    by (rule coherent_steps [OF L'(1) c])
  have "hosts L' m = selected_hosts as_sel (l_watcher L) m"
    using quiet_hosts [OF c' L'(2)] L'(5) by simp
  moreover have "l_intact L'"
    using L'(6) assms(2) by (auto simp: hosts_def covered_hosts_def)
  ultimately have "attached_to (l_manager L') = selected_hosts as_sel (l_watcher L) m"
    using c' L'(2-4) by (auto simp: coherent_def settled_def)
  with L' show ?thesis by blast
qed

theorem enforcement_catches_up_witness:
  "\<exists>L'. latch_steps plain_selector busy_pods L' \<and> \<not> due L' \<and> attached_to (l_manager L') = {}"
proof -
  have "\<forall>(ip, idx) \<in> set busy_map. attachable (re_tcx sample_reconcile) idx"
    by (simp add: attachable_def sample_reconcile_def sample_tcx_def)
  moreover have "polMap (l_watcher busy_pods) = []"
    by (simp add: busy_pods_def pod_op_def sample_start pod_handler_def onPodAdd_def busy_pod_def new_watcher_def fireNotify_def)
  then have "selected_hosts plain_selector (l_watcher busy_pods) m = {}" for m
    by (simp add: selected_hosts_def pod_selected_def live_rule_def policy_view_def policies_in_def)
  ultimately show ?thesis
    using enforcement_catches_up [OF latch_reach_step [OF sample_reach busy_pods_step(1)], of busy_map sample_reconcile plain_selector]
    by auto
qed

end
