(* ===== verification/Latch_State.thy ===== *)
theory Latch_State
imports Latch_Run
begin

text \<open>
  What is well-formed in every state of the running program: the cache and its counters, where
  its entries come from, the watcher's collection, the links of the interface manager. The
  invariants of the components are carried over to the steps of Latch_Run.
\<close>

section \<open>The proxy of the running program\<close>

text \<open>The log of responses is a ghost, so that a step is possible from any other log as well.\<close>

lemma proxy_step_any_log:
  "proxy_step (p, log) (p', log') \<Longrightarrow> \<exists>evs. proxy_step (p, log1) (p', log1 @ evs)"
proof (erule proxy_stepE)
  fix ev ord now
  assume "p' = p\<lparr>px_cache := cache_set ord now (event_key ev) (event_entry ev) (px_cache p)\<rparr>" "genuine ev"
  then have "proxy_step (p, log1) (p', log1 @ [ev])"
    by (simp add: proxy_step.put)
  then show ?thesis by blast
qed (use proxy_step.intros append_Nil2 in metis)+

definition proxy_traced :: "proxy \<Rightarrow> bool" where
  "proxy_traced p \<longleftrightarrow> (\<exists>log. proxy_reach p log)"

lemma traced_step: "proxy_traced p \<Longrightarrow> proxy_step (p, log) (p', log') \<Longrightarrow> proxy_traced p'"
  unfolding proxy_traced_def using proxy_step_any_log proxy_reach_step by meson

lemma traced_handler: "proxy_traced p \<Longrightarrow> sane_limit p \<Longrightarrow> proxy_traced (fst (handleRequest env req addr port ns ls p))"
  unfolding proxy_traced_def proxy_reach_def using handle_path by (meson rtranclp_trans)

text \<open>No step of the program does to the proxy what its critical sections could not do.\<close>

lemma perform_proxy: "l_proxy (perform c L) = l_proxy L \<or> (\<exists>pol. l_proxy (perform c L) = SetPolicy pol (l_proxy L))"
  by (auto simp: perform_def reconcile_trigger_def split: call.split)

lemma latch_proxy_step:
  assumes "latch_step as_sel L L'"
  shows "l_proxy L' = l_proxy L \<or> (\<exists>log log'. proxy_step (l_proxy L, log) (l_proxy L', log'))
    \<or> (\<exists>env req addr port ns ls. l_proxy L' = fst (handleRequest env req addr port ns ls (l_proxy L)))"
  using assms
proof (induction rule: latch_step.induct)
  case (pod_call L c cs)
  then show ?case
    using perform_proxy [of c "L\<lparr>l_pod_calls := cs\<rparr>"] proxy_step.policy [of "l_proxy L"] by auto metis
next
  case (policy_call L c cs)
  then show ?case
    using perform_proxy [of c "L\<lparr>l_policy_calls := cs\<rparr>"] proxy_step.policy [of "l_proxy L"] by auto metis
next
  case (request L env req addr port ns ls)
  show ?case by simp blast
next
  case (accept L)
  then show ?case
    using proxy_step.meter [of "l_proxy L"] by (auto simp: observe_def)
next
  case (sweep L ord now)
  then show ?case
    using proxy_step.sweep [of "l_proxy L"] by auto metis
qed (auto simp: pod_op_def policy_op_def begin_round_def visit_entry_def end_round_def split: option.split)

lemma latch_step_traced:
  assumes "latch_step as_sel L L'" and "sane_limit (l_proxy L)"
  shows "sane_limit (l_proxy L') \<and> (proxy_traced (l_proxy L) \<longrightarrow> proxy_traced (l_proxy L'))"
  using latch_proxy_step [OF assms(1)]
proof (elim disjE exE)
  fix log log' assume "proxy_step (l_proxy L, log) (l_proxy L', log')"
  then show ?thesis
    using traced_step proxy_step_keeps assms(2) by (fastforce simp: sane_limit_def)
next
  fix env req addr port ns ls
  assume "l_proxy L' = fst (handleRequest env req addr port ns ls (l_proxy L))"
  then show ?thesis
    using traced_handler sane_limit_cong [OF handle_keeps_config] assms(2) by simp
qed (use assms(2) in simp)

lemma latch_step_limit: "latch_step as_sel L L' \<Longrightarrow> px_maxBodyBytes (l_proxy L') = px_maxBodyBytes (l_proxy L)"
  by (drule latch_proxy_step) (auto dest: proxy_step_keeps simp: handle_keeps_config [unfolded same_config_def])

lemma latch_steps_limit: "latch_steps as_sel L L' \<Longrightarrow> px_maxBodyBytes (l_proxy L') = px_maxBodyBytes (l_proxy L)"
  by (induction rule: rtranclp_induct) (auto dest: latch_step_limit)

lemma start_traced: "start w = Inr L \<Longrightarrow> proxy_traced (l_proxy L)"
  unfolding proxy_traced_def using proxy_reach_new
  by (fastforce simp: start_def Let_def split: sum.splits option.splits if_splits)

lemma latch_reach_traced:
  assumes "latch_reach as_sel L" and "sane_limit (l_proxy L)"
  shows "proxy_traced (l_proxy L)"
proof -
  obtain w L0 where w: "start (w :: ('c, 'd) world) = Inr L0" "latch_steps as_sel L0 L"
    using assms(1) by (auto simp: latch_reach_def)
  from w(2) assms(2) show ?thesis
  proof (induction rule: rtranclp_induct)
    case base
    show ?case by (rule start_traced [OF w(1)])
  next
    case (step M M')
    then have "sane_limit (l_proxy M)"
      using latch_step_limit [OF step.hyps(2)] by (simp add: sane_limit_def)
    with latch_step_traced [OF step.hyps(2)] step.IH show ?case by blast
  qed
qed

section \<open>Properties\<close>

text \<open>C2. The state of the program is well-formed at every moment, however its goroutines interleave: the
  keys of the cache are distinct, \<open>Len\<close> and \<open>SizeBytes\<close> are exact, and every entry is that of a
  response which an upstream gave and which may be stored, under the key of its request;
  the watcher holds no policy twice, no interface is recorded twice and the open links are
  those recorded; TLS is only intercepted with a CA. A limit that makes \<open>maxBodyBytes + 1\<close>
  overflow, or a negative one, is excluded.\<close>

theorem program_well_formed:
  assumes "latch_reach as_sel L" and "sane_limit (l_proxy L)"
  shows "(let c = px_cache (l_proxy L) in distinct (keys (entries c)) \<and> cache_len c = word_of_nat (length (entries c))
        \<and> cache_size_bytes c = word_of_nat (stored_bytes c)
        \<and> (\<forall>k e. cache_view c k = Some e \<longrightarrow> (\<exists>ev. genuine ev \<and> k = event_key ev \<and> e = event_entry ev)))
    \<and> distinct (keys (polMap (l_watcher L))) \<and> (\<forall>(ns, ps) \<in> set (polMap (l_watcher L)). distinct (map cp_Name ps))
    \<and> distinct (keys (links (l_manager L))) \<and> open_links (l_manager L) = sum_list (map (mset \<circ> snd) (links (l_manager L)))
    \<and> (px_has_ca (l_proxy L) \<longleftrightarrow> l_ca L \<noteq> None)"
proof -
  obtain log where "accounted (l_proxy L) log"
    using latch_reach_traced [OF assms] proxy_reach_accounted by (auto simp: proxy_traced_def)
  then have "store_ok (px_cache (l_proxy L))"
    "\<forall>k e. cache_view (px_cache (l_proxy L)) k = Some e \<longrightarrow> (\<exists>ev. genuine ev \<and> k = event_key ev \<and> e = event_entry ev)"
    by (auto simp: accounted_def)
  then show ?thesis
    using latch_reach_coherent [OF assms(1)]
    by (simp add: Let_def store_ok_def cache_len_def cache_size_bytes_def coherent_def map_ok_def links_ok_def)
qed

text \<open>A handler puts a response while the others pause.\<close>

definition stored_latch :: sample_state where
  "stored_latch = busy_latch\<lparr>l_proxy := (l_proxy busy_latch)\<lparr>px_cache :=
     cache_set id 0 (event_key sample_event) (event_entry sample_event) (px_cache (l_proxy busy_latch))\<rparr>\<rparr>"

lemma stored_reach: "latch_reach plain_selector stored_latch" "sane_limit (l_proxy stored_latch)"
proof -
  from proxy_step.put [OF genuine_sample, of "l_proxy busy_latch" "[]" id 0]
  have step: "latch_step plain_selector busy_latch stored_latch"
    unfolding stored_latch_def by (rule latch_step.critical) simp
  with busy_reach show "latch_reach plain_selector stored_latch"
    by (rule latch_reach_step)
  have "latch_steps plain_selector sample_latch stored_latch"
    using busy_pods_step(1) busy_steps step by (meson converse_rtranclp_into_rtranclp rtranclp.rtrancl_into_rtrancl)
  from latch_steps_limit [OF this] show "sane_limit (l_proxy stored_latch)"
    by (simp add: sane_limit_def sample_start new_proxy_def)
qed

theorem program_well_formed_witness:
  "cache_len (px_cache (l_proxy stored_latch)) = word_of_nat (length (entries (px_cache (l_proxy stored_latch))))
   \<and> distinct (keys (links (l_manager stored_latch))) \<and> (px_has_ca (l_proxy stored_latch) \<longleftrightarrow> l_ca stored_latch \<noteq> None)"
  using program_well_formed [OF stored_reach] unfolding Let_def by blast

end
