(* ===== verification/Api_Copy.thy ===== *)
theory Api_Copy
imports K8s_Watcher
begin

text \<open>
  \<open>api/v1alpha1/zz_deepcopy.go\<close>: the copies of the API objects. What a copy shares with
  its original depends on the memory behind the slices, so here the objects live in an
  explicit store: structs hold the address of the array of a slice, and writing through
  one object is seen by every other that holds the address.
\<close>

section \<open>The store\<close>

type_synonym ref = nat

text \<open>A \<open>CachePolicy\<close> (its names, and the array of \<open>Spec.Rules\<close>) and a \<open>CachePolicyList\<close>.\<close>

record api_policy =
  ap_Namespace :: string
  ap_Name :: string
  ap_Rules :: ref

record api_list =
  al_Items :: ref

record heap =
  h_policies :: "ref \<rightharpoonup> api_policy"
  h_lists :: "ref \<rightharpoonup> api_list"
  h_items :: "ref \<rightharpoonup> api_policy list"
  h_rules :: "ref \<rightharpoonup> policy_rule list"
  h_next :: ref

section \<open>Copying\<close>

text \<open>\<open>None\<close> is a panic: a pointer that holds nothing.\<close>

definition policy_DeepCopyObject :: "ref \<Rightarrow> heap \<Rightarrow> (ref \<times> heap) option" where
  "policy_DeepCopyObject p h =
     (case h_policies h p of
        None \<Rightarrow> None
      | Some v \<Rightarrow> Some (h_next h, h\<lparr>h_policies := (h_policies h)(h_next h \<mapsto> v), h_next := h_next h + 1\<rparr>))"

definition list_DeepCopyObject :: "ref \<Rightarrow> heap \<Rightarrow> (ref \<times> heap) option" where
  "list_DeepCopyObject l h =
     (case h_lists h l of
        None \<Rightarrow> None
      | Some v \<Rightarrow>
          (case h_items h (al_Items v) of
             None \<Rightarrow> None
           | Some items \<Rightarrow>
               let arr = h_next h; out = v\<lparr>al_Items := arr\<rparr>
               in Some (h_next h + 1, h\<lparr>h_items := (h_items h)(arr \<mapsto> items),
                    h_lists := (h_lists h)(h_next h + 1 \<mapsto> out), h_next := h_next h + 2\<rparr>)))"

section \<open>Reading and writing through an object\<close>

definition rules_of :: "ref \<Rightarrow> heap \<Rightarrow> policy_rule list option" where
  "rules_of p h = Option.bind (h_policies h p) (\<lambda>v. h_rules h (ap_Rules v))"

definition items_of :: "ref \<Rightarrow> heap \<Rightarrow> api_policy list option" where
  "items_of l h = Option.bind (h_lists h l) (\<lambda>v. h_items h (al_Items v))"

text \<open>\<open>p.Name = s\<close>, \<open>p.Spec.Rules[i].Host = s\<close>, \<open>l.Items[i].Name = s\<close>\<close>

definition set_name :: "ref \<Rightarrow> string \<Rightarrow> heap \<Rightarrow> heap option" where
  "set_name p s h =
     (case h_policies h p of None \<Rightarrow> None | Some v \<Rightarrow> Some (h\<lparr>h_policies := (h_policies h)(p \<mapsto> v\<lparr>ap_Name := s\<rparr>)\<rparr>))"

definition set_rule_host :: "ref \<Rightarrow> nat \<Rightarrow> string \<Rightarrow> heap \<Rightarrow> heap option" where
  "set_rule_host p i s h =
     (case h_policies h p of
        None \<Rightarrow> None
      | Some v \<Rightarrow>
          (case h_rules h (ap_Rules v) of
             None \<Rightarrow> None
           | Some rs \<Rightarrow>
               if i < length rs then Some (h\<lparr>h_rules := (h_rules h)(ap_Rules v \<mapsto> rs[i := (rs ! i)\<lparr>pr_Host := s\<rparr>])\<rparr>)
               else None))"

definition set_item_name :: "ref \<Rightarrow> nat \<Rightarrow> string \<Rightarrow> heap \<Rightarrow> heap option" where
  "set_item_name l i s h =
     (case h_lists h l of
        None \<Rightarrow> None
      | Some v \<Rightarrow>
          (case h_items h (al_Items v) of
             None \<Rightarrow> None
           | Some items \<Rightarrow>
               if i < length items
               then Some (h\<lparr>h_items := (h_items h)(al_Items v \<mapsto> items[i := (items ! i)\<lparr>ap_Name := s\<rparr>])\<rparr>) else None))"

text \<open>Addresses not handed out yet hold nothing and occur nowhere.\<close>

definition heap_ok :: "heap \<Rightarrow> bool" where
  "heap_ok h \<longleftrightarrow> (\<forall>a \<ge> h_next h. h_policies h a = None \<and> h_lists h a = None \<and> h_items h a = None \<and> h_rules h a = None)"

section \<open>Properties\<close>

text \<open>A copied policy is a shallow copy. It has the same contents, and a name written through the copy
  leaves the original alone; but the rules are shared, so that a rule changed through the
  copy is changed in the original too.\<close>

theorem policy_copy_shares_rules:
  assumes "heap_ok h" and "h_policies h p = Some v" and "rules_of p h = Some rs" and "i < length rs"
    and "policy_DeepCopyObject p h = Some (q, h')"
  shows "h_policies h' q = Some v \<and> rules_of q h' = Some rs
    \<and> (\<exists>h2. set_name q s h' = Some h2 \<and> h_policies h2 p = Some v \<and> h_policies h2 q = Some (v\<lparr>ap_Name := s\<rparr>))
    \<and> (\<exists>h2. set_rule_host q i s h' = Some h2 \<and> rules_of p h2 = Some (rs[i := (rs ! i)\<lparr>pr_Host := s\<rparr>]))"
proof -
  have "p \<noteq> h_next h"
    using assms(1,2) by (auto simp: heap_ok_def)
  then show ?thesis
    using assms by (auto simp: policy_DeepCopyObject_def rules_of_def set_name_def set_rule_host_def)
qed

definition sample_heap :: heap where
  "sample_heap =
     \<lparr>h_policies = [0 \<mapsto> \<lparr>ap_Namespace = ''a'', ap_Name = ''p'', ap_Rules = 1\<rparr>], h_lists = [2 \<mapsto> \<lparr>al_Items = 3\<rparr>],
      h_items = [3 \<mapsto> [\<lparr>ap_Namespace = ''a'', ap_Name = ''p'', ap_Rules = 1\<rparr>]],
      h_rules = [1 \<mapsto> [\<lparr>pr_Host = ''svc'', pr_Port = 80, pr_Methods = [], pr_Paths = [], pr_TTL = 60, pr_MaxBodyBytes = 0,
        pr_VaryHeaders = [], pr_CacheBody = False\<rparr>]],
      h_next = 4\<rparr>"

lemma sample_heap_ok: "heap_ok sample_heap"
  by (simp add: heap_ok_def sample_heap_def)

theorem policy_copy_shares_rules_witness:
  "\<exists>q h' h2 rs. policy_DeepCopyObject 0 sample_heap = Some (q, h') \<and> set_rule_host q 0 ''other'' h' = Some h2
     \<and> rules_of 0 h2 = Some rs \<and> pr_Host (hd rs) = ''other''"
proof -
  obtain h' where c: "policy_DeepCopyObject 0 sample_heap = Some (4, h')"
    by (simp add: policy_DeepCopyObject_def sample_heap_def)
  obtain v rs where v: "h_policies sample_heap 0 = Some v" "rules_of 0 sample_heap = Some rs" "length rs = 1"
    by (simp add: sample_heap_def rules_of_def)
  from policy_copy_shares_rules [OF sample_heap_ok v(1,2) _ c, of 0 "''other''"] v(3)
  obtain h2 where "set_rule_host 4 0 ''other'' h' = Some h2" "rules_of 0 h2 = Some (rs[0 := (rs ! 0)\<lparr>pr_Host := ''other''\<rparr>])"
    by auto
  with c v(3) show ?thesis
    by (intro exI [of _ 4] exI [of _ h'] exI [of _ h2]) (cases rs; simp)
qed

text \<open>A copied list has items of its own: it lists the same policies, and what is written to an item of the
  copy is not seen in the original.\<close>

theorem list_copy_has_own_items:
  assumes "heap_ok h" and "items_of l h = Some items" and "i < length items"
    and "list_DeepCopyObject l h = Some (q, h')"
  shows "items_of q h' = Some items
    \<and> (\<exists>h2. set_item_name q i s h' = Some h2 \<and> items_of l h2 = Some items
          \<and> items_of q h2 = Some (items[i := (items ! i)\<lparr>ap_Name := s\<rparr>]))"
proof -
  obtain v where v: "h_lists h l = Some v" "h_items h (al_Items v) = Some items"
    using assms(2) by (auto simp: items_of_def bind_eq_Some_conv)
  then have "l \<noteq> h_next h" "l \<noteq> h_next h + 1" "al_Items v \<noteq> h_next h"
    using assms(1) by (auto simp: heap_ok_def)
  with v assms(3,4) show ?thesis
    by (auto simp: list_DeepCopyObject_def items_of_def set_item_name_def Let_def)
qed

theorem list_copy_has_own_items_witness:
  "\<exists>q h' h2. list_DeepCopyObject 2 sample_heap = Some (q, h') \<and> set_item_name q 0 ''changed'' h' = Some h2
     \<and> items_of 2 h2 = items_of 2 sample_heap"
proof -
  obtain q h' where c: "list_DeepCopyObject 2 sample_heap = Some (q, h')"
    by (simp add: list_DeepCopyObject_def sample_heap_def Let_def)
  obtain items where "items_of 2 sample_heap = Some items" "0 < length items"
    by (simp add: sample_heap_def items_of_def)
  with list_copy_has_own_items [OF sample_heap_ok this c, of "''changed''"] c show ?thesis
    by auto
qed

end
