(* ===== verification/Spec2Isabelle.thy ===== *)
theory Spec2Isabelle
imports Sha256_Conformance Proxy_Limits Proxy_Peek Proxy_Stream Latch_State Api_Copy
begin

text \<open>
  Verification of latch, a transparent caching proxy for the HTTP traffic of the pods of a
  Kubernetes node.

  The program. A BPF program on the host end of a pod's interface redirects the pod's TCP
  packets for the ports 80 and 443 to the proxy and remembers where they were going; a second
  one gives the proxy's replies the sender the pod expects. The proxy accepts a connection,
  looks up its original destination and the pod it comes from, and then reads requests from
  it, splices it through, or (for TLS, with a CA configured and a rule for the server name)
  terminates it with a certificate made on the fly and reads requests. A request that matches
  a rule of a CachePolicy is answered from an in-memory cache, or fetched and stored when its
  headers allow; every other request is fetched and passed on. A watcher follows the pods and
  the CachePolicy objects of the cluster, publishes the rules to the proxy, and wakes the
  enforcement, which finds the interfaces of the covered pods and has the interface manager
  attach the programs to exactly these.

  The theories, in the order of their imports. Records, operations and their arguments have the
  names of the code; paths are relative to \<open>src/\<close>.

  \<^item> Latch_Prelude: byte strings, the machine integers of Go as words, association lists for
    maps, and \<open>go_range\<close>, the arbitrary order in which Go walks a map.
  \<^item> Go_Text, Go_Http, Net_Addr: what the program uses of the standard library
    (\<open>strings\<close>, \<open>strconv\<close>, \<open>net\<close>, \<open>net/http\<close>, \<open>net/url\<close>, \<open>io\<close>, \<open>encoding/binary\<close>).
  \<^item> Sha256, Sha256_Conformance: the hash of the cache key, and a published test vector.
  \<^item> Cache_Contract: the interface \<open>Cache\<close> as the locales \<open>lossy_map\<close>, \<open>budget_map\<close>, \<open>exact_map\<close>.
  \<^item> Cache_Store: \<open>internal/cache\<close> (\<open>store\<close>, \<open>Get\<close>, \<open>Set\<close>, \<open>Delete\<close>, eviction, sweeping), the
    provider of that interface (interpretation \<open>cs\<close>). Shown: the counters are exact, the budget
    holds, the store refines a map that forgets, and what is evicted first.
  \<^item> Cache_Key: \<open>internal/cachekey/key.go\<close>. Shown: what the key depends on and what it tells apart.
  \<^item> Cache_Policy: \<open>internal/policy/policy.go\<close>; the locale \<open>rule_scan\<close> is what its three loops over
    the rules share. Shown: the first rule that admits a request is the one returned.
  \<^item> Http_Caching: the header functions of \<open>internal/proxy/proxy.go\<close> (\<open>Vary\<close>, \<open>Cache-Control\<close>,
    lifetimes). Shown: round trips and bounds.
  \<^item> Proxy_Request, Proxy_Correct, Proxy_Caching: \<open>handleRequest\<close> and \<open>fetchUpstream\<close> of
    \<open>internal/proxy/proxy.go\<close> on the record \<open>proxy\<close>, with the list of effects on the network.
    Shown: one reply per request, every upstream connection given up once, what reaches the
    upstream, when something is stored, the hit after a miss.
  \<^item> Proxy_Limits: the same two functions where \<open>maxBodyBytes + 1\<close> wraps around or is negative. Shown:
    every body is lost there. The properties of the handler that speak of whole bodies therefore
    assume a limit from 0 up to the second largest 64-bit integer (\<open>sane_limit\<close>), as each of them says.
  \<^item> Proxy_Trace: the critical sections of concurrent handlers as the step relation
    \<open>proxy_step\<close>. Shown: a handler run is a path of it that uses the sections of this request only,
    stores at most its own response and keeps the policy, and a hit always returns a response that
    was stored for the same method, host, path and port.
  \<^item> Proxy_Metrics, Settings: \<open>internal/metrics\<close>, \<open>internal/config\<close>, \<open>internal/constants\<close>,
    \<open>internal/logging\<close>. Shown: each request is counted once, under the right label.
  \<^item> Tls_Sni, Tls_Ca, Splice_Conn: \<open>internal/tlsmitm\<close> (\<open>sni.go\<close>, \<open>ca.go\<close>, \<open>splice.go\<close>). Shown:
    the server name is read back from any well-formed ClientHello and no index is out of
    bounds; a client gets a certificate for the name it asked for; splicing is faithful, ends as soon
    as one direction ends, although reads and writes may wait for the peers, and closes either connection once.
  \<^item> Proxy_Conn: \<open>Serve\<close>, \<open>handleConn\<close>, \<open>handleTLSConn\<close>, \<open>spliceTo\<close> of \<open>internal/proxy/proxy.go\<close>.
    Shown: when a connection is intercepted, and that each of its requests gets its own answer, in order.
  \<^item> Proxy_Stream: the request loop on the bytes of the connection, with what the handler leaves
    unread of a body. Shown: when requests are read where the client put them, and when not.
  \<^item> Proxy_Peek: the buffered reader and the \<open>peekConn\<close>, on a connection that gives its bytes in
    pieces. Shown: the server name does not depend on the pieces, and a splice or a TLS server gets
    all that was looked at.
  \<^item> K8s_Watcher: \<open>internal/k8s/watcher.go\<close> and the types of \<open>api/v1alpha1/types.go\<close>. Its
    policies are an \<open>exact_map\<close>, its pods a \<open>lossy_map\<close>. Shown: it holds the live objects, and
    publishes their rules, the most specific first.
  \<^item> Attach_Contract: the interface \<open>Attacher\<close> as a locale. Iface_Manager (\<open>internal/iface/iface.go\<close>)
    provides it, Pod_Veth (\<open>internal/podveth\<close>) is its client: the locale \<open>enforcer\<close> extends it.
    Shown: no link leaks, and a round attaches the interfaces of the covered pods and no others.
  \<^item> Bpf_Redirect: \<open>bpf/latch.c\<close> on packets as byte lists, \<open>bpf/latch.go\<close>,
    \<open>internal/origdst/origdst.go\<close>. Shown: the lookup returns where a packet was going, and a
    reply gets that sender back.
  \<^item> Latch_Main: \<open>main.go\<close>, the start with its exit codes and the callbacks. Shown: what each exit
    code means; an intercepted connection is handled for the place it was sent to.
  \<^item> Latch_Run: the goroutines that \<open>main.go\<close> starts, as the step relation \<open>latch_step\<close>. Calls of
    callbacks, the critical sections of the requests and the parts of a round of the enforcement are
    steps of their own. Shown: the proxy and the enforcement go by one policy, that of the live
    objects, up to calls that are just being made; no change is lost on the way to the
    enforcement; when nothing is on its way, the programs are attached to the interfaces of the
    covered pods; this can always be reached.
  \<^item> Latch_State: the invariants of the components, carried over to the running program. Shown: in
    every reachable state the cache, its counters, the watcher's collection and the links are
    well-formed, and every entry of the cache is a response that was given for its key.
  \<^item> Api_Copy: \<open>api/v1alpha1/zz_deepcopy.go\<close> on an explicit store, so that sharing shows.

  Parameters. What is not in the repository is an argument: the helpers of the kernel
  (\<open>helpers\<close>, with their documented behaviour as \<open>helpers_ok\<close>, which \<open>plain_helpers\<close> satisfies), the
  answers of the kernel to an attachment (\<open>tcx\<close>) and to the walk over \<open>/proc\<close> (\<open>proc_entry\<close>), the
  objects the API server delivers and the label selectors (\<open>as_sel\<close>, \<open>selector\<close>), parsing keys and
  signing certificates (\<open>pki\<close>, \<open>create\<close>), the clock (one reading for an operation of the store, one for each reading elsewhere), the
  outcome of dialling and of exchanges with an upstream (\<open>http_env\<close>), what the two peers of a splice do (\<open>peer\<close>), and \<open>http.ReadRequest\<close> on a stream of bytes (\<open>read_request\<close>). Of
  these only \<open>helpers_ok\<close> is assumed, that a list of the API server names no object twice, and in
  \<open>stream_in_sync\<close> that \<open>read_request\<close> finds the messages a client sent.

  Termination. No fuel is used: every loop is a structural recursion or a function with a
  measure (the eviction loop by the number of entries, the loop over TLS extensions by the bytes
  left, those of the buffered reader by what the connection still holds), and the loops that may run for ever (accepting, watching, sweeping, enforcing) take the
  finite list of what happened so far or are steps of a relation.

  Not modelled.
  \<^item> The text of log messages, the measured latencies, and the HTTP servers of \<open>/metrics\<close> and
    \<open>/healthz\<close>: output only.
  \<^item> HTTP on the wire (\<open>http.ReadRequest\<close>, \<open>Request.Write\<close>, \<open>Response.Write\<close>), TLS handshakes and
    records, cryptography: standard library; their results are values. What \<open>Request.Write\<close> itself adds to a request it is given
    (the version, \<open>User-Agent\<close>, the framing of the body) is not. When a write to the client
    fails halfway the code does not notice, so neither does the model.
  \<^item> Informers, the decoding of JSON objects, the registration of the API group
    (\<open>api/v1alpha1/groupversion_info.go\<close>): Kubernetes libraries. An object that does not decode is
    one of the events.
  \<^item> The bindings generated from \<open>bpf/latch.c\<close> (\<open>latch_bpfel.go\<close>, \<open>latch_bpfeb.go\<close>, \<open>bpf/gen.go\<close>)
    and the version string.
  \<^item> In \<open>latch_step\<close> a reconciliation is one step (the two halves of an attachment are taken apart in
    Iface_Manager), and the leaf certificates of the CA and the map of the BPF programs do not
    change: their steps are those of Tls_Ca and Bpf_Redirect. The address of a peer as text is only needed for IPv4 peers, which are the
    only ones redirected.
\<close>

end
